(* ===== verification/Prelude.thy ===== *)
theory Prelude
  imports Main "HOL-Library.Word"
begin

section \<open>Shared types, checked memory accesses and size arithmetic\<close>

text \<open>
  What every component of the server shares.
  \<^item> \<open>byte\<close> is \<open>std::byte\<close> (and \<open>char\<close>, which the code only compares for equality or
    after a cast to \<open>unsigned char\<close>); \<open>bytes\<close> turns a string literal of the code into
    its bytes.
  \<^item> \<open>fault\<close> lists the ways in which a call ends without a value: an access outside an
    object (undefined behaviour in C++) and the standard exceptions the code throws or
    lets through. A fallible operation returns \<open>fault + 'a\<close>.
  \<^item> \<open>size_t\<close> values are natural numbers below \<open>2 ^ 64\<close>; \<open>sz_add\<close>, \<open>sz_sub\<close> and
    \<open>sz_mul\<close> are the operators of the code with their wrap-around written out.
  \<^item> \<open>mem_store\<close> and \<open>mem_load\<close> are \<open>std::memcpy\<close> into and out of an object of
    known size; a copy that does not fit is the fault \<open>Undefined_behaviour\<close>.
\<close>

type_synonym byte = "8 word"

definition bytes :: "string \<Rightarrow> byte list" where
  "bytes s = map of_char s"

lemma bytes_Nil [simp]: "bytes [] = []"
  by (simp add: bytes_def)

lemma bytes_Cons [simp]: "bytes (c # cs) = of_char c # bytes cs"
  by (simp add: bytes_def)

lemma length_bytes [simp]: "length (bytes s) = length s"
  by (simp add: bytes_def)

abbreviation ch :: "char \<Rightarrow> byte" where
  "ch c \<equiv> of_char c"

datatype fault =
    Undefined_behaviour
  | Length_error
  | Out_of_range
  | Logic_error
  | Overflow_error

type_synonym 'a result = "fault + 'a"

definition bind_result :: "'a result \<Rightarrow> ('a \<Rightarrow> 'b result) \<Rightarrow> 'b result" where
  "bind_result r k = (case r of Inl e \<Rightarrow> Inl e | Inr a \<Rightarrow> k a)"

lemma bind_result_simps [simp]:
  "bind_result (Inl e) k = Inl e"
  "bind_result (Inr a) k = k a"
  by (simp_all add: bind_result_def)

lemma bind_result_Inr_iff:
  "bind_result r k = Inr b \<longleftrightarrow> (\<exists>a. r = Inr a \<and> k a = Inr b)"
  by (cases r) auto

lemma bind_result_InrE:
  assumes "bind_result r k = Inr b"
  obtains a where "r = Inr a" and "k a = Inr b"
  using assms by (auto simp: bind_result_Inr_iff)

lemma bind_result_assoc:
  "bind_result (bind_result r k) h = bind_result r (\<lambda>a. bind_result (k a) h)"
  by (cases r) auto


subsection \<open>Arithmetic of \<open>std::size_t\<close>\<close>

named_theorems sz_simps "size_t arithmetic without wrap-around"

definition sz_modulus :: nat where
  "sz_modulus = 2 ^ 64"

definition sz_add :: "nat \<Rightarrow> nat \<Rightarrow> nat" where
  "sz_add a b = (a + b) mod sz_modulus"

definition sz_sub :: "nat \<Rightarrow> nat \<Rightarrow> nat" where
  "sz_sub a b = (a + (sz_modulus - b mod sz_modulus)) mod sz_modulus"

definition sz_mul :: "nat \<Rightarrow> nat \<Rightarrow> nat" where
  "sz_mul a b = (a * b) mod sz_modulus"

lemma sz_modulus_pos [simp]: "0 < sz_modulus"
  by (simp add: sz_modulus_def)

lemma sz_add_small [sz_simps]: "a + b < sz_modulus \<Longrightarrow> sz_add a b = a + b"
  by (simp add: sz_add_def)

lemma sz_mul_small [sz_simps]: "a * b < sz_modulus \<Longrightarrow> sz_mul a b = a * b"
  by (simp add: sz_mul_def)

lemma sz_sub_small [sz_simps]:
  assumes "b \<le> a" and "a < sz_modulus"
  shows "sz_sub a b = a - b"
proof -
  from assms have "b mod sz_modulus = b" by simp
  moreover from assms have "a + (sz_modulus - b) = (a - b) + sz_modulus" by simp
  moreover from assms have "(a - b) mod sz_modulus = a - b" by simp
  ultimately show ?thesis by (simp add: sz_sub_def)
qed

lemma sz_sub_wrap:
  assumes "a < b" and "b < sz_modulus"
  shows "sz_sub a b = sz_modulus - (b - a)"
proof -
  from assms have "a + (sz_modulus - b) = sz_modulus - (b - a)" by simp
  moreover from assms have "sz_modulus - (b - a) < sz_modulus" by simp
  moreover from assms have "b mod sz_modulus = b" by simp
  ultimately show ?thesis by (simp add: sz_sub_def)
qed

lemma sz_add_bound [simp]: "sz_add a b < sz_modulus"
  by (simp add: sz_add_def)

lemma sz_sub_bound [simp]: "sz_sub a b < sz_modulus"
  by (simp add: sz_sub_def)


subsection \<open>Checked copies\<close>

definition mem_store :: "'b list \<Rightarrow> nat \<Rightarrow> 'b list \<Rightarrow> 'b list result" where
  "mem_store dst off ds =
     (if off + length ds \<le> length dst
      then Inr (take off dst @ ds @ drop (off + length ds) dst)
      else Inl Undefined_behaviour)"

definition mem_load :: "'b list \<Rightarrow> nat \<Rightarrow> nat \<Rightarrow> 'b list result" where
  "mem_load src off n =
     (if off + n \<le> length src then Inr (take n (drop off src)) else Inl Undefined_behaviour)"

lemma mem_store_ok:
  "off + length ds \<le> length dst \<Longrightarrow>
     mem_store dst off ds = Inr (take off dst @ ds @ drop (off + length ds) dst)"
  by (simp add: mem_store_def)

lemma mem_store_overflow:
  "length dst < off + length ds \<Longrightarrow> mem_store dst off ds = Inl Undefined_behaviour"
  by (simp add: mem_store_def)

lemma mem_load_ok: "off + n \<le> length src \<Longrightarrow> mem_load src off n = Inr (take n (drop off src))"
  by (simp add: mem_load_def)

lemma length_mem_store: "mem_store dst off ds = Inr dst' \<Longrightarrow> length dst' = length dst"
  by (auto simp: mem_store_def split: if_splits)

lemma mem_store_prefix:
  "mem_store dst off ds = Inr dst' \<Longrightarrow> take (off + length ds) dst' = take off dst @ ds"
  by (auto simp: mem_store_def min_absorb2 split: if_splits)

text \<open>\<open>operator[]\<close> of an array or a view: an index past the end is undefined behaviour.\<close>

definition array_at :: "'b list \<Rightarrow> nat \<Rightarrow> 'b result" where
  "array_at xs i = (if i < length xs then Inr (xs ! i) else Inl Undefined_behaviour)"

lemma array_at_ok: "i < length xs \<Longrightarrow> array_at xs i = Inr (xs ! i)"
  by (simp add: array_at_def)

text \<open>\<open>std::vector::resize\<close>: truncate or pad with value-initialised elements.\<close>

definition resize :: "nat \<Rightarrow> 'b::zero list \<Rightarrow> 'b list" where
  "resize n xs = (if n \<le> length xs then take n xs else xs @ replicate (n - length xs) 0)"

lemma length_resize [simp]: "length (resize n xs) = n"
  by (simp add: resize_def)

lemma resize_id [simp]: "resize (length xs) xs = xs"
  by (simp add: resize_def)

lemma resize_0 [simp]: "resize 0 xs = []"
  by (simp add: resize_def)

lemma resize_idem [simp]: "resize n (resize n xs) = resize n xs"
  using resize_id [of "resize n xs"] by simp

lemma take_resize: "k \<le> length xs \<Longrightarrow> k \<le> n \<Longrightarrow> take k (resize n xs) = take k xs"
  by (simp add: resize_def min_def)

text \<open>
  The \<open>resize\<close> members throw \<open>std::length_error\<close> beyond \<open>max_size()\<close>, which for
  one-byte elements is the largest \<open>ptrdiff_t\<close>.
\<close>

definition max_size :: nat where
  "max_size = 2 ^ 63 - 1"

definition vec_resize :: "nat \<Rightarrow> 'b::zero list \<Rightarrow> 'b list result" where
  "vec_resize n xs = (if max_size < n then Inl Length_error else Inr (resize n xs))"

lemma vec_resize_ok [simp]: "n \<le> max_size \<Longrightarrow> vec_resize n xs = Inr (resize n xs)"
  by (simp add: vec_resize_def)

lemma max_size_less: "n \<le> max_size \<Longrightarrow> n < sz_modulus"
  by (simp add: max_size_def sz_modulus_def)

end
