(* ===== verification/HttpTables.thy ===== *)
theory HttpTables
  imports Prelude
begin

section \<open>Status codes, header fields and decimal numbers\<close>

text \<open>
  The enumerations \<open>Http::Status\<close> and \<open>Http::Field\<close> of \<open>src/message/http.cpp\<close> with the
  tables that give their texts (the enumerator \<open>_Count\<close> only sizes the tables), and the
  two functions of the standard library the code converts numbers with:
  \<open>std::to_chars\<close> and \<open>std::from_chars\<close>, base 10.
\<close>

datatype Status =
    SwitchingProtocols
  | OK | Created | NoContent
  | BadRequest | Unauthorized | Forbidden | NotFound | MethodNotAllowed | Conflict
  | InternalServerError | NotImplemented | BadGateway | ServiceUnavailable | GatewayTimeout
  | Status_Count

datatype Field =
    Host | ContentLength | ContentType | Connection | Accept | UserAgent
  | TransferEncoding | Authorization | Cookie
  | Field_Count

fun Status_index :: "Status \<Rightarrow> nat" where
  "Status_index SwitchingProtocols = 0"
| "Status_index OK = 1"
| "Status_index Created = 2"
| "Status_index NoContent = 3"
| "Status_index BadRequest = 4"
| "Status_index Unauthorized = 5"
| "Status_index Forbidden = 6"
| "Status_index NotFound = 7"
| "Status_index MethodNotAllowed = 8"
| "Status_index Conflict = 9"
| "Status_index InternalServerError = 10"
| "Status_index NotImplemented = 11"
| "Status_index BadGateway = 12"
| "Status_index ServiceUnavailable = 13"
| "Status_index GatewayTimeout = 14"
| "Status_index Status_Count = 15"

fun Field_index :: "Field \<Rightarrow> nat" where
  "Field_index Host = 0"
| "Field_index ContentLength = 1"
| "Field_index ContentType = 2"
| "Field_index Connection = 3"
| "Field_index Accept = 4"
| "Field_index UserAgent = 5"
| "Field_index TransferEncoding = 6"
| "Field_index Authorization = 7"
| "Field_index Cookie = 8"
| "Field_index Field_Count = 9"

definition statusStrArr :: "(int \<times> string \<times> string) list" where
  "statusStrArr =
     [(101, ''101'', ''Switching Protocols''),
      (200, ''200'', ''OK''),
      (201, ''201'', ''Created''),
      (204, ''204'', ''No Content''),
      (400, ''400'', ''Bad Request''),
      (401, ''401'', ''Unauthorized''),
      (403, ''403'', ''Forbidden''),
      (404, ''404'', ''Not Found''),
      (405, ''405'', ''Method Not Allowed''),
      (409, ''409'', ''Conflict''),
      (500, ''500'', ''Internal Server Error''),
      (501, ''501'', ''Not Implemented''),
      (502, ''502'', ''Bad Gateway''),
      (503, ''503'', ''Service Unavailable''),
      (504, ''504'', ''Gateway Timeout'')]"

definition fieldStrArr :: "string list" where
  "fieldStrArr =
     [''Host'', ''Content-Length'', ''Content-Type'', ''Connection'', ''Accept'',
      ''User-Agent'', ''Transfer-Encoding'', ''Authorization'', ''Cookie'']"

definition fieldStrArrLower :: "string list" where
  "fieldStrArrLower =
     [''host'', ''content-length'', ''content-type'', ''connection'', ''accept'',
      ''user-agent'', ''transfer-encoding'', ''authorization'', ''cookie'']"

lemma Status_index_bound: "Status_index s < length statusStrArr \<longleftrightarrow> s \<noteq> Status_Count"
  by (cases s) (simp_all add: statusStrArr_def)

lemma Field_index_bound: "Field_index f < length fieldStrArr \<longleftrightarrow> f \<noteq> Field_Count"
  by (cases f) (simp_all add: fieldStrArr_def)

lemma length_fieldStrArrLower: "length fieldStrArrLower = length fieldStrArr"
  by (simp add: fieldStrArr_def fieldStrArrLower_def)


subsection \<open>Decimal numbers\<close>

definition digit_byte :: "nat \<Rightarrow> byte" where
  "digit_byte d = of_nat (48 + d)"

definition is_digit :: "byte \<Rightarrow> bool" where
  "is_digit c \<longleftrightarrow> 48 \<le> c \<and> c \<le> 57"

definition digit_val :: "byte \<Rightarrow> nat" where
  "digit_val c = unat c - 48"

fun to_chars :: "nat \<Rightarrow> byte list" where
  "to_chars n = (if n < 10 then [digit_byte n] else to_chars (n div 10) @ [digit_byte (n mod 10)])"

declare to_chars.simps [simp del]

definition decimal_value :: "byte list \<Rightarrow> nat" where
  "decimal_value ds = foldl (\<lambda>v c. 10 * v + digit_val c) 0 ds"

text \<open>
  \<open>from_chars\<close> into a \<open>size_t\<close> reads the longest prefix of digits. \<open>None\<close> stands for the
  error codes (no digit, or a value of \<open>2 ^ 64\<close> or more), where the target is unchanged.
\<close>

definition from_chars :: "byte list \<Rightarrow> nat option" where
  "from_chars s =
     (let ds = takeWhile is_digit s; v = decimal_value ds
      in if ds = [] \<or> sz_modulus \<le> v then None else Some v)"

text \<open>\<open>to_chars\<close> of an \<open>int\<close> into a buffer of \<open>cap\<close> characters: \<open>None\<close> if it does not fit.\<close>

definition to_chars_int :: "nat \<Rightarrow> int \<Rightarrow> byte list option" where
  "to_chars_int cap i =
     (let s = (if i < 0 then ch CHR ''-'' # to_chars (nat (- i)) else to_chars (nat i))
      in if length s \<le> cap then Some s else None)"

lemma unat_digit_byte: "d < 10 \<Longrightarrow> unat (digit_byte d) = 48 + d"
  unfolding digit_byte_def unat_of_nat by simp

lemma digit_val_digit_byte [simp]: "d < 10 \<Longrightarrow> digit_val (digit_byte d) = d"
  by (simp add: digit_val_def unat_digit_byte)

lemma is_digit_digit_byte [simp]: "d < 10 \<Longrightarrow> is_digit (digit_byte d)"
  by (simp add: is_digit_def word_le_nat_alt unat_digit_byte)

lemma to_chars_digits: "\<forall>c \<in> set (to_chars n). is_digit c"
proof (induction n rule: to_chars.induct)
  case (1 n)
  then show ?case by (subst to_chars.simps) auto
qed

lemma to_chars_not_Nil [simp]: "to_chars n \<noteq> []"
  by (subst to_chars.simps) simp

lemma decimal_value_to_chars [simp]: "decimal_value (to_chars n) = n"
proof (induction n rule: to_chars.induct)
  case (1 n)
  show ?case
  proof (cases "n < 10")
    case True
    then show ?thesis by (simp add: to_chars.simps [of n] decimal_value_def)
  next
    case False
    with 1 have "decimal_value (to_chars (n div 10)) = n div 10" by simp
    with False show ?thesis by (simp add: to_chars.simps [of n] decimal_value_def)
  qed
qed

lemma takeWhile_to_chars [simp]: "takeWhile is_digit (to_chars n) = to_chars n"
  using to_chars_digits by (simp add: takeWhile_eq_all_conv)

lemma from_chars_to_chars: "n < sz_modulus \<Longrightarrow> from_chars (to_chars n) = Some n"
  by (simp add: from_chars_def Let_def)

lemma from_chars_bound: "from_chars s = Some v \<Longrightarrow> v < sz_modulus"
  by (auto simp: from_chars_def Let_def split: if_splits)

lemma length_to_chars: "n < 10 ^ k \<Longrightarrow> 0 < k \<Longrightarrow> length (to_chars n) \<le> k"
proof (induction n arbitrary: k rule: to_chars.induct)
  case (1 n)
  show ?case
  proof (cases "n < 10")
    case True
    with "1.prems" show ?thesis by (simp add: to_chars.simps [of n])
  next
    case False
    with "1.prems" obtain j where k: "k = Suc j" "0 < j"
      by (cases k; cases "k - 1") auto
    with "1.prems" have "n div 10 < 10 ^ j" by (simp add: less_mult_imp_div_less)
    with "1.IH" [OF False this] k False show ?thesis by (simp add: to_chars.simps [of n])
  qed
qed

lemma length_to_chars_size: "n < sz_modulus \<Longrightarrow> length (to_chars n) \<le> 20"
  by (rule length_to_chars) (simp_all add: sz_modulus_def)

text \<open>\<open>from_chars\<close> reads back what \<open>to_chars\<close> writes, up to the first byte that is no digit.\<close>

lemma decimal_roundtrip:
  assumes "n < sz_modulus" and "rest = [] \<or> \<not> is_digit (hd rest)"
  shows "from_chars (to_chars n @ rest) = Some n"
proof -
  have "takeWhile is_digit (to_chars n @ rest) = to_chars n @ takeWhile is_digit rest"
    using to_chars_digits [of n] by (intro takeWhile_append2) auto
  moreover have "takeWhile is_digit rest = []" using assms(2) by (cases rest) auto
  ultimately show ?thesis using assms(1) by (simp add: from_chars_def)
qed

end
