(* ===== verification/Errors.thy ===== *)
theory Errors
  imports Prelude
begin

section \<open>Error codes (\<open>src/error.cpp\<close>)\<close>

text \<open>
  The enumeration \<open>ErrorCode\<close>, the table of its texts and the class \<open>Error\<close>, an
  optional code. \<open>ErrorCode_COUNT\<close> is the enumerator \<open>_count\<close>, which sizes the table and has
  no text: \<open>what\<close> of it is an access past the table.
\<close>

datatype ErrorCode =
    SERIALIZATION_ERROR
  | DESERIALIZATION_ERROR
  | NULL_VALUE
  | INVALID_STATE
  | INVALID_MESSAGE
  | SOCKET_READ_ERROR
  | SOCKET_WRITE_ERROR
  | CONNECTION_ENDED
  | NO_ERROR
  | ErrorCode_COUNT

fun ErrorCode_index :: "ErrorCode \<Rightarrow> nat" where
  "ErrorCode_index SERIALIZATION_ERROR = 0"
| "ErrorCode_index DESERIALIZATION_ERROR = 1"
| "ErrorCode_index NULL_VALUE = 2"
| "ErrorCode_index INVALID_STATE = 3"
| "ErrorCode_index INVALID_MESSAGE = 4"
| "ErrorCode_index SOCKET_READ_ERROR = 5"
| "ErrorCode_index SOCKET_WRITE_ERROR = 6"
| "ErrorCode_index CONNECTION_ENDED = 7"
| "ErrorCode_index NO_ERROR = 8"
| "ErrorCode_index ErrorCode_COUNT = 9"

definition ErrorCodeStr :: "string list" where
  "ErrorCodeStr =
     [''Serialization Error'',
      ''Deserialization Error'',
      ''Null Value'',
      ''Invalid State'',
      ''Invalid Message'',
      ''Socket Read Error'',
      ''Socket Write Error'',
      ''Connection Ended'',
      ''No Error'']"

record Error =
  err_code :: "ErrorCode option"

definition Error_of :: "ErrorCode \<Rightarrow> Error" where
  "Error_of ec = \<lparr>err_code = Some ec\<rparr>"

definition Error_none :: Error where
  "Error_none = \<lparr>err_code = None\<rparr>"

definition what :: "Error \<Rightarrow> string result" where
  "what e =
     (let idx = (case err_code e of Some ec \<Rightarrow> ErrorCode_index ec | None \<Rightarrow> ErrorCode_index NO_ERROR)
      in array_at ErrorCodeStr idx)"

text \<open>\<open>explicit operator bool\<close>.\<close>

definition is_error :: "Error \<Rightarrow> bool" where
  "is_error e = (err_code e \<noteq> None)"

lemma is_error_Error_of [simp]: "is_error (Error_of ec)"
  by (simp add: is_error_def Error_of_def)

lemma is_error_none [simp]: "\<not> is_error Error_none"
  by (simp add: is_error_def Error_none_def)

lemma not_is_error: "\<not> is_error e \<longleftrightarrow> e = Error_none"
  by (cases e) (simp add: is_error_def Error_none_def)

lemma Error_of_neq_none [simp]: "Error_of ec \<noteq> Error_none" "Error_none \<noteq> Error_of ec"
  by (simp_all add: Error_of_def Error_none_def)

lemma Error_of_inject [simp]: "Error_of a = Error_of b \<longleftrightarrow> a = b"
  by (simp add: Error_of_def)

lemma ErrorCode_index_bound:
  "ErrorCode_index ec < length ErrorCodeStr \<longleftrightarrow> ec \<noteq> ErrorCode_COUNT"
  by (cases ec) (simp_all add: ErrorCodeStr_def)

lemma ErrorCode_index_inj: "ErrorCode_index a = ErrorCode_index b \<Longrightarrow> a = b"
  by (cases a; cases b) simp_all

lemma distinct_ErrorCodeStr: "distinct ErrorCodeStr"
  by (simp add: ErrorCodeStr_def)

text \<open>\<open>what\<close> reads inside the table for every code but the enumerator that counts them.\<close>

lemma error_texts:
  "(what e = Inl Undefined_behaviour \<longleftrightarrow> err_code e = Some ErrorCode_COUNT) \<and>
   (a = ErrorCode_COUNT \<or> b = ErrorCode_COUNT \<or> (what (Error_of a) = what (Error_of b) \<longleftrightarrow> a = b))"
proof
  show "what e = Inl Undefined_behaviour \<longleftrightarrow> err_code e = Some ErrorCode_COUNT"
    using ErrorCode_index_bound [of "case err_code e of Some ec \<Rightarrow> ec | None \<Rightarrow> NO_ERROR"]
    by (auto simp: what_def array_at_def split: option.splits)
  show "a = ErrorCode_COUNT \<or> b = ErrorCode_COUNT \<or> (what (Error_of a) = what (Error_of b) \<longleftrightarrow> a = b)"
    using ErrorCode_index_bound [of a] ErrorCode_index_bound [of b] ErrorCode_index_inj [of a b]
      nth_eq_iff_index_eq [OF distinct_ErrorCodeStr, of "ErrorCode_index a" "ErrorCode_index b"]
    by (auto simp: what_def array_at_def Error_of_def)
qed

end
