(* ===== verification/Message.thy ===== *)
theory Message
  imports Errors
begin

section \<open>The message interface (\<open>MessageLike\<close> in \<open>src/connection.h\<close>)\<close>

text \<open>
  The four operations a connection calls on a message. A consumer takes the bytes
  offered and returns an error, whether it is complete and how many bytes it took; a
  producer takes the size of the output span and returns the bytes it wrote at the front
  of the span, whose number is the count the code returns. The locales state what a
  connection relies on.
\<close>

type_synonym 'm consume_op = "'m \<Rightarrow> byte list \<Rightarrow> ((Error \<times> bool \<times> nat) \<times> 'm) result"
type_synonym 'm produce_op = "'m \<Rightarrow> nat \<Rightarrow> ((Error \<times> bool \<times> byte list) \<times> 'm) result"

record 'm MessageLike =
  consumeHeaderSome :: "'m consume_op"
  consumeBodySome :: "'m consume_op"
  produceHeaderSome :: "'m produce_op"
  produceBodySome :: "'m produce_op"

text \<open>
  A producer in phases: while the header is not finished it fills the span with the next
  bytes of the header, then the same with the body. \<open>hdr\<close> and \<open>bod\<close> are the bytes left.
\<close>

locale message_producer =
  fixes M :: "'m MessageLike"
    and hinv :: "'m \<Rightarrow> bool" and binv :: "'m \<Rightarrow> bool"
    and hdr :: "'m \<Rightarrow> byte list" and bod :: "'m \<Rightarrow> byte list"
  assumes header_more: "hinv m \<Longrightarrow> k < length (hdr m) \<Longrightarrow>
      \<exists>m'. produceHeaderSome M m k = Inr ((Error_none, False, take k (hdr m)), m') \<and> hinv m' \<and>
        hdr m' = drop k (hdr m) \<and> bod m' = bod m"
    and header_done: "hinv m \<Longrightarrow> length (hdr m) \<le> k \<Longrightarrow>
      \<exists>m'. produceHeaderSome M m k = Inr ((Error_none, True, hdr m), m') \<and> binv m' \<and> bod m' = bod m"
    and body_more: "binv m \<Longrightarrow> k < length (bod m) \<Longrightarrow>
      \<exists>m'. produceBodySome M m k = Inr ((Error_none, False, take k (bod m)), m') \<and> binv m' \<and>
        bod m' = drop k (bod m)"
    and body_done: "binv m \<Longrightarrow> length (bod m) \<le> k \<Longrightarrow>
      \<exists>m'. produceBodySome M m k = Inr ((Error_none, True, bod m), m')"

text \<open>
  A consumer in phases: first the header, then the body. \<open>hexp\<close> and \<open>bexp\<close> say which
  bytes the message still expects. \<open>body_consumer\<close> is the contract of the body, which
  may come in pieces and whose last piece may carry more bytes; a \<open>header_consumer\<close> takes
  a header that comes whole; a \<open>message_consumer\<close> takes it in pieces, too, of which the
  last ends with it.
\<close>

locale body_consumer =
  fixes M :: "'m MessageLike"
    and bexp :: "'m \<Rightarrow> byte list \<Rightarrow> bool"
    and fin :: "'m \<Rightarrow> bool" and body :: "byte list"
  assumes body_part: "bexp m (b1 @ b2) \<Longrightarrow> b2 \<noteq> [] \<Longrightarrow>
      \<exists>m'. consumeBodySome M m b1 = Inr ((Error_none, False, length b1), m') \<and> bexp m' b2"
    and body_last: "bexp m b \<Longrightarrow>
      \<exists>m'. consumeBodySome M m (b @ x) = Inr ((Error_none, True, length b), m') \<and> fin m'"

locale header_consumer = body_consumer M bexp fin body
  for M :: "'m MessageLike" and bexp :: "'m \<Rightarrow> byte list \<Rightarrow> bool"
    and fin :: "'m \<Rightarrow> bool" and body :: "byte list" +
  fixes hexp :: "'m \<Rightarrow> byte list \<Rightarrow> bool"
  assumes header_last: "hexp m h \<Longrightarrow> h \<noteq> [] \<Longrightarrow>
      \<exists>m'. consumeHeaderSome M m h = Inr ((Error_none, True, length h), m') \<and> bexp m' body"

locale message_consumer = header_consumer M bexp fin body hexp
  for M :: "'m MessageLike" and hexp :: "'m \<Rightarrow> byte list \<Rightarrow> bool"
    and bexp :: "'m \<Rightarrow> byte list \<Rightarrow> bool" and fin :: "'m \<Rightarrow> bool" and body :: "byte list" +
  assumes header_part: "hexp m (h1 @ h2) \<Longrightarrow> h1 \<noteq> [] \<Longrightarrow> h2 \<noteq> [] \<Longrightarrow>
      \<exists>m'. consumeHeaderSome M m h1 = Inr ((Error_none, False, length h1), m') \<and> hexp m' h2"

end
