(* ===== verification/Router.thy ===== *)
theory Router
  imports Prelude "HOL-Library.AList" "HOL-Library.List_Lexorder"
begin

section \<open>The router (\<open>Http::Router\<close> in \<open>src/message/http.cpp\<close>)\<close>

text \<open>
  A trie over path segments. A node has literal children by segment, one child for a
  parameter segment (\<open>:x\<close>), one for a wildcard (\<open>*\<close>, one or more segments) and
  possibly a handler. The handler type, \<open>std::function<AwaitT<Ret>(Args...)>\<close>, is the
  type parameter \<open>'h\<close>. The unordered map of the children is an association list: the
  code only looks keys up and inserts with \<open>try_emplace\<close>, so its order is not seen.
\<close>

datatype 'h node =
  Node (children: "(byte list \<times> 'h node) list")
       (paramChild: "'h node option")
       (wildcardChild: "'h node option")
       (handler: "'h option")

definition node_new :: "'h node" where
  "node_new = Node [] None None None"

lemma size_children [termination_simp]:
  assumes "map_of cs p = Some c"
  shows "size c < Suc (size_list (size_prod (\<lambda>_. 0) size) cs)"
proof -
  from assms have "(p, c) \<in> set cs" by (rule map_of_SomeD)
  then have "size_prod (\<lambda>_. 0) size (p, c) \<le> size_list (size_prod (\<lambda>_. 0) size) cs"
    by (rule size_list_estimation') simp
  then show ?thesis by simp
qed

text \<open>
  \<open>find_\<close>: the literal child first, then the parameter child, then the wildcard child on
  the suffixes left by one segment, two segments and so on (\<open>find_wild\<close> is that loop).
\<close>

function (sequential) find_node :: "'h node \<Rightarrow> byte list list \<Rightarrow> 'h node option"
  and find_wild :: "'h node \<Rightarrow> byte list list \<Rightarrow> 'h node option"
where
  "find_node (Node cs pc wc h) [] = (if h \<noteq> None then Some (Node cs pc wc h) else None)"
| "find_node (Node cs pc wc h) (p # ps) =
     (case (case map_of cs p of Some c \<Rightarrow> find_node c ps | None \<Rightarrow> None) of
        Some r \<Rightarrow> Some r
      | None \<Rightarrow>
         (case (case pc of Some c \<Rightarrow> find_node c ps | None \<Rightarrow> None) of
            Some r \<Rightarrow> Some r
          | None \<Rightarrow> (case wc of Some c \<Rightarrow> find_wild c (p # ps) | None \<Rightarrow> None)))"
| "find_wild w [] = None"
| "find_wild w (p # ps) =
     (case find_node w ps of Some r \<Rightarrow> Some r | None \<Rightarrow> find_wild w ps)"
  by pat_completeness auto
termination
  by (relation "measures [case_sum (size \<circ> fst) (size \<circ> fst), case_sum (length \<circ> snd) (length \<circ> snd)]")
     (auto dest: size_children)

text \<open>
  Splitting a path at its slashes: empty segments are skipped, and the loop runs on the
  index \<open>start\<close>. \<open>find_from s c i\<close> is \<open>s.find(c, i)\<close>.
\<close>

fun index_of :: "byte \<Rightarrow> byte list \<Rightarrow> nat option" where
  "index_of c [] = None"
| "index_of c (x # xs) = (if x = c then Some 0 else map_option Suc (index_of c xs))"

definition find_from :: "byte list \<Rightarrow> byte \<Rightarrow> nat \<Rightarrow> nat option" where
  "find_from s c start = map_option ((+) start) (index_of c (drop start s))"

function segment_loop :: "byte list \<Rightarrow> nat \<Rightarrow> byte list list" where
  "segment_loop path start =
     (if start < length path then
        (case find_from path (ch CHR ''/'') start of
           Some slash \<Rightarrow>
             if slash = start then segment_loop path (start + 1)
             else take (slash - start) (drop start path) # segment_loop path (slash + 1)
         | None \<Rightarrow>
             take (length path - start) (drop start path) # segment_loop path (length path + 1))
      else [])"
  by pat_completeness auto
termination
  by (relation "measure (\<lambda>(path, start). length path - start)")
     (auto simp: find_from_def)

declare segment_loop.simps [simp del]

text \<open>The segments of a route: \<open>path.back()\<close> of an empty path is undefined behaviour.\<close>

definition route_segments :: "byte list \<Rightarrow> byte list list result" where
  "route_segments path =
     (if path = [] then Inl Undefined_behaviour
      else Inr (segment_loop path 0 @ (if last path = ch CHR ''/'' then [[]] else [])))"

text \<open>The walk of \<open>add\<close>: follow or create the child of each segment, then set the handler.\<close>

fun insert_route :: "'h \<Rightarrow> byte list list \<Rightarrow> 'h node \<Rightarrow> 'h node" where
  "insert_route f [] (Node cs pc wc h) = Node cs pc wc (Some f)"
| "insert_route f (seg # segs) (Node cs pc wc h) =
     (if seg = bytes ''*'' then
        Node cs pc (Some (insert_route f segs (case wc of None \<Rightarrow> node_new | Some w \<Rightarrow> w))) h
      else if seg \<noteq> [] \<and> hd seg = ch CHR '':'' then
        Node cs (Some (insert_route f segs (case pc of None \<Rightarrow> node_new | Some c \<Rightarrow> c))) wc h
      else
        Node (AList.update seg
                (insert_route f segs (case map_of cs seg of None \<Rightarrow> node_new | Some c \<Rightarrow> c)) cs)
             pc wc h)"

record 'h router =
  notFoundHandler :: "'h option"
  root :: "'h node"
  segmentsList :: "byte list list list"

definition router_new :: "'h router" where
  "router_new = \<lparr>notFoundHandler = None, root = node_new, segmentsList = []\<rparr>"

definition router_add :: "'h router \<Rightarrow> byte list \<Rightarrow> 'h \<Rightarrow> 'h router result" where
  "router_add r path f =
     bind_result (route_segments path) (\<lambda>segments.
       Inr (r\<lparr>root := insert_route f segments (root r),
              segmentsList := segmentsList r @ [segments]\<rparr>))"

definition router_notFound :: "'h router \<Rightarrow> 'h \<Rightarrow> 'h router" where
  "router_notFound r f = r\<lparr>notFoundHandler := Some f\<rparr>"

text \<open>\<open>handle\<close> on handlers that are functions of the arguments.\<close>

definition router_handle :: "('a \<Rightarrow> 'r) router \<Rightarrow> byte list list \<Rightarrow> 'a \<Rightarrow> 'r option" where
  "router_handle r path args =
     (case find_node (root r) path of
        Some n \<Rightarrow> map_option (\<lambda>f. f args) (handler n)
      | None \<Rightarrow> (case notFoundHandler r of Some f \<Rightarrow> Some (f args) | None \<Rightarrow> None))"


subsection \<open>Reference: patterns, alignments and the route table\<close>

text \<open>
  A route is a list of segment patterns. An alignment of a route with a path says what
  each pattern took: 0 for a literal, 1 for a parameter, \<open>i + 1\<close> for a wildcard that
  took \<open>i\<close> segments. Ordered lexicographically, alignments give the precedence the
  router promises: literal before parameter before wildcard at the first difference,
  and the shortest wildcard first.
\<close>

datatype pattern = Lit "byte list" | Param | Wild

definition pattern_of :: "byte list \<Rightarrow> pattern" where
  "pattern_of seg =
     (if seg = bytes ''*'' then Wild
      else if seg \<noteq> [] \<and> hd seg = ch CHR '':'' then Param else Lit seg)"

fun aligns :: "pattern list \<Rightarrow> byte list list \<Rightarrow> nat list \<Rightarrow> bool" where
  "aligns [] path al = (path = [] \<and> al = [])"
| "aligns (Lit s # ps) (x # xs) (k # ks) = (k = 0 \<and> x = s \<and> aligns ps xs ks)"
| "aligns (Param # ps) (x # xs) (k # ks) = (k = 1 \<and> aligns ps xs ks)"
| "aligns (Wild # ps) (x # xs) (k # ks) =
     (2 \<le> k \<and> k \<le> length (x # xs) + 1 \<and> aligns ps (drop (k - 1) (x # xs)) ks)"
| "aligns (p # ps) path al = False"

fun matches :: "pattern list \<Rightarrow> byte list list \<Rightarrow> bool" where
  "matches [] path = (path = [])"
| "matches (Lit s # ps) path = (case path of [] \<Rightarrow> False | x # xs \<Rightarrow> x = s \<and> matches ps xs)"
| "matches (Param # ps) path = (case path of [] \<Rightarrow> False | x # xs \<Rightarrow> matches ps xs)"
| "matches (Wild # ps) path = (\<exists>i \<in> {1..length path}. matches ps (drop i path))"

lemma matches_iff_aligns: "matches ps path \<longleftrightarrow> (\<exists>al. aligns ps path al)"
proof (induction ps path rule: matches.induct)
  case (2 s ps path)
  then show ?case
    by (cases path) (auto intro: exI [of _ "0 # _"] elim: aligns.elims)
next
  case (3 ps path)
  then show ?case
    by (cases path) (auto intro: exI [of _ "1 # _"] elim: aligns.elims)
next
  case (4 ps path)
  show ?case
  proof
    assume "matches (Wild # ps) path"
    then obtain i where i: "i \<in> {1..length path}" and "matches ps (drop i path)" by auto
    with "4.IH" obtain al where "aligns ps (drop i path) al" by blast
    with i have "aligns (Wild # ps) path (Suc i # al)" by (cases path) auto
    then show "\<exists>al. aligns (Wild # ps) path al" ..
  next
    assume "\<exists>al. aligns (Wild # ps) path al"
    then obtain k ks where k: "2 \<le> k" "k \<le> length path + 1" "aligns ps (drop (k - 1) path) ks"
      by (auto elim: aligns.elims)
    then have "k - 1 \<in> {1..length path}" by auto
    with k "4.IH" show "matches (Wild # ps) path" by auto
  qed
qed simp

text \<open>The table a trie stands for: the handler at the end of a pattern list.\<close>

fun route_at :: "'h node \<Rightarrow> pattern list \<Rightarrow> 'h option" where
  "route_at (Node cs pc wc h) [] = h"
| "route_at (Node cs pc wc h) (Lit s # ps) =
     (case map_of cs s of Some c \<Rightarrow> route_at c ps | None \<Rightarrow> None)"
| "route_at (Node cs pc wc h) (Param # ps) = (case pc of Some c \<Rightarrow> route_at c ps | None \<Rightarrow> None)"
| "route_at (Node cs pc wc h) (Wild # ps) = (case wc of Some c \<Rightarrow> route_at c ps | None \<Rightarrow> None)"

lemma route_at_new [simp]: "route_at node_new ps = None"
  by (cases ps rule: list.exhaust; cases "hd ps") (auto simp: node_new_def)

lemma route_at_insert:
  "route_at (insert_route f segs n) = (route_at n)(map pattern_of segs \<mapsto> f)"
proof
  fix ps
  show "route_at (insert_route f segs n) ps = ((route_at n)(map pattern_of segs \<mapsto> f)) ps"
  proof (induction f segs n arbitrary: ps rule: insert_route.induct)
    case (1 f cs pc wc h)
    show ?case by (cases "(Node cs pc wc h, ps)" rule: route_at.cases) auto
  next
    case (2 f seg segs cs pc wc h)
    then show ?case
      by (cases "(Node cs pc wc h, ps)" rule: route_at.cases)
         (auto simp: pattern_of_def update_conv split: option.splits)
  qed
qed


subsection \<open>The search is the least alignment\<close>

lemma find_node_handler: "find_node n path = Some r \<Longrightarrow> handler r \<noteq> None"
  and find_wild_handler: "find_wild w path = Some r \<Longrightarrow> handler r \<noteq> None"
  by (induction n path and w path arbitrary: r and r rule: find_node_find_wild.induct)
     (auto split: option.splits if_splits)

text \<open>A candidate: a route with a handler that aligns with the path.\<close>

definition candidate :: "'h node \<Rightarrow> byte list list \<Rightarrow> nat list \<Rightarrow> 'h \<Rightarrow> bool" where
  "candidate n path al f \<longleftrightarrow> (\<exists>ps. route_at n ps = Some f \<and> aligns ps path al)"

definition least_candidate :: "'h node \<Rightarrow> byte list list \<Rightarrow> nat list \<Rightarrow> 'h \<Rightarrow> bool" where
  "least_candidate n path al f \<longleftrightarrow>
     candidate n path al f \<and> (\<forall>al' f'. candidate n path al' f' \<longrightarrow> al \<le> al')"

lemma candidate_Nil:
  "candidate (Node cs pc wc h) [] al f \<longleftrightarrow> al = [] \<and> h = Some f"
proof
  assume "candidate (Node cs pc wc h) [] al f"
  then obtain ps where "route_at (Node cs pc wc h) ps = Some f" "aligns ps [] al"
    by (auto simp: candidate_def)
  then show "al = [] \<and> h = Some f"
    by (cases "(ps, [] :: byte list list, al)" rule: aligns.cases) auto
next
  assume "al = [] \<and> h = Some f"
  then show "candidate (Node cs pc wc h) [] al f"
    by (auto simp: candidate_def intro: exI [of _ "[]"])
qed

lemma candidate_Cons:
  "candidate (Node cs pc wc h) (x # xs) al f \<longleftrightarrow>
     (\<exists>c ks. map_of cs x = Some c \<and> al = 0 # ks \<and> candidate c xs ks f) \<or>
     (\<exists>c ks. pc = Some c \<and> al = 1 # ks \<and> candidate c xs ks f) \<or>
     (\<exists>w i ks. wc = Some w \<and> al = (i + 1) # ks \<and> i \<in> {1..length (x # xs)} \<and>
        candidate w (drop i (x # xs)) ks f)" (is "?L \<longleftrightarrow> ?R")
proof
  assume ?L
  then obtain ps where r: "route_at (Node cs pc wc h) ps = Some f" and a: "aligns ps (x # xs) al"
    by (auto simp: candidate_def)
  from a obtain p qs k ks where ps: "ps = p # qs" and al: "al = k # ks"
    by (cases "(ps, x # xs, al)" rule: aligns.cases) auto
  show ?R
  proof (cases p)
    case (Lit s)
    with r a ps al show ?thesis by (auto simp: candidate_def split: option.splits)
  next
    case Param
    with r a ps al show ?thesis by (auto simp: candidate_def split: option.splits)
  next
    case Wild
    with a ps al have k: "2 \<le> k" "k \<le> length (x # xs) + 1" "aligns qs (drop (k - 1) (x # xs)) ks"
      by auto
    moreover from Wild r ps obtain w where "wc = Some w" "route_at w qs = Some f"
      by (auto split: option.splits)
    ultimately have "wc = Some w \<and> al = (k - 1 + 1) # ks \<and> k - 1 \<in> {1..length (x # xs)} \<and>
        candidate w (drop (k - 1) (x # xs)) ks f"
      unfolding candidate_def using al by auto
    then show ?thesis by blast
  qed
next
  assume ?R
  then consider
      (lit) c ks ps where "map_of cs x = Some c" "al = 0 # ks" "route_at c ps = Some f" "aligns ps xs ks"
    | (param) c ks ps where "pc = Some c" "al = 1 # ks" "route_at c ps = Some f" "aligns ps xs ks"
    | (wild) w i ks ps where "wc = Some w" "al = (i + 1) # ks" "i \<in> {1..length (x # xs)}"
        "route_at w ps = Some f" "aligns ps (drop i (x # xs)) ks"
    unfolding candidate_def by blast
  then show ?L
  proof cases
    case lit
    then show ?thesis unfolding candidate_def by (intro exI [of _ "Lit x # ps"]) simp
  next
    case param
    then show ?thesis unfolding candidate_def by (intro exI [of _ "Param # ps"]) simp
  next
    case wild
    then show ?thesis unfolding candidate_def by (intro exI [of _ "Wild # ps"]) auto
  qed
qed

text \<open>What the two searches return, in terms of candidates.\<close>

definition node_result :: "'h node \<Rightarrow> byte list list \<Rightarrow> 'h node option \<Rightarrow> bool" where
  "node_result n path res \<longleftrightarrow>
     (case res of
        Some r \<Rightarrow> \<exists>al f. handler r = Some f \<and> least_candidate n path al f
      | None \<Rightarrow> \<forall>al f. \<not> candidate n path al f)"

definition wild_result :: "'h node \<Rightarrow> byte list list \<Rightarrow> 'h node option \<Rightarrow> bool" where
  "wild_result w path res \<longleftrightarrow>
     (case res of
        Some r \<Rightarrow> \<exists>i al f. i \<in> {1..length path} \<and> handler r = Some f \<and>
          least_candidate w (drop i path) al f \<and>
          (\<forall>j \<in> {1..<i}. \<forall>al f. \<not> candidate w (drop j path) al f)
      | None \<Rightarrow> \<forall>j \<in> {1..length path}. \<forall>al f. \<not> candidate w (drop j path) al f)"

lemma least_candidate_lit:
  assumes "map_of cs x = Some c" and "least_candidate c xs al f"
  shows "least_candidate (Node cs pc wc h) (x # xs) (0 # al) f"
  using assms unfolding least_candidate_def candidate_Cons by fastforce

lemma least_candidate_param:
  assumes "\<And>c ks g. map_of cs x = Some c \<Longrightarrow> \<not> candidate c xs ks g"
    and "least_candidate c xs al f"
  shows "least_candidate (Node cs (Some c) wc h) (x # xs) (1 # al) f"
  using assms unfolding least_candidate_def candidate_Cons by fastforce

lemma least_candidate_wild:
  assumes lit: "\<And>c ks g. map_of cs x = Some c \<Longrightarrow> \<not> candidate c xs ks g"
    and par: "\<And>c ks g. pc = Some c \<Longrightarrow> \<not> candidate c xs ks g"
    and i: "i \<in> {1..length (x # xs)}" and least: "least_candidate w (drop i (x # xs)) al f"
    and less: "\<forall>j \<in> {1..<i}. \<forall>al f. \<not> candidate w (drop j (x # xs)) al f"
  shows "least_candidate (Node cs pc (Some w) h) (x # xs) ((i + 1) # al) f"
  unfolding least_candidate_def
proof (intro conjI allI impI)
  show "candidate (Node cs pc (Some w) h) (x # xs) ((i + 1) # al) f"
    using i least unfolding candidate_Cons least_candidate_def by blast
next
  fix al' f'
  assume "candidate (Node cs pc (Some w) h) (x # xs) al' f'"
  with lit par obtain j ks where j: "al' = (j + 1) # ks" "j \<in> {1..length (x # xs)}"
      "candidate w (drop j (x # xs)) ks f'"
    unfolding candidate_Cons by blast
  with less have "i \<le> j" by (meson atLeastAtMost_iff atLeastLessThan_iff not_le)
  moreover have "al \<le> ks" if "i = j"
    using j(3) least that unfolding least_candidate_def by blast
  ultimately show "(i + 1) # al \<le> al'" using j(1) by auto
qed

lemma wild_result_Cons:
  assumes node: "node_result w ps (find_node w ps)"
    and wild: "find_node w ps = None \<Longrightarrow> wild_result w ps (find_wild w ps)"
  shows "wild_result w (p # ps) (find_wild w (p # ps))"
proof (cases "find_node w ps")
  case (Some r)
  with node obtain al f where "handler r = Some f" "least_candidate w ps al f"
    by (auto simp: node_result_def)
  with Some show ?thesis by (auto simp: wild_result_def intro!: exI [of _ "Suc 0"])
next
  case None
  with node have none: "\<not> candidate w ps al f" for al f by (auto simp: node_result_def)
  have upto: "\<not> candidate w (drop j (p # ps)) al f"
    if "\<forall>i \<in> {1..<n}. \<forall>al f. \<not> candidate w (drop i ps) al f" "j \<in> {1..<Suc n}" for n j al f
  proof (cases "j = 1")
    case False
    with that(2) have "j - 1 \<in> {1..<n}" "drop j (p # ps) = drop (j - 1) ps"
      by (auto simp: drop_Cons')
    with that(1) show ?thesis by metis
  qed (simp add: none)
  show ?thesis
  proof (cases "find_wild w ps")
    case None2: None
    with wild [OF None] have "\<forall>i \<in> {1..<Suc (length ps)}. \<forall>al f. \<not> candidate w (drop i ps) al f"
      by (auto simp: wild_result_def)
    from upto [OF this] None None2 show ?thesis by (auto simp: wild_result_def)
  next
    case (Some r)
    with wild [OF None] obtain i al f where i: "i \<in> {1..length ps}" "handler r = Some f"
        "least_candidate w (drop i ps) al f"
        and less: "\<forall>j \<in> {1..<i}. \<forall>al f. \<not> candidate w (drop j ps) al f"
      by (auto simp: wild_result_def)
    with upto [OF less] None Some show ?thesis
      by (auto simp: wild_result_def intro!: exI [of _ "Suc i"])
  qed
qed

lemma node_result_Cons:
  fixes cs :: "(byte list \<times> 'h node) list"
  defines "L \<equiv> \<lambda>x xs. case map_of cs x of Some c \<Rightarrow> find_node c xs | None \<Rightarrow> None"
    and "P \<equiv> \<lambda>xs pc. case pc of Some (c :: 'h node) \<Rightarrow> find_node c xs | None \<Rightarrow> None"
  assumes lit: "\<And>c. map_of cs x = Some c \<Longrightarrow> node_result c xs (find_node c xs)"
    and par: "\<And>c. L x xs = None \<Longrightarrow> pc = Some c \<Longrightarrow> node_result c xs (find_node c xs)"
    and wil: "\<And>w. L x xs = None \<Longrightarrow> P xs pc = None \<Longrightarrow> wc = Some w \<Longrightarrow>
      wild_result w (x # xs) (find_wild w (x # xs))"
  shows "node_result (Node cs pc wc h) (x # xs) (find_node (Node cs pc wc h) (x # xs))"
proof (cases "L x xs")
  case (Some r)
  with lit obtain c al f where "map_of cs x = Some c" "handler r = Some f" "least_candidate c xs al f"
    by (fastforce simp: L_def node_result_def split: option.splits)
  with Some show ?thesis
    by (auto simp: L_def node_result_def dest: least_candidate_lit)
next
  case L: None
  have noL: "\<not> candidate c xs ks f" if "map_of cs x = Some c" for c ks f
    using lit [OF that] L that by (auto simp: L_def node_result_def)
  show ?thesis
  proof (cases "P xs pc")
    case (Some r)
    with par [OF L] obtain c al f where c: "pc = Some c" "handler r = Some f" "least_candidate c xs al f"
      by (fastforce simp: P_def node_result_def split: option.splits)
    from least_candidate_param [where cs = cs and x = x, OF noL c(3)] c(1,2) L Some show ?thesis
      by (auto simp: L_def P_def node_result_def)
  next
    case P: None
    have noP: "\<not> candidate c xs ks f" if "pc = Some c" for c ks f
      using par [OF L that] P that by (auto simp: P_def node_result_def)
    show ?thesis
    proof (cases wc)
      case None
      with L P noL noP show ?thesis
        by (auto simp: L_def P_def node_result_def candidate_Cons)
    next
      case (Some w)
      note wc = this
      note W = wil [OF L P Some]
      show ?thesis
      proof (cases "find_wild w (x # xs)")
        case None
        with W have "\<not> candidate w (drop i (x # xs)) ks f" if "i \<in> {1..length (x # xs)}" for i ks f
          using that by (auto simp: wild_result_def)
        with None wc L P noL noP show ?thesis
          unfolding node_result_def candidate_Cons L_def P_def by auto
      next
        case (Some r)
        with W obtain i al f where "handler r = Some f" and i: "i \<in> {1..length (x # xs)}"
            "least_candidate w (drop i (x # xs)) al f"
            "\<forall>j \<in> {1..<i}. \<forall>al f. \<not> candidate w (drop j (x # xs)) al f"
          by (auto simp: wild_result_def)
        with least_candidate_wild [OF noL noP i] Some wc L P show ?thesis
          by (auto simp: L_def P_def node_result_def)
      qed
    qed
  qed
qed

lemma find_node_result: "node_result (n :: 'h node) path (find_node n path)"
  and find_wild_result: "wild_result (w :: 'h node) wpath (find_wild w wpath)"
proof (induction n path and w wpath rule: find_node_find_wild.induct)
  case (1 cs pc wc h)
  show ?case by (auto simp: node_result_def least_candidate_def candidate_Nil)
next
  case (2 cs pc wc h p ps)
  show ?case by (rule node_result_Cons) (use "2.IH" in auto)
next
  case (3 w)
  show ?case by (simp add: wild_result_def)
next
  case (4 w p ps)
  then show ?case by (intro wild_result_Cons)
qed


subsection \<open>Splitting at slashes against a reference\<close>

fun split_at_byte :: "byte \<Rightarrow> byte list \<Rightarrow> byte list list" where
  "split_at_byte c [] = [[]]"
| "split_at_byte c (x # xs) =
     (if x = c then [] # split_at_byte c xs
      else (case split_at_byte c xs of [] \<Rightarrow> [[x]] | w # ws \<Rightarrow> (x # w) # ws))"

lemma split_at_byte_not_Nil [simp]: "split_at_byte c xs \<noteq> []"
  by (induction xs) (auto split: list.split)

lemma index_of_None: "index_of c xs = None \<longleftrightarrow> c \<notin> set xs"
  by (induction xs) auto

lemma index_of_Some:
  "index_of c xs = Some i \<Longrightarrow> i < length xs \<and> xs ! i = c \<and> c \<notin> set (take i xs)"
  by (induction xs arbitrary: i) (auto split: if_splits)

lemma split_at_byte_None: "c \<notin> set xs \<Longrightarrow> split_at_byte c xs = [xs]"
  by (induction xs) auto

lemma split_at_byte_append:
  "c \<notin> set xs \<Longrightarrow> split_at_byte c (xs @ c # ys) = xs # split_at_byte c ys"
  by (induction xs) auto

lemma segment_loop_split:
  "segment_loop path start = filter (\<lambda>s. s \<noteq> []) (split_at_byte (ch CHR ''/'') (drop start path))"
proof (induction path start rule: segment_loop.induct)
  case (1 path start)
  let ?c = "ch CHR ''/''"
  let ?d = "drop start path"
  show ?case
  proof (cases "start < length path")
    case False
    then show ?thesis by (simp add: segment_loop.simps [of path start])
  next
    case True
    show ?thesis
    proof (cases "index_of ?c ?d")
      case None
      then have "split_at_byte ?c ?d = [?d]"
        by (simp add: index_of_None split_at_byte_None)
      moreover have "segment_loop path (length path + 1) = []"
        by (subst segment_loop.simps) simp
      ultimately show ?thesis
        using True None by (simp add: segment_loop.simps [of path start] find_from_def)
    next
      case (Some i)
      from index_of_Some [OF this] have i: "i < length ?d" "?d ! i = ?c" "?c \<notin> set (take i ?d)"
        by auto
      then have "?d = take i ?d @ ?c # drop (start + i + 1) path"
        using id_take_nth_drop [OF i(1)] by (simp add: add.commute add.left_commute)
      with i have split: "split_at_byte ?c ?d = take i ?d # split_at_byte ?c (drop (start + i + 1) path)"
        by (metis split_at_byte_append)
      have f: "find_from path ?c start = Some (start + i)"
        using Some by (simp add: find_from_def)
      show ?thesis
      proof (cases "i = 0")
        case i0: True
        with "1.IH"(2) [OF True f] split show ?thesis
          using True f by (simp add: segment_loop.simps [of path start])
      next
        case i0: False
        with "1.IH"(3) [OF True f] split i True f show ?thesis
          by (simp add: segment_loop.simps [of path start])
      qed
    qed
  qed
qed

lemma split_segments_concat:
  assumes "\<forall>s \<in> set segs. s \<noteq> [] \<and> c \<notin> set s"
  shows "filter (\<lambda>s. s \<noteq> []) (split_at_byte c (concat (map (\<lambda>s. c # s) segs))) = segs"
  using assms
proof (induction segs)
  case (Cons s segs)
  then show ?case
  proof (cases segs)
    case Nil
    with Cons.prems show ?thesis by (simp add: split_at_byte_None)
  next
    case (Cons t ts)
    with Cons.prems Cons.IH show ?thesis
      by (simp add: split_at_byte_append)
  qed
qed simp


subsection \<open>The contract of a route table\<close>

text \<open>
  What the server relies on: adding a route defines the handler of exactly its pattern
  list, and the search finds a handler of a route that admits the path whenever there
  is one.
\<close>

locale route_table =
  fixes empty :: "'t"
    and table :: "'t \<Rightarrow> 'p list \<Rightarrow> 'h option"
    and put :: "'h \<Rightarrow> 's list \<Rightarrow> 't \<Rightarrow> 't"
    and pat :: "'s \<Rightarrow> 'p"
    and search :: "'t \<Rightarrow> 'x \<Rightarrow> 'h option"
    and admits :: "'p list \<Rightarrow> 'x \<Rightarrow> bool"
  assumes table_empty: "table empty ps = None"
    and table_put: "table (put f segs t) = (table t)(map pat segs \<mapsto> f)"
    and search_sound: "search t x = Some f \<Longrightarrow> \<exists>ps. table t ps = Some f \<and> admits ps x"
    and search_complete: "table t ps = Some f \<Longrightarrow> admits ps x \<Longrightarrow> search t x \<noteq> None"
begin

lemma table_build:
  "table (fold (\<lambda>(segs, f). put f segs) rs t) ps = Some f \<Longrightarrow>
     (\<exists>segs. (segs, f) \<in> set rs \<and> ps = map pat segs) \<or> table t ps = Some f"
proof (induction rs arbitrary: t)
  case (Cons r rs)
  obtain segs g where r: "r = (segs, g)" by force
  from Cons.prems r have "table (fold (\<lambda>(segs, f). put f segs) rs (put g segs t)) ps = Some f"
    by simp
  from Cons.IH [OF this] r show ?case
    by (auto simp: table_put split: if_splits)
qed simp

lemma table_build_defined:
  "table t ps \<noteq> None \<or> (\<exists>r \<in> set rs. ps = map pat (fst r)) \<Longrightarrow>
     table (fold (\<lambda>(segs, f). put f segs) rs t) ps \<noteq> None"
proof (induction rs arbitrary: t)
  case (Cons r rs)
  obtain segs g where r: "r = (segs, g)" by force
  from Cons.prems have "table (put g segs t) ps \<noteq> None \<or> (\<exists>r \<in> set rs. ps = map pat (fst r))"
    by (auto simp: r table_put)
  from Cons.IH [OF this] show ?case by (simp add: r)
qed simp

lemma search_build:
  "search (fold (\<lambda>(segs, f). put f segs) rs empty) x = None \<longleftrightarrow>
     (\<forall>r \<in> set rs. \<not> admits (map pat (fst r)) x)" (is "?L \<longleftrightarrow> ?R")
proof
  assume L: ?L
  show ?R
  proof
    fix r assume "r \<in> set rs"
    then have "table (fold (\<lambda>(segs, f). put f segs) rs empty) (map pat (fst r)) \<noteq> None"
      by (intro table_build_defined) blast
    with L show "\<not> admits (map pat (fst r)) x" by (metis not_None_eq search_complete)
  qed
next
  assume R: ?R
  show ?L
  proof (rule ccontr)
    assume "\<not> ?L"
    then obtain f ps where "table (fold (\<lambda>(segs, f). put f segs) rs empty) ps = Some f" "admits ps x"
      using search_sound by blast
    with R table_build [of rs empty ps f] show False by (auto simp: table_empty)
  qed
qed

lemma search_build_sound:
  assumes "search (fold (\<lambda>(segs, f). put f segs) rs empty) x = Some f"
  shows "\<exists>segs. (segs, f) \<in> set rs \<and> admits (map pat segs) x"
  using search_sound [OF assms] table_build [of rs empty] by (auto simp: table_empty)

end

definition search_handler :: "'h node \<Rightarrow> byte list list \<Rightarrow> 'h option" where
  "search_handler n path = (case find_node n path of Some r \<Rightarrow> handler r | None \<Rightarrow> None)"

lemma search_handler_least:
  "search_handler n path = Some f \<Longrightarrow> \<exists>al. least_candidate n path al f"
  using find_node_result [of n path]
  by (auto simp: search_handler_def node_result_def split: option.splits)

lemma search_handler_None:
  "search_handler n path = None \<longleftrightarrow> (\<forall>al f. \<not> candidate n path al f)"
  using find_node_result [of n path]
  by (auto simp: search_handler_def node_result_def least_candidate_def split: option.splits)

interpretation rt: route_table node_new route_at insert_route pattern_of search_handler matches
proof unfold_locales
  show "\<exists>ps. route_at t ps = Some f \<and> matches ps x" if "search_handler t x = Some f" for t x f
    using search_handler_least [OF that]
    by (auto simp: least_candidate_def candidate_def matches_iff_aligns)
  show "search_handler t x \<noteq> None" if "route_at t ps = Some f" "matches ps x" for t ps f x
    using that by (auto simp: search_handler_None candidate_def matches_iff_aligns)
qed (simp_all add: route_at_insert)

lemma router_handle_search:
  "router_handle r path args =
     (case search_handler (root r) path of
        Some f \<Rightarrow> Some (f args)
      | None \<Rightarrow> (case notFoundHandler r of Some f \<Rightarrow> Some (f args) | None \<Rightarrow> None))"
  using find_node_handler [of "root r" path]
  by (auto simp: router_handle_def search_handler_def split: option.splits)

text \<open>Adding routes one after the other, as the constructor of a server does.\<close>

fun router_add_all :: "'h router \<Rightarrow> (byte list \<times> 'h) list \<Rightarrow> 'h router result" where
  "router_add_all r [] = Inr r"
| "router_add_all r ((path, f) # rest) =
     bind_result (router_add r path f) (\<lambda>r'. router_add_all r' rest)"

definition segments_of :: "byte list \<Rightarrow> byte list list" where
  "segments_of path =
     filter (\<lambda>s. s \<noteq> []) (split_at_byte (ch CHR ''/'') path) @
     (if path \<noteq> [] \<and> last path = ch CHR ''/'' then [[]] else [])"

lemma route_segments_eq:
  "route_segments path = (if path = [] then Inl Undefined_behaviour else Inr (segments_of path))"
  by (simp add: route_segments_def segments_of_def segment_loop_split)

lemma router_add_all_root:
  "router_add_all r routes = Inr r' \<Longrightarrow>
     root r' = fold (\<lambda>(segs, f). insert_route f segs) (map (apfst segments_of) routes) (root r) \<and>
     notFoundHandler r' = notFoundHandler r"
proof (induction routes arbitrary: r)
  case (Cons p routes)
  obtain path f where p: "p = (path, f)" by force
  from Cons.prems p obtain r1 where r1: "router_add r path f = Inr r1"
      and "router_add_all r1 routes = Inr r'"
    by (auto simp: bind_result_Inr_iff)
  with Cons.IH have "root r' = fold (\<lambda>(segs, f). insert_route f segs)
      (map (apfst segments_of) routes) (root r1)" "notFoundHandler r' = notFoundHandler r1"
    by blast+
  moreover from r1 have "root r1 = insert_route f (segments_of path) (root r)"
      "notFoundHandler r1 = notFoundHandler r"
    by (auto simp: router_add_def route_segments_eq split: if_splits)
  ultimately show ?case by (simp add: p)
qed simp

end
