(* ===== verification/PhrRequest.thy ===== *)
theory PhrRequest
  imports Prelude
begin

section \<open>The request parser (\<open>lib/picohttpparser/picohttpparser.c\<close>)\<close>

text \<open>
  A pointer \<open>buf\<close> with its fixed end \<open>buf_end\<close> is the list of the bytes between them,
  so \<open>CHECK_EOF\<close> is the case of the empty list and \<open>++buf\<close> takes the tail. The return
  codes -2 and -1 are the errors \<open>Partial\<close> and \<open>Malformed\<close>; a token, a pointer and a
  length in the code, is the list of its bytes. \<open>sse\<close> chooses between the two builds of
  the file, with and without \<open>__SSE4_2__\<close>.
\<close>

datatype phr_error = Partial | Malformed

definition pbind :: "'e + 'a \<Rightarrow> ('a \<Rightarrow> 'e + 'b) \<Rightarrow> 'e + 'b" where
  "pbind r k = (case r of Inl e \<Rightarrow> Inl e | Inr a \<Rightarrow> k a)"

lemma pbind_simps [simp]:
  "pbind (Inl e) k = Inl e"
  "pbind (Inr a) k = k a"
  by (simp_all add: pbind_def)

lemma pbind_cong [fundef_cong]:
  "r = r' \<Longrightarrow> (\<And>a. r' = Inr a \<Longrightarrow> k a = k' a) \<Longrightarrow> pbind r k = pbind r' k'"
  by (cases r') auto

lemma pbind_Inr_iff: "pbind r k = Inr b \<longleftrightarrow> (\<exists>a. r = Inr a \<and> k a = Inr b)"
  by (cases r) auto

lemma pbind_Inl_iff: "pbind r k = Inl e \<longleftrightarrow> r = Inl e \<or> (\<exists>a. r = Inr a \<and> k a = Inl e)"
  by (cases r) auto

type_synonym 'a parsed = "phr_error + 'a \<times> byte list"


subsection \<open>Characters\<close>

text \<open>\<open>IS_PRINTABLE_ASCII\<close>, in unsigned arithmetic.\<close>

definition is_printable_ascii :: "byte \<Rightarrow> bool" where
  "is_printable_ascii c = ((ucast c :: 32 word) - 32 < 95)"

definition token_char_map :: "nat list" where
  "token_char_map =
     [0,0,0,0,0,0,0,0,0,0,0,0,0,0,0,0,0,0,0,0,0,0,0,0,0,0,0,0,0,0,0,0] @
     [0,1,0,1,1,1,1,1,0,0,1,1,0,1,1,0,1,1,1,1,1,1,1,1,1,1,0,0,0,0,0,0] @
     [0,1,1,1,1,1,1,1,1,1,1,1,1,1,1,1,1,1,1,1,1,1,1,1,1,1,1,0,0,0,1,1] @
     [1,1,1,1,1,1,1,1,1,1,1,1,1,1,1,1,1,1,1,1,1,1,1,1,1,1,1,0,1,0,1,0] @
     replicate 128 0"

definition is_token_char :: "byte \<Rightarrow> bool" where
  "is_token_char c = (token_char_map ! unat c \<noteq> 0)"

text \<open>The bytes that end a line scan: controls other than a tab, and DEL.\<close>

definition is_ctl :: "byte \<Rightarrow> bool" where
  "is_ctl c = (c < 32 \<and> c \<noteq> 9 \<or> c = 127)"

definition is_blank :: "byte \<Rightarrow> bool" where
  "is_blank c = (c = 32 \<or> c = 9)"


subsection \<open>Scanning\<close>

text \<open>
  \<open>findchar_fast\<close>: with SSE4.2, 16 bytes at a time, up to the first byte in one of the
  ranges; without, the pointer as it is. The results are \<open>found\<close>, the bytes passed over
  and the bytes from the returned pointer on.
\<close>

definition in_ranges :: "(byte \<times> byte) list \<Rightarrow> byte \<Rightarrow> bool" where
  "in_ranges ranges c = list_ex (\<lambda>(lo, hi). lo \<le> c \<and> c \<le> hi) ranges"

primrec findchar_blocks ::
  "(byte \<times> byte) list \<Rightarrow> nat \<Rightarrow> byte list \<Rightarrow> bool \<times> byte list \<times> byte list" where
  "findchar_blocks ranges 0 buf = (False, [], buf)"
| "findchar_blocks ranges (Suc left) buf =
     (let r = length (takeWhile (\<lambda>c. \<not> in_ranges ranges c) (take 16 buf))
      in if r \<noteq> 16 then (True, take r buf, drop r buf)
         else (case findchar_blocks ranges left (drop 16 buf) of
                 (found, skipped, rest) \<Rightarrow> (found, take 16 buf @ skipped, rest)))"

definition findchar_fast ::
  "bool \<Rightarrow> (byte \<times> byte) list \<Rightarrow> byte list \<Rightarrow> bool \<times> byte list \<times> byte list" where
  "findchar_fast sse ranges buf =
     (if sse \<and> 16 \<le> length buf then findchar_blocks ranges (length buf div 16) buf
      else (False, [], buf))"

text \<open>Add bytes passed over to the token of a result.\<close>

definition extend_token :: "byte list \<Rightarrow> byte list parsed \<Rightarrow> byte list parsed" where
  "extend_token pre r = pbind r (\<lambda>(tok, rest). Inr (pre @ tok, rest))"

definition expect_char :: "byte \<Rightarrow> byte list \<Rightarrow> unit parsed" where
  "expect_char c buf =
     (case buf of [] \<Rightarrow> Inl Partial | x # xs \<Rightarrow> if x \<noteq> c then Inl Malformed else Inr ((), xs))"

text \<open>\<open>ADVANCE_TOKEN\<close>: up to a blank.\<close>

fun advance_loop :: "byte list \<Rightarrow> byte list parsed" where
  "advance_loop [] = Inl Partial"
| "advance_loop (c # cs) =
     (if c = 32 then Inr ([], c # cs)
      else if \<not> is_printable_ascii c \<and> (c < 32 \<or> c = 127) then Inl Malformed
      else extend_token [c] (advance_loop cs))"

definition advance_token :: "bool \<Rightarrow> byte list \<Rightarrow> byte list parsed" where
  "advance_token sse buf =
     (case findchar_fast sse [(0, 32), (127, 127)] buf of
        (found2, skipped, rest) \<Rightarrow>
          if \<not> found2 \<and> rest = [] then Inl Partial else extend_token skipped (advance_loop rest))"

text \<open>\<open>do { ++buf; CHECK_EOF(); } while (*buf == ' ')\<close>.\<close>

fun skip_spaces :: "byte list \<Rightarrow> unit parsed" where
  "skip_spaces [] = Inl Partial"
| "skip_spaces (c # cs) = (if c = 32 then skip_spaces cs else Inr ((), c # cs))"

text \<open>\<open>get_token_to_eol\<close>. Without SSE4.2 the scan runs in strides of 8 bytes.\<close>

function eol_strides :: "byte list \<Rightarrow> bool \<times> byte list \<times> byte list" where
  "eol_strides buf =
     (if 8 \<le> length buf then
        (let n = length (takeWhile is_printable_ascii (take 8 buf))
         in if n = 8 then
              (case eol_strides (drop 8 buf) of (ctl, skipped, rest) \<Rightarrow> (ctl, take 8 buf @ skipped, rest))
            else if is_ctl (buf ! n) then (True, take n buf, drop n buf)
            else
              (case eol_strides (drop (n + 1) buf) of
                 (ctl, skipped, rest) \<Rightarrow> (ctl, take (n + 1) buf @ skipped, rest)))
      else (False, [], buf))"
  by pat_completeness auto
termination by (relation "measure length") auto

declare eol_strides.simps [simp del]

fun eol_loop :: "byte list \<Rightarrow> byte list parsed" where
  "eol_loop [] = Inl Partial"
| "eol_loop (c # cs) =
     (if \<not> is_printable_ascii c \<and> is_ctl c then Inr ([], c # cs) else extend_token [c] (eol_loop cs))"

definition found_ctl :: "byte list \<Rightarrow> byte list \<Rightarrow> byte list parsed" where
  "found_ctl tok buf =
     (case buf of
        [] \<Rightarrow> Inl Partial
      | c # cs \<Rightarrow>
          if c = 13 then pbind (expect_char 10 cs) (\<lambda>(_, rest). Inr (tok, rest))
          else if c = 10 then Inr (tok, cs)
          else Inl Malformed)"

definition get_token_to_eol :: "bool \<Rightarrow> byte list \<Rightarrow> byte list parsed" where
  "get_token_to_eol sse buf =
     (case (if sse then findchar_fast sse [(0, 8), (10, 31), (127, 127)] buf else eol_strides buf) of
        (found, skipped, rest) \<Rightarrow>
          if found then found_ctl skipped rest
          else pbind (extend_token skipped (eol_loop rest)) (\<lambda>(tok, buf'). found_ctl tok buf'))"

text \<open>\<open>parse_token\<close>: token characters up to \<open>next_char\<close>.\<close>

fun token_loop :: "byte \<Rightarrow> byte list \<Rightarrow> byte list parsed" where
  "token_loop next_char [] = Inl Partial"
| "token_loop next_char (c # cs) =
     (if c = next_char then Inr ([], c # cs)
      else if \<not> is_token_char c then Inl Malformed
      else extend_token [c] (token_loop next_char cs))"

definition token_ranges :: "(byte \<times> byte) list" where
  "token_ranges =
     [(0, 32), (34, 34), (40, 41), (44, 44), (47, 47), (58, 64), (91, 93), (123, 255)]"

definition parse_token :: "bool \<Rightarrow> byte \<Rightarrow> byte list \<Rightarrow> byte list parsed" where
  "parse_token sse next_char buf =
     (case findchar_fast sse token_ranges buf of
        (found, skipped, rest) \<Rightarrow>
          if \<not> found \<and> rest = [] then Inl Partial
          else extend_token skipped (token_loop next_char rest))"


subsection \<open>The request\<close>

text \<open>\<open>is_complete\<close>: two line ends in a row at or after the last 3 bytes of the previous call.\<close>

function complete_loop :: "nat \<Rightarrow> byte list \<Rightarrow> unit parsed" where
  "complete_loop ret_cnt [] = Inl Partial"
| "complete_loop ret_cnt (c # cs) =
     (if c = 13 then
        (case cs of
           [] \<Rightarrow> Inl Partial
         | x # xs \<Rightarrow>
             if x \<noteq> 10 then Inl Malformed
             else if ret_cnt + 1 = 2 then Inr ((), xs) else complete_loop (ret_cnt + 1) xs)
      else if c = 10 then
        (if ret_cnt + 1 = 2 then Inr ((), cs) else complete_loop (ret_cnt + 1) cs)
      else complete_loop 0 cs)"
  by pat_completeness auto
termination by (relation "measure (\<lambda>(_, cs). length cs)") auto

definition is_complete :: "byte list \<Rightarrow> nat \<Rightarrow> unit parsed" where
  "is_complete buf last_len = complete_loop 0 (if last_len < 3 then buf else drop (last_len - 3) buf)"

definition expect_no_check :: "byte \<Rightarrow> byte list \<Rightarrow> unit parsed" where
  "expect_no_check c buf = (if hd buf \<noteq> c then Inl Malformed else Inr ((), tl buf))"

fun expect_chars :: "byte list \<Rightarrow> byte list \<Rightarrow> unit parsed" where
  "expect_chars [] buf = Inr ((), buf)"
| "expect_chars (c # cs) buf = pbind (expect_no_check c buf) (\<lambda>(_, rest). expect_chars cs rest)"

definition parse_int :: "int \<Rightarrow> byte list \<Rightarrow> int parsed" where
  "parse_int mul buf =
     (if hd buf < 48 \<or> 57 < hd buf then Inl Malformed
      else Inr (mul * (int (unat (hd buf)) - 48), tl buf))"

definition parse_http_version :: "byte list \<Rightarrow> int parsed" where
  "parse_http_version buf =
     (if length buf < 9 then Inl Partial
      else pbind (expect_chars [72, 84, 84, 80, 47, 49, 46] buf) (\<lambda>(_, rest). parse_int 1 rest))"

text \<open>A header; the name of a continuation line is \<open>NULL\<close>.\<close>

record phr_header =
  ph_name :: "byte list option"
  ph_value :: "byte list"

fun skip_blanks :: "byte list \<Rightarrow> unit parsed" where
  "skip_blanks [] = Inl Partial"
| "skip_blanks (c # cs) = (if is_blank c then skip_blanks cs else Inr ((), c # cs))"

text \<open>\<open>++buf\<close> behind a token, where the list is not empty.\<close>

definition skip_one :: "byte list \<Rightarrow> unit parsed" where
  "skip_one buf = (case buf of [] \<Rightarrow> Inl Partial | c # cs \<Rightarrow> Inr ((), cs))"

definition header_name :: "bool \<Rightarrow> nat \<Rightarrow> byte list \<Rightarrow> byte list option parsed" where
  "header_name sse num_headers buf =
     (if \<not> (num_headers \<noteq> 0 \<and> (case buf of [] \<Rightarrow> False | c # _ \<Rightarrow> is_blank c)) then
        pbind (parse_token sse 58 buf) (\<lambda>(name, rest).
          if name = [] then Inl Malformed
          else pbind (skip_one rest) (\<lambda>(_, rest1).
               pbind (skip_blanks rest1) (\<lambda>(_, rest2). Inr (Some name, rest2))))
      else Inr (None, buf))"

definition trim_end :: "byte list \<Rightarrow> byte list" where
  "trim_end v = rev (dropWhile is_blank (rev v))"

definition header_line :: "bool \<Rightarrow> nat \<Rightarrow> byte list \<Rightarrow> phr_header parsed" where
  "header_line sse num_headers buf =
     pbind (header_name sse num_headers buf) (\<lambda>(name, rest).
     pbind (get_token_to_eol sse rest) (\<lambda>(v, rest').
       Inr (\<lparr>ph_name = name, ph_value = trim_end v\<rparr>, rest')))"

text \<open>The line end behind the version, and the empty line before the request.\<close>

definition end_of_line :: "byte list \<Rightarrow> unit parsed" where
  "end_of_line buf =
     (case buf of
        [] \<Rightarrow> Inl Partial
      | c # cs \<Rightarrow> if c = 13 then expect_char 10 cs else if c = 10 then Inr ((), cs) else Inl Malformed)"

definition skip_empty_line :: "byte list \<Rightarrow> unit parsed" where
  "skip_empty_line buf =
     (case buf of
        [] \<Rightarrow> Inl Partial
      | c # cs \<Rightarrow> if c = 13 then expect_char 10 cs else if c = 10 then Inr ((), cs) else Inr ((), buf))"

definition request_line :: "bool \<Rightarrow> byte list \<Rightarrow> (byte list \<times> byte list \<times> int) parsed" where
  "request_line sse buf =
     pbind (skip_empty_line buf) (\<lambda>(_, b1).
     pbind (parse_token sse 32 b1) (\<lambda>(meth, b2).
     pbind (skip_one b2) (\<lambda>(_, b3).
     pbind (skip_spaces b3) (\<lambda>(_, b4).
     pbind (advance_token sse b4) (\<lambda>(path, b5).
     pbind (skip_one b5) (\<lambda>(_, b6).
     pbind (skip_spaces b6) (\<lambda>(_, b7).
     if meth = [] \<or> path = [] then Inl Malformed
     else pbind (parse_http_version b7) (\<lambda>(minor_version, b8).
          pbind (end_of_line b8) (\<lambda>(_, b9). Inr ((meth, path, minor_version), b9))))))))))"


subsection \<open>The optimised scans are the plain loops\<close>

lemma extend_token_simps [simp]:
  "extend_token pre (Inl e) = Inl e"
  "extend_token pre (Inr (tok, rest)) = Inr (pre @ tok, rest)"
  "extend_token [] r = r"
  by (simp_all add: extend_token_def pbind_def split: sum.splits)

lemma extend_token_append: "extend_token p (extend_token q r) = extend_token (p @ q) r"
  by (cases r) auto

lemma unat_byte: "unat (c :: byte) < 256"
  by (rule order.strict_trans2 [OF unsigned_less]) simp

lemma not_printable_range: "\<not> is_printable_ascii c \<longleftrightarrow> c < 32 \<or> 127 \<le> c"
  using unat_byte [of c]
  by (auto simp: is_printable_ascii_def word_less_nat_alt word_le_nat_alt unat_sub_if'
        unsigned_ucast_eq take_bit_eq_mod)

lemma is_ctl_not_printable: "is_ctl c \<Longrightarrow> \<not> is_printable_ascii c"
  by (auto simp: is_ctl_def not_printable_range)

definition token_ranges_nat :: "(nat \<times> nat) list" where
  "token_ranges_nat =
     [(0, 32), (34, 34), (40, 41), (44, 44), (47, 47), (58, 64), (91, 93), (123, 255)]"

lemma in_token_ranges:
  "in_ranges token_ranges c = list_ex (\<lambda>(lo, hi). lo \<le> unat c \<and> unat c \<le> hi) token_ranges_nat"
  by (simp add: in_ranges_def token_ranges_def token_ranges_nat_def word_le_nat_alt)

lemma token_map_outside:
  "list_all (\<lambda>n. token_char_map ! n \<noteq> 0 \<or> list_ex (\<lambda>(lo, hi). lo \<le> n \<and> n \<le> hi) token_ranges_nat)
     [0..<123]"
  unfolding token_char_map_def token_ranges_nat_def by (simp add: upt_rec nth_append)

lemma token_outside_ranges:
  assumes "\<not> in_ranges token_ranges c"
  shows "is_token_char c"
proof -
  have "unat c < 123"
    using assms unat_byte [of c] by (auto simp: in_token_ranges token_ranges_nat_def)
  then have "unat c \<in> set [0..<123]" by simp
  with token_map_outside have "token_char_map ! unat c \<noteq> 0 \<or> in_ranges token_ranges c"
    unfolding list_all_iff in_token_ranges by (rule bspec)
  with assms show ?thesis by (simp add: is_token_char_def)
qed

lemma findchar_blocks_parts:
  "findchar_blocks ranges left buf = (found, skipped, rest) \<Longrightarrow> 16 * left \<le> length buf \<Longrightarrow>
     buf = skipped @ rest \<and> list_all (\<lambda>c. \<not> in_ranges ranges c) skipped \<and>
     (found \<longrightarrow> rest \<noteq> [] \<and> in_ranges ranges (hd rest))"
proof (induction left arbitrary: buf found skipped rest)
  case 0
  then show ?case by simp
next
  case (Suc left)
  let ?P = "\<lambda>c. \<not> in_ranges ranges c"
  let ?t = "takeWhile ?P (take 16 buf)"
  have len: "length (take 16 buf) = 16" using Suc.prems(2) by simp
  have pre: "take (length ?t) buf = ?t"
  proof -
    have "take (length ?t) (take 16 buf) = ?t" by (metis takeWhile_eq_take)
    moreover have "length ?t \<le> 16" using len by (metis length_takeWhile_le)
    ultimately show ?thesis by (simp add: min_absorb1)
  qed
  show ?case
  proof (cases "length ?t = 16")
    case False
    with len have lt: "length ?t < length (take 16 buf)"
      using length_takeWhile_le [of ?P "take 16 buf"] by linarith
    from nth_length_takeWhile [OF lt] have "in_ranges ranges (buf ! length ?t)"
      using lt len by simp
    moreover have "length ?t < length buf" using lt by simp
    ultimately show ?thesis
      using Suc.prems(1) False pre
      by (auto simp: Let_def list_all_iff hd_drop_conv_nth dest: set_takeWhileD)
         (metis append_take_drop_id pre)
  next
    case True
    obtain f s r where IH: "findchar_blocks ranges left (drop 16 buf) = (f, s, r)"
      by (cases "findchar_blocks ranges left (drop 16 buf)") auto
    have all: "list_all ?P (take 16 buf)"
      using True len by (metis list_all_iff set_takeWhileD takeWhile_eq_take take_all order_refl)
    from Suc.IH [OF IH] Suc.prems(2)
    have "drop 16 buf = s @ r \<and> list_all ?P s \<and> (f \<longrightarrow> r \<noteq> [] \<and> in_ranges ranges (hd r))" by simp
    moreover from this have "buf = take 16 buf @ s @ r" by (metis append_take_drop_id)
    ultimately show ?thesis using Suc.prems(1) True IH all by (auto simp: Let_def)
  qed
qed

lemma findchar_fast_parts:
  assumes "findchar_fast sse ranges buf = (found, skipped, rest)"
  shows "buf = skipped @ rest" and "list_all (\<lambda>c. \<not> in_ranges ranges c) skipped"
    and "found \<Longrightarrow> rest \<noteq> [] \<and> in_ranges ranges (hd rest)"
  using assms findchar_blocks_parts [of ranges "length buf div 16" buf found skipped rest]
  by (auto simp: findchar_fast_def split: if_splits)

lemma advance_loop_append:
  "list_all (\<lambda>c. \<not> in_ranges [(0, 32), (127, 127)] c) pre \<Longrightarrow>
     advance_loop (pre @ buf) = extend_token pre (advance_loop buf)"
proof (induction pre)
  case (Cons c pre)
  then have "c \<noteq> 32" "\<not> c < 32" "c \<noteq> 127"
    by (auto simp: in_ranges_def word_le_nat_alt word_less_nat_alt)
  with Cons show ?case by (simp add: extend_token_append)
qed simp

lemma advance_token_eq: "advance_token sse buf = advance_loop buf"
proof -
  obtain found skipped rest where f: "findchar_fast sse [(0, 32), (127, 127)] buf = (found, skipped, rest)"
    by (cases "findchar_fast sse [(0, 32), (127, 127)] buf") auto
  note parts = findchar_fast_parts [OF f]
  from parts(1,2) have "advance_loop buf = extend_token skipped (advance_loop rest)"
    by (simp add: advance_loop_append)
  with f show ?thesis by (auto simp: advance_token_def)
qed

lemma token_loop_append:
  "list_all (\<lambda>c. is_token_char c \<and> c \<noteq> next_char) pre \<Longrightarrow>
     token_loop next_char (pre @ buf) = extend_token pre (token_loop next_char buf)"
  by (induction pre) (auto simp: extend_token_append)

lemma parse_token_eq:
  assumes "in_ranges token_ranges next_char"
  shows "parse_token sse next_char buf = token_loop next_char buf"
proof -
  obtain found skipped rest where f: "findchar_fast sse token_ranges buf = (found, skipped, rest)"
    by (cases "findchar_fast sse token_ranges buf") auto
  note parts = findchar_fast_parts [OF f]
  from parts(2) assms have "list_all (\<lambda>c. is_token_char c \<and> c \<noteq> next_char) skipped"
    by (auto simp: list_all_iff token_outside_ranges)
  with parts(1) have "token_loop next_char buf = extend_token skipped (token_loop next_char rest)"
    by (simp add: token_loop_append)
  with f show ?thesis by (auto simp: parse_token_def)
qed

lemma separators_in_ranges [simp]:
  "in_ranges token_ranges 32" "in_ranges token_ranges 58"
  by (simp_all add: in_token_ranges token_ranges_nat_def)

text \<open>What a line scan passes over holds no control, and it stops at one when it says so.\<close>

lemma eol_strides_parts:
  "eol_strides buf = (ctl, skipped, rest) \<Longrightarrow>
     buf = skipped @ rest \<and> list_all (\<lambda>c. \<not> is_ctl c) skipped \<and>
     (ctl \<longrightarrow> rest \<noteq> [] \<and> is_ctl (hd rest))"
proof (induction buf arbitrary: ctl skipped rest rule: eol_strides.induct)
  case (1 buf)
  let ?t = "takeWhile is_printable_ascii (take 8 buf)"
  let ?n = "length ?t"
  show ?case
  proof (cases "8 \<le> length buf")
    case False
    with "1.prems" show ?thesis by (simp add: eol_strides.simps [of buf])
  next
    case len: True
    have n8: "?n \<le> 8" using len by (metis length_take length_takeWhile_le min_absorb2)
    have pre: "take ?n buf = ?t"
      using n8 by (metis min_absorb1 take_take takeWhile_eq_take)
    have ok: "list_all (\<lambda>c. \<not> is_ctl c) (take ?n buf)"
      unfolding pre by (auto simp: list_all_iff dest: set_takeWhileD is_ctl_not_printable)
    show ?thesis
    proof (cases "?n = 8")
      case True
      obtain b s r where rec: "eol_strides (drop 8 buf) = (b, s, r)"
        by (cases "eol_strides (drop 8 buf)") auto
      from "1.IH"(1) [OF len refl True rec]
      have IH: "drop 8 buf = s @ r \<and> list_all (\<lambda>c. \<not> is_ctl c) s \<and> (b \<longrightarrow> r \<noteq> [] \<and> is_ctl (hd r))" .
      moreover from this have "buf = take 8 buf @ s @ r" by (metis append_take_drop_id)
      ultimately show ?thesis
        using "1.prems" len True rec ok by (auto simp: eol_strides.simps [of buf] Let_def)
    next
      case n: False
      show ?thesis
      proof (cases "is_ctl (buf ! ?n)")
        case True
        with "1.prems" len n n8 ok show ?thesis
          by (auto simp: eol_strides.simps [of buf] Let_def hd_drop_conv_nth)
      next
        case False
        obtain b s r where rec: "eol_strides (drop (?n + 1) buf) = (b, s, r)"
          by (cases "eol_strides (drop (?n + 1) buf)") auto
        from "1.IH"(2) [OF len refl n False rec]
        have IH: "drop (?n + 1) buf = s @ r \<and> list_all (\<lambda>c. \<not> is_ctl c) s \<and>
            (b \<longrightarrow> r \<noteq> [] \<and> is_ctl (hd r))" .
        moreover from this have "buf = take (?n + 1) buf @ s @ r" by (metis append_take_drop_id)
        moreover have "list_all (\<lambda>c. \<not> is_ctl c) (take (?n + 1) buf)"
          using ok False n8 n len by (simp add: take_Suc_conv_app_nth)
        ultimately show ?thesis
          using "1.prems" len n False rec by (auto simp: eol_strides.simps [of buf] Let_def)
      qed
    qed
  qed
qed

lemma eol_loop_append:
  "list_all (\<lambda>c. \<not> is_ctl c) pre \<Longrightarrow> eol_loop (pre @ buf) = extend_token pre (eol_loop buf)"
  by (induction pre) (auto simp: extend_token_append)

lemma eol_loop_ctl: "buf \<noteq> [] \<Longrightarrow> is_ctl (hd buf) \<Longrightarrow> eol_loop buf = Inr ([], buf)"
  by (cases buf) (auto simp: is_ctl_not_printable)

lemma in_ctl_ranges: "in_ranges [(0, 8), (10, 31), (127, 127)] c = is_ctl c"
proof -
  have "c = 9 \<longleftrightarrow> unat c = 9" "c = 127 \<longleftrightarrow> unat c = 127" 
    using word_unat_eq_iff [of c 9] word_unat_eq_iff [of c 127] by simp_all
  then show ?thesis by (auto simp: in_ranges_def is_ctl_def word_le_nat_alt word_less_nat_alt)
qed

lemma get_token_to_eol_eq:
  "get_token_to_eol sse buf = pbind (eol_loop buf) (\<lambda>(tok, rest). found_ctl tok rest)"
proof -
  let ?scan = "if sse then findchar_fast sse [(0, 8), (10, 31), (127, 127)] buf else eol_strides buf"
  obtain found skipped rest where f: "?scan = (found, skipped, rest)" by (cases ?scan) auto
  have parts: "buf = skipped @ rest \<and> list_all (\<lambda>c. \<not> is_ctl c) skipped \<and>
      (found \<longrightarrow> rest \<noteq> [] \<and> is_ctl (hd rest))"
  proof (cases sse)
    case True
    with f findchar_fast_parts [of sse "[(0, 8), (10, 31), (127, 127)]" buf found skipped rest]
    show ?thesis by (simp add: in_ctl_ranges)
  next
    case False
    with f eol_strides_parts [of buf found skipped rest] show ?thesis by simp
  qed
  then have "eol_loop buf = extend_token skipped (eol_loop rest)" by (simp add: eol_loop_append)
  with f parts show ?thesis
    by (simp add: get_token_to_eol_def eol_loop_ctl split: if_split_asm)
qed

subsection \<open>Parsing as input arrives\<close>

text \<open>
  A parser reads from the front of its input. More input changes neither a result nor a
  definite error; only an error that \<open>waits\<close> for input may change. All of the
  scanners are such parsers, and so is their composition.
\<close>

locale incremental_parser =
  fixes waits :: "'e \<Rightarrow> bool"
    and parse :: "byte list \<Rightarrow> 'e + 'a \<times> byte list"
  assumes parse_suffix: "parse xs = Inr (a, rest) \<Longrightarrow> \<exists>c. xs = c @ rest"
    and parse_extend: "parse xs = Inr (a, rest) \<Longrightarrow> parse (xs @ ys) = Inr (a, rest @ ys)"
    and parse_reject: "parse xs = Inl e \<Longrightarrow> \<not> waits e \<Longrightarrow> parse (xs @ ys) = Inl e"
begin

lemma parse_length: "parse xs = Inr (a, rest) \<Longrightarrow> length rest \<le> length xs"
  using parse_suffix by fastforce

text \<open>On a proper prefix of what it reads, the parser waits.\<close>

lemma proper_prefix_waits:
  assumes "parse (c1 @ c2 @ rest) = Inr (a, rest)" and "c2 \<noteq> []"
  shows "\<exists>e. parse c1 = Inl e \<and> waits e"
proof (cases "parse c1")
  case (Inl e)
  with parse_reject [of c1 e "c2 @ rest"] assms(1) show ?thesis by auto
next
  case (Inr r)
  then obtain b r1 where "parse c1 = Inr (b, r1)" by (cases r) auto
  from parse_extend [OF this, of "c2 @ rest"] assms show ?thesis by auto
qed

end

definition waits_partial :: "phr_error \<Rightarrow> bool" where
  "waits_partial e = (e = Partial)"

lemma waits_partial_simps [simp]: "waits_partial Partial" "\<not> waits_partial Malformed"
  by (simp_all add: waits_partial_def)

abbreviation incremental :: "(byte list \<Rightarrow> 'a parsed) \<Rightarrow> bool" where
  "incremental \<equiv> incremental_parser waits_partial"

lemma incremental_Inr: "incremental (\<lambda>buf. Inr (a, buf))"
  by unfold_locales auto

lemma incremental_Inl: "incremental (\<lambda>buf. Inl e)"
  by unfold_locales auto

lemma incremental_pbind:
  assumes p: "incremental p" and q: "\<And>a. incremental (q a)"
  shows "incremental (\<lambda>buf. pbind (p buf) (\<lambda>(a, rest). q a rest))"
proof
  fix xs b rest
  assume "pbind (p xs) (\<lambda>(a, rest). q a rest) = Inr (b, rest)"
  then obtain a r where r: "p xs = Inr (a, r)" "q a r = Inr (b, rest)"
    by (auto simp: pbind_Inr_iff)
  show "\<exists>c. xs = c @ rest"
    using incremental_parser.parse_suffix [OF p r(1)] incremental_parser.parse_suffix [OF q r(2)]
    by (metis append.assoc)
  show "pbind (p (xs @ ys)) (\<lambda>(a, rest). q a rest) = Inr (b, rest @ ys)" for ys
    using incremental_parser.parse_extend [OF p r(1)] incremental_parser.parse_extend [OF q r(2)]
    by simp
next
  fix xs e ys
  assume "pbind (p xs) (\<lambda>(a, rest). q a rest) = Inl e" "\<not> waits_partial e"
  then show "pbind (p (xs @ ys)) (\<lambda>(a, rest). q a rest) = Inl e"
    using incremental_parser.parse_reject [OF p] incremental_parser.parse_extend [OF p]
      incremental_parser.parse_reject [OF q]
    by (fastforce simp: pbind_Inl_iff)
qed

lemma incremental_if: "incremental p \<Longrightarrow> incremental q \<Longrightarrow> incremental (\<lambda>xs. if b then p xs else q xs)"
  by (cases b) simp_all

text \<open>A parser that looks at the first byte.\<close>

lemma incremental_head:
  assumes q: "\<And>c. incremental (q c)" and n: "p [] = Inl Partial" and Cons: "\<And>c cs. p (c # cs) = q c cs"
  shows "incremental p"
proof
  fix xs b rest
  assume r: "p xs = Inr (b, rest)"
  then obtain c cs where xs: "xs = c # cs" "q c cs = Inr (b, rest)" by (cases xs) (simp_all add: n Cons)
  show "\<exists>c. xs = c @ rest"
    using incremental_parser.parse_suffix [OF q xs(2)] xs(1) by (metis append_Cons)
  show "p (xs @ ys) = Inr (b, rest @ ys)" for ys
    using incremental_parser.parse_extend [OF q xs(2)] xs(1) by (simp add: Cons)
next
  fix xs e ys
  assume "p xs = Inl e" "\<not> waits_partial e"
  then show "p (xs @ ys) = Inl e"
    using incremental_parser.parse_reject [OF q]
    by (cases xs) (auto simp: n Cons)
qed

text \<open>The two kinds of loops: up to a byte that stops, and over bytes to skip.\<close>

lemma incremental_scan:
  assumes "p [] = Inl Partial"
    and "\<And>c cs. p (c # cs) =
      (if stop c then Inr ([], c # cs) else if bad c then Inl Malformed else extend_token [c] (p cs))"
  shows "incremental p"
proof
  show "\<exists>c. xs = c @ rest" if "p xs = Inr (a, rest)" for xs a rest
    using that by (induction xs arbitrary: a) (auto simp: assms extend_token_def pbind_Inr_iff split: if_splits)
  show "p (xs @ ys) = Inr (a, rest @ ys)" if "p xs = Inr (a, rest)" for xs a rest ys
    using that by (induction xs arbitrary: a) (auto simp: assms extend_token_def pbind_Inr_iff split: if_splits)
  show "p (xs @ ys) = Inl e" if "p xs = Inl e" "\<not> waits_partial e" for xs e ys
    using that by (induction xs) (auto simp: assms extend_token_def pbind_Inl_iff split: if_splits)
qed

lemma incremental_skip:
  assumes "p [] = Inl Partial" and "\<And>c cs. p (c # cs) = (if skip c then p cs else Inr ((), c # cs))"
  shows "incremental p"
proof
  show "\<exists>c. xs = c @ rest" if "p xs = Inr (a, rest)" for xs a rest
    using that by (induction xs) (auto simp: assms split: if_splits)
  show "p (xs @ ys) = Inr (a, rest @ ys)" if "p xs = Inr (a, rest)" for xs a rest ys
    using that by (induction xs) (auto simp: assms split: if_splits)
  show "p (xs @ ys) = Inl e" if "p xs = Inl e" "\<not> waits_partial e" for xs e ys
    using that by (induction xs) (auto simp: assms split: if_splits)
qed

lemma advance_loop_scan: "incremental advance_loop"
  by (rule incremental_scan [where stop = "\<lambda>c. c = 32"
        and bad = "\<lambda>c. \<not> is_printable_ascii c \<and> (c < 32 \<or> c = 127)"]) simp_all

lemma token_loop_scan: "incremental (token_loop next_char)"
  by (rule incremental_scan [where stop = "\<lambda>c. c = next_char" and bad = "\<lambda>c. \<not> is_token_char c"]) simp_all

lemma eol_loop_scan: "incremental eol_loop"
  by (rule incremental_scan [where stop = "\<lambda>c. \<not> is_printable_ascii c \<and> is_ctl c" and bad = "\<lambda>_. False"])
     simp_all

lemma skip_spaces_incremental: "incremental skip_spaces"
  by (rule incremental_skip [where skip = "\<lambda>c. c = 32"]) simp_all

lemma skip_blanks_incremental: "incremental skip_blanks"
  by (rule incremental_skip [where skip = is_blank]) simp_all

lemma skip_one_incremental: "incremental skip_one"
  by (rule incremental_head [where q = "\<lambda>c cs. Inr ((), cs)"]) (simp_all add: skip_one_def incremental_Inr)

lemma expect_char_incremental: "incremental (expect_char c)"
  by (rule incremental_head [where q = "\<lambda>x cs. if x \<noteq> c then Inl Malformed else Inr ((), cs)"])
     (auto simp: expect_char_def intro!: incremental_if incremental_Inl incremental_Inr)

lemma end_of_line_incremental: "incremental end_of_line"
  by (rule incremental_head [where q = "\<lambda>c cs. if c = 13 then expect_char 10 cs
        else if c = 10 then Inr ((), cs) else Inl Malformed"])
     (auto simp: end_of_line_def
        intro!: incremental_if incremental_Inl incremental_Inr expect_char_incremental)

lemma found_ctl_eq: "found_ctl tok buf = pbind (end_of_line buf) (\<lambda>(_, rest). Inr (tok, rest))"
  by (auto simp: found_ctl_def end_of_line_def split: list.splits)

lemma found_ctl_incremental: "incremental (found_ctl tok)"
  unfolding found_ctl_eq
  by (rule incremental_pbind [OF end_of_line_incremental, where q = "\<lambda>_ rest. Inr (tok, rest)"])
     (rule incremental_Inr)

lemma end_of_line_length: "end_of_line buf = Inr (a, rest) \<Longrightarrow> length rest < length buf"
  by (auto simp: end_of_line_def expect_char_def split: list.splits if_splits)

interpretation eol: incremental_parser waits_partial "get_token_to_eol sse" for sse
proof -
  have "get_token_to_eol sse = (\<lambda>buf. pbind (eol_loop buf) (\<lambda>(tok, rest). found_ctl tok rest))"
    by (rule ext) (rule get_token_to_eol_eq)
  then show "incremental (get_token_to_eol sse)"
    by (simp only: incremental_pbind [OF eol_loop_scan found_ctl_incremental])
qed

interpretation token: incremental_parser waits_partial "\<lambda>buf. parse_token sse 58 buf" for sse
  unfolding parse_token_eq [OF separators_in_ranges(2)] by (rule token_loop_scan)

lemma get_token_to_eol_length:
  "get_token_to_eol sse buf = Inr (v, rest) \<Longrightarrow> length rest < length buf"
  using incremental_parser.parse_length [OF eol_loop_scan]
  by (fastforce simp: get_token_to_eol_eq found_ctl_eq pbind_Inr_iff dest: end_of_line_length)

lemma parse_token_incremental:
  assumes "in_ranges token_ranges next_char"
  shows "incremental (parse_token sse next_char)"
proof -
  have "parse_token sse next_char = token_loop next_char"
    by (rule ext) (rule parse_token_eq [OF assms])
  then show ?thesis by (simp only: token_loop_scan)
qed

lemma advance_token_incremental: "incremental (advance_token sse)"
proof -
  have "advance_token sse = advance_loop" by (rule ext) (rule advance_token_eq)
  then show ?thesis by (simp only: advance_loop_scan)
qed

text \<open>A choice by the first byte, which it does not consume.\<close>

lemma incremental_peek:
  assumes p: "incremental p" and q: "incremental q" and Nil: "q [] = Inl Partial"
  shows "incremental (\<lambda>buf. if (case buf of [] \<Rightarrow> False | c # _ \<Rightarrow> test c) then p buf else q buf)"
    (is "incremental ?f")
proof
  have Cons: "?f (c # cs @ ys) = (if test c then p (c # cs @ ys) else q (c # cs @ ys))" for c cs ys
    by simp
  show "\<exists>c. xs = c @ rest" if "?f xs = Inr (a, rest)" for xs a rest
    using that incremental_parser.parse_suffix [OF p] incremental_parser.parse_suffix [OF q]
    by (auto split: if_splits)
  show "?f (xs @ ys) = Inr (a, rest @ ys)" if "?f xs = Inr (a, rest)" for xs a rest ys
    using that incremental_parser.parse_extend [OF p, of xs a rest ys]
      incremental_parser.parse_extend [OF q, of xs a rest ys] Nil
    by (cases xs) (auto split: if_splits)
  show "?f (xs @ ys) = Inl e" if "?f xs = Inl e" "\<not> waits_partial e" for xs e ys
    using that incremental_parser.parse_reject [OF p, of xs e ys]
      incremental_parser.parse_reject [OF q, of xs e ys] Nil
    by (cases xs) (auto split: if_splits)
qed

lemma skip_empty_line_incremental: "incremental skip_empty_line"
proof -
  have eq: "skip_empty_line = (\<lambda>buf. if (case buf of [] \<Rightarrow> False | c # _ \<Rightarrow> c = 13 \<or> c = 10)
      then end_of_line buf
      else (if (case buf of [] \<Rightarrow> False | c # _ \<Rightarrow> True) then Inr ((), buf) else Inl Partial))"
    by (rule ext) (auto simp: skip_empty_line_def end_of_line_def split: list.splits)
  show ?thesis
    unfolding eq by (intro incremental_peek end_of_line_incremental incremental_Inr incremental_Inl) simp_all
qed

lemma header_name_incremental: "incremental (header_name sse n)"
proof -
  let ?named = "\<lambda>buf. pbind (parse_token sse 58 buf) (\<lambda>(name, rest).
      if name = [] then Inl Malformed
      else pbind (skip_one rest) (\<lambda>(_, rest1).
           pbind (skip_blanks rest1) (\<lambda>(_, rest2). Inr (Some name, rest2))))"
  have named: "incremental ?named"
    by (intro incremental_pbind incremental_if parse_token_incremental separators_in_ranges
          incremental_Inl skip_one_incremental skip_blanks_incremental incremental_Inr)
  have eq: "header_name sse n = (\<lambda>buf.
      if (case buf of [] \<Rightarrow> False | c # _ \<Rightarrow> n \<noteq> 0 \<and> is_blank c) then Inr (None, buf) else ?named buf)"
    by (rule ext) (auto simp: header_name_def split: list.splits)
  show ?thesis
    unfolding eq by (intro incremental_peek named incremental_Inr) (simp add: parse_token_eq)
qed

interpretation header: incremental_parser waits_partial "header_line sse n" for sse n
proof -
  have eq: "header_line sse n = (\<lambda>buf. pbind (header_name sse n buf) (\<lambda>(name, rest).
     pbind (get_token_to_eol sse rest) (\<lambda>(v, rest').
       Inr (\<lparr>ph_name = name, ph_value = trim_end v\<rparr>, rest'))))"
    by (rule ext) (rule header_line_def)
  show "incremental (header_line sse n)"
    unfolding eq by (intro incremental_pbind header_name_incremental incremental_Inr eol.incremental_parser_axioms)
qed

lemma header_line_length:
  "header_line sse n buf = Inr (h, rest) \<Longrightarrow> length rest < length buf"
  using incremental_parser.parse_length [OF header_name_incremental]
  by (fastforce simp: header_line_def pbind_Inr_iff dest: get_token_to_eol_length)

lemma expect_chars_prefix:
  "length cs \<le> length buf \<Longrightarrow> expect_chars cs buf =
     (if take (length cs) buf = cs then Inr ((), drop (length cs) buf) else Inl Malformed)"
proof (induction cs arbitrary: buf)
  case (Cons c cs)
  then show ?case by (cases buf) (auto simp: expect_no_check_def)
qed simp

lemma parse_int_append:
  "buf \<noteq> [] \<Longrightarrow> parse_int mul (buf @ ys) = pbind (parse_int mul buf) (\<lambda>(v, r). Inr (v, r @ ys))"
  by (simp add: parse_int_def)

lemma parse_http_version_append:
  "9 \<le> length buf \<Longrightarrow> parse_http_version (buf @ ys) =
     pbind (parse_http_version buf) (\<lambda>(v, r). Inr (v, r @ ys))"
  by (simp add: parse_http_version_def expect_chars_prefix parse_int_append
      del: expect_chars.simps)

lemma parse_http_version_incremental: "incremental parse_http_version"
proof
  show "\<exists>c. xs = c @ rest" if "parse_http_version xs = Inr (a, rest)" for xs a rest
  proof -
    from that obtain k where "rest = tl (drop k xs)"
      by (auto simp: parse_http_version_def expect_chars_prefix parse_int_def
          simp del: expect_chars.simps split: if_splits)
    then have "rest = drop (Suc k) xs" by (simp add: drop_Suc tl_drop)
    then show ?thesis by (metis append_take_drop_id)
  qed
  show "parse_http_version (xs @ ys) = Inr (a, rest @ ys)"
    if r: "parse_http_version xs = Inr (a, rest)" for xs a rest ys
  proof -
    from r have "9 \<le> length xs" by (auto simp: parse_http_version_def split: if_splits)
    with r show ?thesis by (simp add: parse_http_version_append)
  qed
  show "parse_http_version (xs @ ys) = Inl e"
    if r: "parse_http_version xs = Inl e" "\<not> waits_partial e" for xs e ys
  proof -
    from r have "9 \<le> length xs" by (auto simp: parse_http_version_def split: if_splits)
    with r(1) show ?thesis by (simp add: parse_http_version_append)
  qed
qed

interpretation line: incremental_parser waits_partial "request_line sse" for sse
proof -
  have eq: "request_line sse = (\<lambda>buf. pbind (skip_empty_line buf) (\<lambda>(_, b1).
     pbind (parse_token sse 32 b1) (\<lambda>(meth, b2).
     pbind (skip_one b2) (\<lambda>(_, b3).
     pbind (skip_spaces b3) (\<lambda>(_, b4).
     pbind (advance_token sse b4) (\<lambda>(path, b5).
     pbind (skip_one b5) (\<lambda>(_, b6).
     pbind (skip_spaces b6) (\<lambda>(_, b7).
     if meth = [] \<or> path = [] then Inl Malformed
     else pbind (parse_http_version b7) (\<lambda>(minor_version, b8).
          pbind (end_of_line b8) (\<lambda>(_, b9). Inr ((meth, path, minor_version), b9)))))))))))"
    by (rule ext) (rule request_line_def)
  show "incremental (request_line sse)"
    unfolding eq
    by (intro incremental_pbind incremental_if skip_empty_line_incremental parse_token_incremental
          separators_in_ranges skip_one_incremental skip_spaces_incremental advance_token_incremental
          parse_http_version_incremental end_of_line_incremental incremental_Inl incremental_Inr)
qed


subsection \<open>The headers and the whole request\<close>

text \<open>
  Errors of the whole call carry what \<open>*num_headers\<close> holds when it returns.
\<close>

function parse_headers ::
  "bool \<Rightarrow> nat \<Rightarrow> nat \<Rightarrow> byte list \<Rightarrow> (phr_error \<times> nat) + phr_header list \<times> byte list" where
  "parse_headers sse max_headers num_headers buf =
     (case buf of
        [] \<Rightarrow> Inl (Partial, num_headers)
      | c # cs \<Rightarrow>
          if c = 13 then
            (case expect_char 10 cs of
               Inl e \<Rightarrow> Inl (e, num_headers)
             | Inr (_, rest) \<Rightarrow> Inr ([], rest))
          else if c = 10 then Inr ([], cs)
          else if num_headers = max_headers then Inl (Malformed, num_headers)
          else
            (case header_line sse num_headers buf of
               Inl e \<Rightarrow> Inl (e, num_headers)
             | Inr (h, rest) \<Rightarrow>
                 pbind (parse_headers sse max_headers (num_headers + 1) rest) (\<lambda>(hs, rest').
                   Inr (h # hs, rest'))))"
  by pat_completeness auto
termination
  by (relation "measure (\<lambda>(_, _, _, buf). length buf)") (auto dest: header_line_length)

declare parse_headers.simps [simp del]

record phr_request =
  pr_method :: "byte list"
  pr_path :: "byte list"
  pr_minor_version :: int
  pr_headers :: "phr_header list"

definition parse_request ::
  "bool \<Rightarrow> nat \<Rightarrow> byte list \<Rightarrow> (phr_error \<times> nat) + phr_request \<times> byte list" where
  "parse_request sse max_headers buf =
     (case request_line sse buf of
        Inl e \<Rightarrow> Inl (e, 0)
      | Inr ((meth, path, minor_version), rest) \<Rightarrow>
          pbind (parse_headers sse max_headers 0 rest) (\<lambda>(headers, rest').
            Inr (\<lparr>pr_method = meth, pr_path = path, pr_minor_version = minor_version,
                  pr_headers = headers\<rparr>, rest')))"

text \<open>The cast of the count to \<open>int\<close>.\<close>

definition int_cast :: "nat \<Rightarrow> int" where
  "int_cast n = sint (word_of_nat n :: 32 word)"

definition phr_parse_request ::
  "bool \<Rightarrow> byte list \<Rightarrow> nat \<Rightarrow> nat \<Rightarrow> (phr_error \<times> nat) + phr_request \<times> int" where
  "phr_parse_request sse buf max_headers last_len =
     (case (if last_len \<noteq> 0 then is_complete buf last_len else Inr ((), buf)) of
        Inl e \<Rightarrow> Inl (e, 0)
      | Inr _ \<Rightarrow>
          pbind (parse_request sse max_headers buf) (\<lambda>(r, rest).
            Inr (r, int_cast (length buf - length rest))))"

end
