(* ===== verification/PhrChunked.thy ===== *)
theory PhrChunked
  imports Prelude
begin

section \<open>The chunked decoder (\<open>phr_decode_chunked\<close> in \<open>lib/picohttpparser\<close>)\<close>

text \<open>
  The decoder rewrites a buffer in place: \<open>src\<close> runs over the input, \<open>dst\<close> over the
  decoded data at its front. The code's \<open>switch\<close> falls through from one state to the
  next only after storing that next state, and the \<open>for\<close> loops of a case stay in their
  state, so one pass of \<open>chunk_step\<close> is one test of the current state: it goes on with a
  new state and new cursors, or leaves with \<open>goto Exit\<close> or \<open>goto Complete\<close>.
\<close>

datatype chunk_state =
    CHUNKED_IN_CHUNK_SIZE
  | CHUNKED_IN_CHUNK_EXT
  | CHUNKED_IN_CHUNK_HEADER_EXPECT_LF
  | CHUNKED_IN_CHUNK_DATA
  | CHUNKED_IN_CHUNK_DATA_EXPECT_CR
  | CHUNKED_IN_CHUNK_DATA_EXPECT_LF
  | CHUNKED_IN_TRAILERS_LINE_HEAD
  | CHUNKED_IN_TRAILERS_LINE_MIDDLE

record chunked_decoder =
  bytes_left_in_chunk :: nat
  consume_trailer :: bool
  hex_count :: nat
  ck_state :: chunk_state
  total_read :: nat
  total_overhead :: nat

definition decoder_zero :: chunked_decoder where
  "decoder_zero =
     \<lparr>bytes_left_in_chunk = 0, consume_trailer = False, hex_count = 0,
      ck_state = CHUNKED_IN_CHUNK_SIZE, total_read = 0, total_overhead = 0\<rparr>"

definition decode_hex :: "byte \<Rightarrow> nat option" where
  "decode_hex c =
     (if 48 \<le> c \<and> c \<le> 57 then Some (unat c - 48)
      else if 65 \<le> c \<and> c \<le> 70 then Some (unat c - 65 + 10)
      else if 97 \<le> c \<and> c \<le> 102 then Some (unat c - 97 + 10)
      else None)"

text \<open>The only bytes that may follow the digits of a size: blank, tab, semicolon, CR, LF.\<close>

definition after_size :: "byte \<Rightarrow> bool" where
  "after_size c = (c = 32 \<or> c = 9 \<or> c = ch CHR '';'' \<or> c = 10 \<or> c = 13)"

definition memmove :: "byte list \<Rightarrow> nat \<Rightarrow> nat \<Rightarrow> nat \<Rightarrow> byte list" where
  "memmove buf dst src n = take dst buf @ take n (drop src buf) @ drop (dst + n) buf"

text \<open>The configuration of the loop, and how it leaves: -2 is incomplete, -1 an error.\<close>

type_synonym chunk_conf = "chunked_decoder \<times> byte list \<times> nat \<times> nat"

datatype chunk_exit = Incomplete | Bad | Done

fun chunk_step :: "chunk_conf \<Rightarrow> (chunk_exit \<times> chunk_conf) + chunk_conf" where
  "chunk_step (d, buf, src, dst) =
     (case ck_state d of
        CHUNKED_IN_CHUNK_SIZE \<Rightarrow>
          (if src = length buf then Inl (Incomplete, d, buf, src, dst)
           else
             (case decode_hex (buf ! src) of
                None \<Rightarrow>
                  if hex_count d = 0 then Inl (Bad, d, buf, src, dst)
                  else if after_size (buf ! src)
                  then Inr (d\<lparr>hex_count := 0, ck_state := CHUNKED_IN_CHUNK_EXT\<rparr>, buf, src, dst)
                  else Inl (Bad, d, buf, src, dst)
              | Some v \<Rightarrow>
                  if hex_count d = 16 then Inl (Bad, d, buf, src, dst)
                  else Inr (d\<lparr>bytes_left_in_chunk := sz_add (sz_mul (bytes_left_in_chunk d) 16) v,
                              hex_count := hex_count d + 1\<rparr>, buf, src + 1, dst)))
      | CHUNKED_IN_CHUNK_EXT \<Rightarrow>
          (if src = length buf then Inl (Incomplete, d, buf, src, dst)
           else if buf ! src = 13
           then Inr (d\<lparr>ck_state := CHUNKED_IN_CHUNK_HEADER_EXPECT_LF\<rparr>, buf, src + 1, dst)
           else if buf ! src = 10 then Inl (Bad, d, buf, src, dst)
           else Inr (d, buf, src + 1, dst))
      | CHUNKED_IN_CHUNK_HEADER_EXPECT_LF \<Rightarrow>
          (if src = length buf then Inl (Incomplete, d, buf, src, dst)
           else if buf ! src \<noteq> 10 then Inl (Bad, d, buf, src, dst)
           else if bytes_left_in_chunk d = 0 then
             (if consume_trailer d
              then Inr (d\<lparr>ck_state := CHUNKED_IN_TRAILERS_LINE_HEAD\<rparr>, buf, src + 1, dst)
              else Inl (Done, d, buf, src + 1, dst))
           else Inr (d\<lparr>ck_state := CHUNKED_IN_CHUNK_DATA\<rparr>, buf, src + 1, dst))
      | CHUNKED_IN_CHUNK_DATA \<Rightarrow>
          (let avail = length buf - src
           in if avail < bytes_left_in_chunk d then
                Inl (Incomplete, d\<lparr>bytes_left_in_chunk := bytes_left_in_chunk d - avail\<rparr>,
                     if dst \<noteq> src then memmove buf dst src avail else buf, src + avail, dst + avail)
              else
                let n = bytes_left_in_chunk d
                in Inr (d\<lparr>bytes_left_in_chunk := 0, ck_state := CHUNKED_IN_CHUNK_DATA_EXPECT_CR\<rparr>,
                        if dst \<noteq> src then memmove buf dst src n else buf, src + n, dst + n))
      | CHUNKED_IN_CHUNK_DATA_EXPECT_CR \<Rightarrow>
          (if src = length buf then Inl (Incomplete, d, buf, src, dst)
           else if buf ! src \<noteq> 13 then Inl (Bad, d, buf, src, dst)
           else Inr (d\<lparr>ck_state := CHUNKED_IN_CHUNK_DATA_EXPECT_LF\<rparr>, buf, src + 1, dst))
      | CHUNKED_IN_CHUNK_DATA_EXPECT_LF \<Rightarrow>
          (if src = length buf then Inl (Incomplete, d, buf, src, dst)
           else if buf ! src \<noteq> 10 then Inl (Bad, d, buf, src, dst)
           else Inr (d\<lparr>ck_state := CHUNKED_IN_CHUNK_SIZE\<rparr>, buf, src + 1, dst))
      | CHUNKED_IN_TRAILERS_LINE_HEAD \<Rightarrow>
          (if src = length buf then Inl (Incomplete, d, buf, src, dst)
           else if buf ! src = 13 then Inr (d, buf, src + 1, dst)
           else if buf ! src = 10 then Inl (Done, d, buf, src + 1, dst)
           else Inr (d\<lparr>ck_state := CHUNKED_IN_TRAILERS_LINE_MIDDLE\<rparr>, buf, src + 1, dst))
      | CHUNKED_IN_TRAILERS_LINE_MIDDLE \<Rightarrow>
          (if src = length buf then Inl (Incomplete, d, buf, src, dst)
           else if buf ! src = 10
           then Inr (d\<lparr>ck_state := CHUNKED_IN_TRAILERS_LINE_HEAD\<rparr>, buf, src + 1, dst)
           else Inr (d, buf, src + 1, dst)))"

declare chunk_step.simps [simp del]

text \<open>The loop ends: every pass moves \<open>src\<close>, or leaves the size or the data state.\<close>

definition chunk_rank :: "chunk_conf \<Rightarrow> nat" where
  "chunk_rank = (\<lambda>(d, buf, src, dst).
     2 * (length buf - src) +
     (if ck_state d = CHUNKED_IN_CHUNK_SIZE \<or> ck_state d = CHUNKED_IN_CHUNK_DATA then 1 else 0))"

text \<open>The cursors stay ordered and inside the buffer, so every access is in range.\<close>

definition chunk_conf_ok :: "chunk_conf \<Rightarrow> bool" where
  "chunk_conf_ok = (\<lambda>(d, buf, src, dst). dst \<le> src \<and> src \<le> length buf)"

lemma length_memmove [simp]:
  "dst \<le> src \<Longrightarrow> src + n \<le> length buf \<Longrightarrow> length (memmove buf dst src n) = length buf"
  by (simp add: memmove_def)

lemma chunk_step_ok:
  assumes "chunk_conf_ok s" and "chunk_step s = Inr s'"
  shows "chunk_conf_ok s' \<and> chunk_rank s' < chunk_rank s"
proof -
  obtain d buf src dst where s: "s = (d, buf, src, dst)" by (cases s)
  show ?thesis
    using assms unfolding s
    by (cases "ck_state d")
       (auto simp: chunk_step.simps chunk_conf_ok_def chunk_rank_def Let_def split: if_splits option.splits)
qed

text \<open>
  The loop, guarded by the range of the cursors (which it keeps, so the guard never
  fails on a run from cursors in range).
\<close>

function chunk_loop :: "chunk_conf \<Rightarrow> (chunk_exit \<times> chunk_conf) result" where
  "chunk_loop s =
     (if chunk_conf_ok s then
        (case chunk_step s of Inl x \<Rightarrow> Inr x | Inr s' \<Rightarrow> chunk_loop s')
      else Inl Undefined_behaviour)"
  by pat_completeness auto
termination
  by (relation "measure chunk_rank") (auto dest: chunk_step_ok)

declare chunk_loop.simps [simp del]

text \<open>
  The whole call on the \<open>bufsz\<close> bytes \<open>buf\<close>: the new decoder, the rewritten bytes, the
  new \<open>bufsz\<close> and the return value.
\<close>

definition phr_decode_chunked ::
  "chunked_decoder \<Rightarrow> byte list \<Rightarrow> (chunked_decoder \<times> byte list \<times> nat \<times> int) result" where
  "phr_decode_chunked d buf =
     (let d0 = d\<lparr>total_read := sz_add (total_read d) (length buf)\<rparr>
      in bind_result (chunk_loop (d0, buf, 0, 0)) (\<lambda>(x, d1, buf1, src, dst).
         let buf2 = (if dst \<noteq> src then memmove buf1 dst src (length buf1 - src) else buf1);
             ret = (case x of Incomplete \<Rightarrow> -2 | Bad \<Rightarrow> -1 | Done \<Rightarrow> int (length buf1 - src))
         in if x = Incomplete then
              let d2 = d1\<lparr>total_overhead := sz_add (total_overhead d1) (length buf - dst)\<rparr>
              in if 100 * 1024 \<le> total_overhead d2 \<and>
                    sz_sub (total_read d2) (total_overhead d2) < total_read d2 div 4
                 then Inr (d2, buf2, dst, -1)
                 else Inr (d2, buf2, dst, ret)
            else Inr (d1, buf2, dst, ret)))"

definition phr_decode_chunked_is_in_data :: "chunked_decoder \<Rightarrow> int" where
  "phr_decode_chunked_is_in_data d = (if ck_state d = CHUNKED_IN_CHUNK_DATA then 1 else 0)"

end
