(* ===== verification/HttpRequest.thy ===== *)
theory HttpRequest
  imports HttpTables Message Router PhrRequest PhrChunked
begin

section \<open>Requests (\<open>Http::Request\<close> in \<open>src/message/http.cpp\<close>)\<close>

text \<open>
  A request collects its header in a buffer of fixed size, parses it once the empty line
  has come, and then collects its body. A \<open>string_view\<close> into the header buffer is the list
  of its bytes: no operation writes to the part of the buffer that is already filled.
  The parser is the build without SSE4.2, which the compile commands of the repository
  give; the other build is proved to return the same.
\<close>

record request =
  rq_headerBuffer :: "byte list"
  rq_maxHeaderSize :: nat
  rq_headerBufferIdx :: nat
  rq_last :: byte
  rq_numFound :: "8 word"
  rq_body :: "byte list"
  rq_maxBodySize :: nat
  rq_bodyIdx :: nat
  rq_chunkedDecoder :: chunked_decoder
  rq_method :: "byte list"
  rq_target :: "byte list"
  rq_version :: "byte list"
  rq_path :: "byte list list"
  rq_params :: "(byte list \<times> byte list) list"
  rq_contentLength :: "nat option"
  rq_chunked :: bool
  rq_fields :: "(byte list \<times> byte list) list"
  rq_numHeaders :: nat

definition maxNumHeaders :: nat where
  "maxNumHeaders = 32"

definition request_span :: "byte list \<Rightarrow> request" where
  "request_span headerBuffer =
     \<lparr>rq_headerBuffer = headerBuffer, rq_maxHeaderSize = length headerBuffer,
      rq_headerBufferIdx = 0, rq_last = 0, rq_numFound = 0,
      rq_body = [], rq_maxBodySize = 1024 * 1024, rq_bodyIdx = 0,
      rq_chunkedDecoder = decoder_zero\<lparr>consume_trailer := True\<rparr>,
      rq_method = [], rq_target = [], rq_version = [], rq_path = [], rq_params = [],
      rq_contentLength = None, rq_chunked = False,
      rq_fields = replicate maxNumHeaders ([], []), rq_numHeaders = 0\<rparr>"

definition request_size :: "nat \<Rightarrow> request result" where
  "request_size maxHeaderSize =
     bind_result (vec_resize maxHeaderSize []) (\<lambda>buf. Inr (request_span buf))"


subsection \<open>Fields\<close>

text \<open>The names a lookup by \<open>Field\<close> compares with: the usual spelling and its lower case.\<close>

definition field_strs :: "Field \<Rightarrow> (byte list \<times> byte list) result" where
  "field_strs field =
     bind_result (array_at fieldStrArr (Field_index field)) (\<lambda>s.
     bind_result (array_at fieldStrArrLower (Field_index field)) (\<lambda>l. Inr (bytes s, bytes l)))"

fun first_field :: "(byte list \<Rightarrow> bool) \<Rightarrow> (byte list \<times> byte list) list \<Rightarrow> byte list option" where
  "first_field test [] = None"
| "first_field test ((k, v) # kvs) = (if test k then Some v else first_field test kvs)"

definition all_fields :: "(byte list \<Rightarrow> bool) \<Rightarrow> (byte list \<times> byte list) list \<Rightarrow> byte list list" where
  "all_fields test kvs = map snd (filter (\<lambda>(k, v). test k) kvs)"

definition request_get :: "request \<Rightarrow> Field \<Rightarrow> byte list option result" where
  "request_get r field =
     bind_result (field_strs field) (\<lambda>(s, l).
       Inr (first_field (\<lambda>k. k = s \<or> k = l) (take (rq_numHeaders r) (rq_fields r))))"

definition request_get_name :: "request \<Rightarrow> byte list \<Rightarrow> byte list option" where
  "request_get_name r field = first_field (\<lambda>k. k = field) (take (rq_numHeaders r) (rq_fields r))"

definition request_getList :: "request \<Rightarrow> Field \<Rightarrow> byte list list result" where
  "request_getList r field =
     bind_result (field_strs field) (\<lambda>(s, l).
       Inr (all_fields (\<lambda>k. k = s \<or> k = l) (take (rq_numHeaders r) (rq_fields r))))"

definition request_getList_name :: "request \<Rightarrow> byte list \<Rightarrow> byte list list" where
  "request_getList_name r field = all_fields (\<lambda>k. k = field) (take (rq_numHeaders r) (rq_fields r))"


subsection \<open>The parsed header\<close>

text \<open>\<open>find\<close> of a string in a string, as a test.\<close>

fun contains_str :: "byte list \<Rightarrow> byte list \<Rightarrow> bool" where
  "contains_str needle [] = (needle = [])"
| "contains_str needle (c # cs) =
     (take (length needle) (c # cs) = needle \<or> contains_str needle cs)"

definition header_pair :: "phr_header \<Rightarrow> byte list \<times> byte list" where
  "header_pair h = ((case ph_name h of None \<Rightarrow> [] | Some n \<Rightarrow> n), ph_value h)"

text \<open>Framing of the body: a valid Content-Length, or else a chunked Transfer-Encoding.\<close>

definition deserialize_framing :: "request \<Rightarrow> (bool \<times> request) result" where
  "deserialize_framing r =
     bind_result (request_get r ContentLength) (\<lambda>cl.
     let parsed = (case cl of
                     None \<Rightarrow> Some r
                   | Some s \<Rightarrow>
                       (case from_chars s of
                          None \<Rightarrow> None
                        | Some v \<Rightarrow> Some (r\<lparr>rq_contentLength := Some v\<rparr>)))
     in case parsed of
          None \<Rightarrow> Inr (False, r)
        | Some r1 \<Rightarrow>
            if rq_contentLength r1 = None then
              bind_result (request_getList r1 TransferEncoding) (\<lambda>tes.
                Inr (True, if list_ex (contains_str (bytes ''chunked'')) tes
                           then r1\<lparr>rq_chunked := True\<rparr> else r1))
            else Inr (True, r1))"

definition deserialize_path :: "byte list \<Rightarrow> byte list list result" where
  "deserialize_path tgt =
     (let pathPart = (case index_of (ch CHR ''?'') tgt of None \<Rightarrow> tgt | Some q \<Rightarrow> take q tgt)
      in if pathPart = [] then Inl Undefined_behaviour
         else Inr (segment_loop pathPart 0 @ (if last pathPart = ch CHR ''/'' then [[]] else [])))"

function params_loop :: "byte list \<Rightarrow> nat \<Rightarrow> (byte list \<times> byte list) list" where
  "params_loop query start =
     (if start < length query then
        (let amp = (case find_from query (ch CHR ''&'') start of None \<Rightarrow> length query | Some a \<Rightarrow> a);
             pair = take (amp - start) (drop start query)
         in (case index_of (ch CHR ''='') pair of
               Some eq \<Rightarrow> (take eq pair, drop (eq + 1) pair)
             | None \<Rightarrow> (pair, [])) # params_loop query (amp + 1))
      else [])"
  by pat_completeness auto
termination
  by (relation "measure (\<lambda>(query, start). length query - start)")
     (auto simp: find_from_def split: option.splits)

declare params_loop.simps [simp del]

definition deserialize_params :: "byte list \<Rightarrow> (byte list \<times> byte list) list" where
  "deserialize_params tgt =
     (case index_of (ch CHR ''?'') tgt of
        None \<Rightarrow> []
      | Some q \<Rightarrow> params_loop (drop (q + 1) tgt) 0)"

text \<open>\<open>deserialize_\<close>: it parses the whole header buffer, not only the bytes read so far.\<close>

definition request_deserialize :: "request \<Rightarrow> (bool \<times> request) result" where
  "request_deserialize r =
     (case phr_parse_request False (rq_headerBuffer r) maxNumHeaders 0 of
        Inl (e, n) \<Rightarrow> Inr (False, r\<lparr>rq_numHeaders := n\<rparr>)
      | Inr (p, ret) \<Rightarrow>
          let n = length (pr_headers p);
              r0 = r\<lparr>rq_numHeaders := n\<rparr>
          in if ret \<le> 0 then Inr (False, r0)
             else
               let r1 = r0\<lparr>rq_method := pr_method p,
                           rq_target := pr_path p,
                           rq_version := (if pr_minor_version p = 0 then bytes ''1.0'' else bytes ''1.1''),
                           rq_fields := map header_pair (pr_headers p) @ drop n (rq_fields r0)\<rparr>
               in bind_result (deserialize_framing r1) (\<lambda>(ok, r2).
                    if \<not> ok then Inr (False, r2)
                    else
                      bind_result (deserialize_path (rq_target r2)) (\<lambda>segs.
                        Inr (True, r2\<lparr>rq_path := rq_path r2 @ segs,
                                      rq_params := rq_params r2 @ deserialize_params (rq_target r2)\<rparr>))))"


subsection \<open>The four operations of a message\<close>

text \<open>The scan for the empty line: \<open>last_\<close>, \<open>numFound_\<close> and \<open>numRead\<close> after the bytes from \<open>i\<close> on.\<close>

fun scan_step :: "byte \<times> 8 word \<Rightarrow> byte \<Rightarrow> byte \<times> 8 word" where
  "scan_step (prev, numFound) c =
     (c, if c = 13 \<and> prev \<noteq> 13 then numFound + 1
         else if c = 10 \<and> prev = 13 then numFound + 1
         else 0)"

fun header_scan :: "byte \<times> 8 word \<Rightarrow> nat \<Rightarrow> nat \<Rightarrow> byte list \<Rightarrow> (byte \<times> 8 word) \<times> nat" where
  "header_scan st numRead i [] = (st, numRead)"
| "header_scan st numRead i (c # cs) =
     (let st1 = scan_step st c
      in header_scan st1 (if snd st1 = 4 then i + 1 else numRead) (i + 1) cs)"

definition rq_consumeHeaderSome :: "request consume_op" where
  "rq_consumeHeaderSome r data =
     (let writeable = sz_sub (rq_maxHeaderSize r) (rq_headerBufferIdx r);
          maxRead = (if length data \<le> writeable then length data else writeable)
      in case header_scan (rq_last r, rq_numFound r) maxRead 0 (take maxRead data) of
           ((prev, numFound), numRead) \<Rightarrow>
             let r1 = r\<lparr>rq_last := prev, rq_numFound := numFound\<rparr>;
                 finished = (numFound = 4)
             in if numRead = writeable \<and> \<not> finished
                then Inr ((Error_of INVALID_MESSAGE, True, 0), r1)
                else
                  bind_result (mem_load data 0 numRead) (\<lambda>ds.
                  bind_result (mem_store (rq_headerBuffer r1) (rq_headerBufferIdx r1) ds) (\<lambda>hb.
                    let r2 = r1\<lparr>rq_headerBuffer := hb,
                                rq_headerBufferIdx := sz_add (rq_headerBufferIdx r1) numRead\<rparr>
                    in if finished then
                         bind_result (request_deserialize r2) (\<lambda>(success, r3).
                           if \<not> success then Inr ((Error_of INVALID_MESSAGE, True, 0), r3)
                           else Inr ((Error_none, finished, numRead), r3))
                       else Inr ((Error_none, finished, numRead), r2))))"

text \<open>The body: by Content-Length, or chunked, decoded in place.\<close>

definition consume_length_body :: "request \<Rightarrow> nat \<Rightarrow> byte list \<Rightarrow> ((Error \<times> bool \<times> nat) \<times> request) result" where
  "consume_length_body r contentLength data =
     (if rq_maxBodySize r < contentLength then Inr ((Error_of INVALID_MESSAGE, True, 0), r)
      else
        bind_result (if length (rq_body r) \<noteq> contentLength
                     then vec_resize contentLength (rq_body r) else Inr (rq_body r)) (\<lambda>body.
        let writeable = sz_sub contentLength (rq_bodyIdx r);
            numCopy = min (length data) writeable
        in bind_result (mem_store body (rq_bodyIdx r) (take numCopy data)) (\<lambda>body1.
             let r1 = r\<lparr>rq_body := body1, rq_bodyIdx := sz_add (rq_bodyIdx r) numCopy\<rparr>
             in Inr ((Error_none, contentLength \<le> rq_bodyIdx r1, numCopy), r1))))"

definition consume_chunked_body :: "request \<Rightarrow> byte list \<Rightarrow> ((Error \<times> bool \<times> nat) \<times> request) result" where
  "consume_chunked_body r data =
     (let writeable = sz_sub (rq_maxBodySize r) (rq_bodyIdx r);
          numCopy = min (length data) writeable
      in bind_result (if length (rq_body r) < 1024 then vec_resize 1024 (rq_body r) else Inr (rq_body r))
           (\<lambda>body1.
         bind_result (if length body1 < sz_add (rq_bodyIdx r) numCopy
                      then vec_resize (min (rq_maxBodySize r) (sz_mul (length body1) 2)) body1
                      else Inr body1) (\<lambda>body2.
         let r1 = r\<lparr>rq_body := body2\<rparr>
         in if writeable = 0 then Inr ((Error_of INVALID_MESSAGE, True, 0), r1)
            else
              bind_result (mem_store body2 (rq_bodyIdx r) (take numCopy data)) (\<lambda>body3.
              bind_result (mem_load body3 (rq_bodyIdx r) numCopy) (\<lambda>piece.
              bind_result (phr_decode_chunked (rq_chunkedDecoder r1) piece)
                (\<lambda>(decoder, piece1, numCopy1, ret).
              bind_result (mem_store body3 (rq_bodyIdx r) piece1) (\<lambda>body4.
                let r2 = r1\<lparr>rq_body := body4, rq_chunkedDecoder := decoder\<rparr>
                in if ret = -1 then Inr ((Error_of INVALID_MESSAGE, True, 0), r2)
                   else if ret = -2 then
                     Inr ((Error_none, False, numCopy1),
                          r2\<lparr>rq_bodyIdx := sz_add (rq_bodyIdx r2) numCopy1\<rparr>)
                   else
                     let encoded = sz_sub numCopy1 (nat ret)
                     in bind_result (vec_resize (sz_add (rq_bodyIdx r2) encoded) (rq_body r2)) (\<lambda>body5.
                          Inr ((Error_none, True, encoded), r2\<lparr>rq_body := body5\<rparr>)))))))))"

definition rq_consumeBodySome :: "request consume_op" where
  "rq_consumeBodySome r data =
     (case rq_contentLength r of
        Some cl \<Rightarrow>
          if 0 < cl then consume_length_body r cl data
          else if rq_chunked r then consume_chunked_body r data
          else Inr ((Error_none, True, 0), r)
      | None \<Rightarrow>
          if rq_chunked r then consume_chunked_body r data else Inr ((Error_none, True, 0), r))"

definition rq_produceHeaderSome :: "request produce_op" where
  "rq_produceHeaderSome r out = Inr ((Error_of INVALID_MESSAGE, True, []), r)"

definition rq_produceBodySome :: "request produce_op" where
  "rq_produceBodySome r out = Inr ((Error_of INVALID_MESSAGE, True, []), r)"

definition Request_message :: "request MessageLike" where
  "Request_message =
     \<lparr>consumeHeaderSome = rq_consumeHeaderSome, consumeBodySome = rq_consumeBodySome,
      produceHeaderSome = rq_produceHeaderSome, produceBodySome = rq_produceBodySome\<rparr>"

lemma Request_message_ops [simp]:
  "consumeHeaderSome Request_message = rq_consumeHeaderSome"
  "consumeBodySome Request_message = rq_consumeBodySome"
  "produceHeaderSome Request_message = rq_produceHeaderSome"
  "produceBodySome Request_message = rq_produceBodySome"
  by (simp_all add: Request_message_def)

end
