(* ===== verification/PhrRequestSpec.thy ===== *)
theory PhrRequestSpec
  imports PhrRequest
begin

section \<open>What the request parser does\<close>

text \<open>
  The two builds of the parser agree; a verdict on a part of the input stands when more
  arrives; the text of a request parses to that request; and a proper prefix of it is
  incomplete, never malformed.
\<close>

subsection \<open>The two builds agree\<close>

lemma header_name_sse: "header_name sse n buf = header_name False n buf"
  by (simp add: header_name_def parse_token_eq)

lemma header_line_sse: "header_line sse n buf = header_line False n buf"
  unfolding header_line_def header_name_sse [of sse] get_token_to_eol_eq ..

lemma parse_headers_sse: "parse_headers sse m n buf = parse_headers False m n buf"
proof (induction sse m n buf rule: parse_headers.induct)
  case (1 sse m n buf)
  show ?case
  proof (cases buf)
    case Nil
    then show ?thesis by (simp add: parse_headers.simps [of _ m n "[]"])
  next
    case (Cons c cs)
    note line = header_line_sse [of sse n buf]
    show ?thesis
    proof (cases "header_line sse n buf")
      case (Inl e)
      with Cons line show ?thesis
        by (simp add: parse_headers.simps [of _ m n "c # cs"])
    next
      case (Inr r)
      then obtain h rest where r: "header_line sse n buf = Inr (h, rest)" by (cases r) auto
      show ?thesis
      proof (cases "c = 13 \<or> c = 10 \<or> n = m")
        case True
        with Cons show ?thesis by (auto simp: parse_headers.simps [of _ m n "c # cs"])
      next
        case False
        from r line have "header_line False n buf = Inr (h, rest)" by simp
        with "1.IH" [OF Cons _ _ _ r refl] Cons r False show ?thesis
          by (simp add: parse_headers.simps [of _ m n "c # cs"])
      qed
    qed
  qed
qed

lemma request_line_sse: "request_line sse buf = request_line False buf"
  by (simp add: request_line_def parse_token_eq advance_token_eq)

lemma phr_parse_request_sse:
  "phr_parse_request sse buf m last_len = phr_parse_request False buf m last_len"
  unfolding phr_parse_request_def parse_request_def request_line_sse [of sse] parse_headers_sse [of sse] ..


subsection \<open>Verdicts stand\<close>

definition waits_counted :: "phr_error \<times> nat \<Rightarrow> bool" where
  "waits_counted e = (fst e = Partial)"

lemma parse_headers_Cons:
  "parse_headers sse m n (c # cs) =
     (if c = 13 then
        (case expect_char 10 cs of Inl e \<Rightarrow> Inl (e, n) | Inr (_, rest) \<Rightarrow> Inr ([], rest))
      else if c = 10 then Inr ([], cs)
      else if n = m then Inl (Malformed, n)
      else
        (case header_line sse n (c # cs) of
           Inl e \<Rightarrow> Inl (e, n)
         | Inr (h, rest) \<Rightarrow>
             pbind (parse_headers sse m (n + 1) rest) (\<lambda>(hs, rest'). Inr (h # hs, rest'))))"
  by (simp add: parse_headers.simps [of _ _ _ "c # cs"])

lemma parse_headers_Nil: "parse_headers sse m n [] = Inl (Partial, n)"
  by (simp add: parse_headers.simps)

lemma expect_char_simps:
  "expect_char c [] = Inl Partial"
  "expect_char c (x # xs) = (if x \<noteq> c then Inl Malformed else Inr ((), xs))"
  by (simp_all add: expect_char_def)

lemma parse_headers_suffix:
  "parse_headers sse m n xs = Inr (hs, rest) \<Longrightarrow> \<exists>c. xs = c @ rest"
proof (induction "length xs" arbitrary: n xs hs rule: less_induct)
  case less
  show ?case
  proof (cases xs)
    case Nil
    with less.prems show ?thesis by (simp add: parse_headers_Nil)
  next
    case (Cons c cs)
    show ?thesis
    proof (cases "c = 13 \<or> c = 10 \<or> n = m")
      case True
      with less.prems Cons show ?thesis
        by (cases cs) (auto simp: parse_headers_Cons expect_char_simps split: if_splits)
    next
      case False
      with less.prems Cons obtain h r hs' where
        r: "header_line sse n xs = Inr (h, r)" "parse_headers sse m (n + 1) r = Inr (hs', rest)"
        by (auto simp: parse_headers_Cons pbind_Inr_iff split: sum.splits)
      with less.hyps [OF header_line_length [OF r(1)]] header.parse_suffix [OF r(1)]
      show ?thesis by (metis append.assoc)
    qed
  qed
qed

lemma parse_headers_extend:
  "parse_headers sse m n xs = Inr (hs, rest) \<Longrightarrow> parse_headers sse m n (xs @ ys) = Inr (hs, rest @ ys)"
proof (induction "length xs" arbitrary: n xs hs rule: less_induct)
  case less
  show ?case
  proof (cases xs)
    case Nil
    with less.prems show ?thesis by (simp add: parse_headers_Nil)
  next
    case (Cons c cs)
    show ?thesis
    proof (cases "c = 13 \<or> c = 10 \<or> n = m")
      case True
      with less.prems Cons show ?thesis
        by (cases cs) (auto simp: parse_headers_Cons expect_char_simps split: if_splits)
    next
      case False
      with less.prems Cons obtain h r hs' where
        r: "header_line sse n xs = Inr (h, r)" "parse_headers sse m (n + 1) r = Inr (hs', rest)"
          "hs = h # hs'"
        by (auto simp: parse_headers_Cons pbind_Inr_iff split: sum.splits)
      from less.hyps [OF header_line_length [OF r(1)] r(2)] header.parse_extend [OF r(1), of ys]
        False Cons r(3)
      show ?thesis by (simp add: parse_headers_Cons)
    qed
  qed
qed

lemma parse_headers_reject:
  "parse_headers sse m n xs = Inl e \<Longrightarrow> \<not> waits_counted e \<Longrightarrow> parse_headers sse m n (xs @ ys) = Inl e"
proof (induction "length xs" arbitrary: n xs rule: less_induct)
  case less
  show ?case
  proof (cases xs)
    case Nil
    with less.prems show ?thesis by (auto simp: parse_headers_Nil waits_counted_def)
  next
    case (Cons c cs)
    show ?thesis
    proof (cases "c = 13 \<or> c = 10 \<or> n = m")
      case True
      with less.prems Cons show ?thesis
        by (cases cs) (auto simp: parse_headers_Cons expect_char_simps waits_counted_def split: if_splits)
    next
      case False
      show ?thesis
      proof (cases "header_line sse n xs")
        case (Inl e')
        with less.prems False Cons have e: "e = (e', n)" "\<not> waits_partial e'"
          by (auto simp: parse_headers_Cons waits_counted_def waits_partial_def)
        from header.parse_reject [OF Inl e(2), of ys] False Cons e(1) show ?thesis
          by (simp add: parse_headers_Cons)
      next
        case (Inr b)
        then obtain h r where r: "header_line sse n xs = Inr (h, r)" by (cases b) auto
        with less.prems(1) False Cons have "parse_headers sse m (n + 1) r = Inl e"
          by (auto simp: parse_headers_Cons pbind_Inl_iff)
        from less.hyps [OF header_line_length [OF r] this less.prems(2)]
          header.parse_extend [OF r, of ys] False Cons
        show ?thesis by (simp add: parse_headers_Cons)
      qed
    qed
  qed
qed

text \<open>A first line and the headers behind it.\<close>

definition line_then_headers ::
  "(byte list \<Rightarrow> 'l parsed) \<Rightarrow> ('l \<Rightarrow> phr_header list \<Rightarrow> 'r) \<Rightarrow> bool \<Rightarrow> nat \<Rightarrow> byte list \<Rightarrow>
     (phr_error \<times> nat) + 'r \<times> byte list" where
  "line_then_headers line build sse m buf =
     (case line buf of
        Inl e \<Rightarrow> Inl (e, 0)
      | Inr (l, rest) \<Rightarrow>
          pbind (parse_headers sse m 0 rest) (\<lambda>(headers, rest'). Inr (build l headers, rest')))"

lemma incremental_line_then_headers:
  assumes line: "incremental line"
  shows "incremental_parser waits_counted (line_then_headers line build sse m)"
proof
  show "\<exists>c. xs = c @ rest" if "line_then_headers line build sse m xs = Inr (r, rest)" for xs r rest
  proof -
    from that obtain l r1 hs where l: "line xs = Inr (l, r1)" "parse_headers sse m 0 r1 = Inr (hs, rest)"
      by (auto simp: line_then_headers_def pbind_Inr_iff split: sum.splits)
    show ?thesis
      using incremental_parser.parse_suffix [OF line l(1)] parse_headers_suffix [OF l(2)] by (metis append.assoc)
  qed
  show "line_then_headers line build sse m (xs @ ys) = Inr (r, rest @ ys)"
    if "line_then_headers line build sse m xs = Inr (r, rest)" for xs r rest ys
  proof -
    from that obtain l r1 hs where l: "line xs = Inr (l, r1)" "parse_headers sse m 0 r1 = Inr (hs, rest)"
        "r = build l hs"
      by (auto simp: line_then_headers_def pbind_Inr_iff split: sum.splits)
    show ?thesis
      using incremental_parser.parse_extend [OF line l(1), of ys] parse_headers_extend [OF l(2), of ys] l(3)
      by (simp add: line_then_headers_def)
  qed
  show "line_then_headers line build sse m (xs @ ys) = Inl e"
    if e: "line_then_headers line build sse m xs = Inl e" "\<not> waits_counted e" for xs e ys
  proof (cases "line xs")
    case (Inl e')
    with e have "e = (e', 0)" "\<not> waits_partial e'"
      by (auto simp: line_then_headers_def waits_counted_def waits_partial_def)
    with incremental_parser.parse_reject [OF line Inl, of ys] show ?thesis by (simp add: line_then_headers_def)
  next
    case (Inr b)
    then obtain l r1 where l: "line xs = Inr (l, r1)" by (cases b) auto
    with e(1) have "parse_headers sse m 0 r1 = Inl e"
      by (auto simp: line_then_headers_def pbind_Inl_iff)
    from parse_headers_reject [OF this e(2), of ys] incremental_parser.parse_extend [OF line l, of ys]
    show ?thesis by (simp add: line_then_headers_def)
  qed
qed

lemma parse_request_line_then_headers:
  "parse_request sse m = line_then_headers (request_line sse)
     (\<lambda>(meth, path, minor_version) headers.
        \<lparr>pr_method = meth, pr_path = path, pr_minor_version = minor_version, pr_headers = headers\<rparr>) sse m"
  by (rule ext) (auto simp: parse_request_def line_then_headers_def split: sum.splits)

interpretation request: incremental_parser waits_counted "parse_request sse m" for sse m
  unfolding parse_request_line_then_headers
  by (rule incremental_line_then_headers) (rule line.incremental_parser_axioms)

text \<open>The headers alone.\<close>

interpretation headers: incremental_parser waits_counted "parse_headers sse m n" for sse m n
  by unfold_locales (rule parse_headers_suffix parse_headers_extend parse_headers_reject; assumption)+


lemma trim_end_id:
  assumes "v = [] \<or> \<not> is_blank (last v)"
  shows "trim_end v = v"
proof (cases "v = []")
  case False
  then obtain x xs where "rev v = x # xs" by (cases "rev v") auto
  moreover from this have "last v = x" by (metis hd_rev list.sel(1))
  ultimately show ?thesis using assms False
    by (simp add: trim_end_def)
qed (simp add: trim_end_def)


subsection \<open>Round trip\<close>

text \<open>A request as a client writes it.\<close>

definition is_name :: "byte list \<Rightarrow> bool" where
  "is_name s \<longleftrightarrow> s \<noteq> [] \<and> list_all is_token_char s"

definition is_target :: "byte list \<Rightarrow> bool" where
  "is_target s \<longleftrightarrow> s \<noteq> [] \<and> list_all (\<lambda>c. 32 < c \<and> c \<noteq> 127) s"

definition is_value :: "byte list \<Rightarrow> bool" where
  "is_value s \<longleftrightarrow>
     list_all (\<lambda>c. \<not> is_ctl c) s \<and> (s = [] \<or> \<not> is_blank (hd s) \<and> \<not> is_blank (last s))"

definition header_text :: "byte list \<times> byte list \<Rightarrow> byte list" where
  "header_text = (\<lambda>(name, v). name @ [58, 32] @ v @ [13, 10])"

definition request_text :: "byte list \<Rightarrow> byte list \<Rightarrow> nat \<Rightarrow> (byte list \<times> byte list) list \<Rightarrow> byte list" where
  "request_text meth tgt minor hs =
     meth @ [32] @ tgt @ [32, 72, 84, 84, 80, 47, 49, 46, 48 + of_nat minor, 13, 10] @
     concat (map header_text hs) @ [13, 10]"

definition parsed_header :: "byte list \<times> byte list \<Rightarrow> phr_header" where
  "parsed_header = (\<lambda>(name, v). \<lparr>ph_name = Some name, ph_value = v\<rparr>)"

lemma separators_no_token:
  "\<not> is_token_char 32" "\<not> is_token_char 58" "\<not> is_token_char 13" "\<not> is_token_char 10"
  "\<not> is_token_char 9"
  by (simp_all add: is_token_char_def token_char_map_def)

lemma token_loop_name:
  assumes "list_all is_token_char s" and "\<not> is_token_char c"
  shows "token_loop c (s @ c # xs) = Inr (s, c # xs)"
proof -
  have "list_all (\<lambda>x. is_token_char x \<and> x \<noteq> c) s"
    using assms by (auto simp: list_all_iff)
  from token_loop_append [OF this, of "c # xs"] show ?thesis by simp
qed

lemma eol_loop_value:
  assumes "list_all (\<lambda>c. \<not> is_ctl c) v" shows "eol_loop (v @ 13 # xs) = Inr (v, 13 # xs)"
proof -
  have "is_ctl 13" by (simp add: is_ctl_def)
  then have "eol_loop (13 # xs) = Inr ([], 13 # xs)" by (simp add: is_ctl_not_printable)
  with eol_loop_append [OF assms, of "13 # xs"] show ?thesis by simp
qed

lemma header_line_text:
  assumes "is_name name" and "is_value v"
  shows "header_line sse n (header_text (name, v) @ xs) = Inr (parsed_header (name, v), xs)"
proof -
  from assms(1) obtain c cs where name: "name = c # cs" "is_token_char c"
    by (cases name) (auto simp: is_name_def)
  then have blank: "\<not> is_blank c" using separators_no_token by (auto simp: is_blank_def)
  have skip: "skip_blanks (v @ 13 # ys) = Inr ((), v @ 13 # ys)" for ys
    using assms(2) by (cases v) (auto simp: is_value_def is_blank_def)
  have "header_name sse n (name @ 58 # 32 # v @ 13 # 10 # xs) = Inr (Some name, v @ 13 # 10 # xs)"
    using assms(1) blank skip token_loop_name [of name 58 "32 # v @ 13 # 10 # xs"] separators_no_token
    by (simp add: header_name_def parse_token_eq is_name_def name skip_one_def is_blank_def)
  moreover have "get_token_to_eol sse (v @ 13 # 10 # xs) = Inr (v, xs)"
    using assms(2) eol_loop_value [of v "10 # xs"]
    by (simp add: get_token_to_eol_eq found_ctl_def expect_char_def is_value_def)
  ultimately show ?thesis
    using assms(2) trim_end_id [of v]
    by (auto simp: header_line_def header_text_def parsed_header_def is_value_def)
qed

lemma parse_headers_text:
  "list_all (\<lambda>(name, v). is_name name \<and> is_value v) hs \<Longrightarrow> n + length hs \<le> m \<Longrightarrow>
     parse_headers sse m n (concat (map header_text hs) @ 13 # 10 # xs) = Inr (map parsed_header hs, xs)"
proof (induction hs arbitrary: n)
  case Nil
  then show ?case by (simp add: parse_headers_Cons expect_char_simps)
next
  case (Cons h hs)
  obtain name v where h: "h = (name, v)" by (cases h)
  with Cons.prems(1) obtain c cs where name: "name = c # cs" "is_token_char c"
    by (cases name) (auto simp: is_name_def)
  then have c: "c \<noteq> 13" "c \<noteq> 10" using separators_no_token by auto
  let ?rest = "concat (map header_text hs) @ 13 # 10 # xs"
  obtain ys where htext: "header_text h @ ?rest = c # ys"
    by (simp add: h header_text_def name)
  have "header_line sse n (c # ys) = Inr (parsed_header h, ?rest)"
    using header_line_text [of name v sse n ?rest] Cons.prems(1) htext by (simp add: h)
  with Cons c show ?case by (simp add: htext parse_headers_Cons)
qed

lemma parse_http_version_text:
  assumes "k < 10" and "xs \<noteq> []"
  shows "parse_http_version (72 # 84 # 84 # 80 # 47 # 49 # 46 # (48 + of_nat k) # xs) = Inr (int k, xs)"
proof -
  have "unat (48 + of_nat k :: byte) = 48 + k"
    using assms(1) unat_of_nat [of "48 + k", where 'a = 8] by simp
  then show ?thesis
    using assms by (cases xs)
      (simp_all add: parse_http_version_def expect_no_check_def parse_int_def word_less_nat_alt)
qed

lemma request_line_text:
  assumes "is_name meth" and "is_target tgt" and "k < 10"
  shows "request_line sse (meth @ 32 # tgt @ 32 # 72 # 84 # 84 # 80 # 47 # 49 # 46 #
      (48 + of_nat k) # 13 # 10 # xs) = Inr ((meth, tgt, int k), xs)"
proof -
  from assms(1) obtain c cs where m: "meth = c # cs" "is_token_char c"
    by (cases meth) (auto simp: is_name_def)
  then have c: "c \<noteq> 13" "c \<noteq> 10" using separators_no_token by auto
  from assms(2) obtain t ts where t: "tgt = t # ts" "t \<noteq> 32"
    by (cases tgt) (auto simp: is_target_def)
  have adv: "advance_loop (tgt @ 32 # ys) = Inr (tgt, 32 # ys)" for ys
  proof -
    have "list_all (\<lambda>c. \<not> in_ranges [(0, 32), (127, 127)] c) tgt"
      using assms(2)
      by (auto simp: is_target_def in_ranges_def list_all_iff word_le_nat_alt word_less_nat_alt
          word_unat_eq_iff)
    from advance_loop_append [OF this, of "32 # ys"] show ?thesis by simp
  qed
  note parts = request_line_def parse_token_eq skip_one_def advance_token_eq end_of_line_def expect_char_def
  have "token_loop 32 (meth @ 32 # ys) = Inr (meth, 32 # ys)" for ys
    using assms(1) separators_no_token by (intro token_loop_name) (simp_all add: is_name_def)
  moreover have "skip_empty_line (meth @ ys) = Inr ((), meth @ ys)" for ys
    using c by (simp add: skip_empty_line_def m)
  moreover have "skip_spaces (tgt @ ys) = Inr ((), tgt @ ys)" for ys
    using t by simp
  ultimately show ?thesis
    using m t adv parse_http_version_text [OF assms(3), of "13 # 10 # xs"] by (simp add: parts)
qed

lemma parse_request_text:
  assumes "is_name meth" and "is_target tgt" and "k < 10"
    and "list_all (\<lambda>(name, v). is_name name \<and> is_value v) hs" and "length hs \<le> m"
  shows "parse_request sse m (request_text meth tgt k hs @ xs) =
    Inr (\<lparr>pr_method = meth, pr_path = tgt, pr_minor_version = int k,
          pr_headers = map parsed_header hs\<rparr>, xs)"
  using request_line_text [OF assms(1-3)] parse_headers_text [OF assms(4), of 0 m] assms(5)
  by (simp add: parse_request_def request_text_def)

lemma int_cast_small: "n < 2 ^ 31 \<Longrightarrow> int_cast n = int n"
  unfolding int_cast_def by (simp add: signed_of_nat signed_take_bit_int_eq_self)

lemma phr_parse_request_text:
  assumes "is_name meth" and "is_target tgt" and "k < 10"
    and "list_all (\<lambda>(name, v). is_name name \<and> is_value v) hs" and "length hs \<le> m"
    and "length (request_text meth tgt k hs) < 2 ^ 31"
  shows "phr_parse_request sse (request_text meth tgt k hs @ xs) m 0 =
    Inr (\<lparr>pr_method = meth, pr_path = tgt, pr_minor_version = int k,
          pr_headers = map parsed_header hs\<rparr>, int (length (request_text meth tgt k hs)))"
  using parse_request_text [OF assms(1-5)] int_cast_small [OF assms(6)]
  by (simp add: phr_parse_request_def)

lemma phr_parse_request_prefix:
  assumes "is_name meth" and "is_target tgt" and "k < 10"
    and "list_all (\<lambda>(name, v). is_name name \<and> is_value v) hs" and "length hs \<le> m"
    and "request_text meth tgt k hs = c1 @ c2" and "c2 \<noteq> []"
  shows "\<exists>n. phr_parse_request sse c1 m 0 = Inl (Partial, n)"
proof -
  have "parse_request sse m (c1 @ c2 @ []) =
      Inr (\<lparr>pr_method = meth, pr_path = tgt, pr_minor_version = int k,
            pr_headers = map parsed_header hs\<rparr>, [])"
    using parse_request_text [OF assms(1-5), of sse "[]"] assms(6) by simp
  from request.proper_prefix_waits [OF this assms(7)]
  show ?thesis by (auto simp: phr_parse_request_def waits_counted_def)
qed


subsection \<open>Bounds\<close>

lemma parse_headers_count:
  "parse_headers sse m n xs = Inr (hs, rest) \<Longrightarrow> n \<le> m \<Longrightarrow> n + length hs \<le> m"
proof (induction "length xs" arbitrary: n xs hs rule: less_induct)
  case less
  show ?case
  proof (cases xs)
    case Nil
    with less.prems show ?thesis by (simp add: parse_headers_Nil)
  next
    case (Cons c cs)
    show ?thesis
    proof (cases "c = 13 \<or> c = 10 \<or> n = m")
      case True
      with less.prems Cons show ?thesis
        by (cases cs) (auto simp: parse_headers_Cons expect_char_simps split: if_splits)
    next
      case False
      with less.prems Cons obtain h r hs' where
        r: "header_line sse n xs = Inr (h, r)" "parse_headers sse m (n + 1) r = Inr (hs', rest)"
          "hs = h # hs'"
        by (auto simp: parse_headers_Cons pbind_Inr_iff split: sum.splits)
      from less.hyps [OF header_line_length [OF r(1)] r(2)] False less.prems(2) r(3)
      show ?thesis by simp
    qed
  qed
qed

lemma parse_headers_count_error:
  "parse_headers sse m n xs = Inl (e, k) \<Longrightarrow> n \<le> m \<Longrightarrow> k \<le> m"
proof (induction "length xs" arbitrary: n xs rule: less_induct)
  case less
  show ?case
  proof (cases xs)
    case Nil
    with less.prems show ?thesis by (simp add: parse_headers_Nil)
  next
    case (Cons c cs)
    show ?thesis
    proof (cases "c = 13 \<or> c = 10 \<or> n = m")
      case True
      with less.prems Cons show ?thesis
        by (cases cs) (auto simp: parse_headers_Cons expect_char_simps split: if_splits)
    next
      case False
      show ?thesis
      proof (cases "header_line sse n xs")
        case (Inl e')
        with less.prems False Cons show ?thesis by (auto simp: parse_headers_Cons)
      next
        case (Inr b)
        then obtain h r where r: "header_line sse n xs = Inr (h, r)" by (cases b) auto
        with less.prems(1) False Cons have "parse_headers sse m (n + 1) r = Inl (e, k)"
          by (auto simp: parse_headers_Cons pbind_Inl_iff)
        from less.hyps [OF header_line_length [OF r] this] False less.prems(2) show ?thesis by simp
      qed
    qed
  qed
qed

end
