(* ===== verification/PhrChunkedSpec.thy ===== *)
theory PhrChunkedSpec
  imports PhrChunked
begin

section \<open>The chunked decoder against the transfer coding\<close>

text \<open>
  \<open>dechunk\<close> is the decoder on lists: input in, decoded bytes and unread input out, no
  buffer. The in-place loop refines it; on the list level two facts are proved: decoding
  in two calls is decoding in one (streaming), and a well-formed chunked body followed
  by anything decodes to its data and leaves the rest.
\<close>

function dechunk :: "chunked_decoder \<Rightarrow> byte list \<Rightarrow> chunk_exit \<times> chunked_decoder \<times> byte list \<times> byte list"
where
  "dechunk d xs =
     (case ck_state d of
        CHUNKED_IN_CHUNK_SIZE \<Rightarrow>
          (case xs of
             [] \<Rightarrow> (Incomplete, d, [], [])
           | c # cs \<Rightarrow>
               (case decode_hex c of
                  None \<Rightarrow>
                    if hex_count d = 0 then (Bad, d, [], xs)
                    else if after_size c
                    then dechunk (d\<lparr>hex_count := 0, ck_state := CHUNKED_IN_CHUNK_EXT\<rparr>) xs
                    else (Bad, d, [], xs)
                | Some v \<Rightarrow>
                    if hex_count d = 16 then (Bad, d, [], xs)
                    else dechunk (d\<lparr>bytes_left_in_chunk := sz_add (sz_mul (bytes_left_in_chunk d) 16) v,
                                    hex_count := hex_count d + 1\<rparr>) cs))
      | CHUNKED_IN_CHUNK_EXT \<Rightarrow>
          (case xs of
             [] \<Rightarrow> (Incomplete, d, [], [])
           | c # cs \<Rightarrow>
               if c = 13 then dechunk (d\<lparr>ck_state := CHUNKED_IN_CHUNK_HEADER_EXPECT_LF\<rparr>) cs
               else if c = 10 then (Bad, d, [], xs) else dechunk d cs)
      | CHUNKED_IN_CHUNK_HEADER_EXPECT_LF \<Rightarrow>
          (case xs of
             [] \<Rightarrow> (Incomplete, d, [], [])
           | c # cs \<Rightarrow>
               if c \<noteq> 10 then (Bad, d, [], xs)
               else if bytes_left_in_chunk d = 0 then
                 (if consume_trailer d then dechunk (d\<lparr>ck_state := CHUNKED_IN_TRAILERS_LINE_HEAD\<rparr>) cs
                  else (Done, d, [], cs))
               else dechunk (d\<lparr>ck_state := CHUNKED_IN_CHUNK_DATA\<rparr>) cs)
      | CHUNKED_IN_CHUNK_DATA \<Rightarrow>
          (if length xs < bytes_left_in_chunk d
           then (Incomplete, d\<lparr>bytes_left_in_chunk := bytes_left_in_chunk d - length xs\<rparr>, xs, [])
           else
             (case dechunk (d\<lparr>bytes_left_in_chunk := 0, ck_state := CHUNKED_IN_CHUNK_DATA_EXPECT_CR\<rparr>)
                     (drop (bytes_left_in_chunk d) xs) of
                (x, d', out, rest) \<Rightarrow> (x, d', take (bytes_left_in_chunk d) xs @ out, rest)))
      | CHUNKED_IN_CHUNK_DATA_EXPECT_CR \<Rightarrow>
          (case xs of
             [] \<Rightarrow> (Incomplete, d, [], [])
           | c # cs \<Rightarrow>
               if c \<noteq> 13 then (Bad, d, [], xs)
               else dechunk (d\<lparr>ck_state := CHUNKED_IN_CHUNK_DATA_EXPECT_LF\<rparr>) cs)
      | CHUNKED_IN_CHUNK_DATA_EXPECT_LF \<Rightarrow>
          (case xs of
             [] \<Rightarrow> (Incomplete, d, [], [])
           | c # cs \<Rightarrow>
               if c \<noteq> 10 then (Bad, d, [], xs)
               else dechunk (d\<lparr>ck_state := CHUNKED_IN_CHUNK_SIZE\<rparr>) cs)
      | CHUNKED_IN_TRAILERS_LINE_HEAD \<Rightarrow>
          (case xs of
             [] \<Rightarrow> (Incomplete, d, [], [])
           | c # cs \<Rightarrow>
               if c = 13 then dechunk d cs
               else if c = 10 then (Done, d, [], cs)
               else dechunk (d\<lparr>ck_state := CHUNKED_IN_TRAILERS_LINE_MIDDLE\<rparr>) cs)
      | CHUNKED_IN_TRAILERS_LINE_MIDDLE \<Rightarrow>
          (case xs of
             [] \<Rightarrow> (Incomplete, d, [], [])
           | c # cs \<Rightarrow>
               if c = 10 then dechunk (d\<lparr>ck_state := CHUNKED_IN_TRAILERS_LINE_HEAD\<rparr>) cs
               else dechunk d cs))"
  by pat_completeness auto
termination
  by (relation "measure (\<lambda>(d, xs). 2 * length xs +
        (if ck_state d = CHUNKED_IN_CHUNK_SIZE \<or> ck_state d = CHUNKED_IN_CHUNK_DATA then 1 else 0))")
     auto

declare dechunk.simps [simp del]


subsection \<open>The in-place loop refines it\<close>

lemma memmove_parts:
  assumes "dst \<le> src" and "src + n \<le> length buf"
  shows "take (dst + n) (memmove buf dst src n) = take dst buf @ take n (drop src buf)"
    and "drop (src + n) (memmove buf dst src n) = drop (src + n) buf"
  using assms by (simp_all add: memmove_def)

text \<open>A result of the loop on a buffer against a result of the list level.\<close>

definition refines ::
  "byte list \<Rightarrow> nat \<Rightarrow> (chunk_exit \<times> chunk_conf) \<Rightarrow>
     chunk_exit \<times> chunked_decoder \<times> byte list \<times> byte list \<Rightarrow> bool" where
  "refines buf dst = (\<lambda>(x, d', buf', src', dst') (y, e, out, rest).
     x = y \<and> d' = e \<and> take dst' buf' = take dst buf @ out \<and> drop src' buf' = rest \<and>
     dst' = dst + length out \<and> dst' \<le> src' \<and> src' \<le> length buf' \<and> length buf' = length buf)"

lemma memmove_self: "dst + n \<le> length buf \<Longrightarrow> memmove buf dst dst n = buf"
  by (simp add: memmove_def) (metis append_take_drop_id drop_drop add.commute)

lemma memmove_if:
  "dst + n \<le> length buf \<Longrightarrow> (if dst \<noteq> src then memmove buf dst src n else buf) = memmove buf dst src n"
  using memmove_self by auto

text \<open>One pass of the loop against one unfolding of the list level.\<close>

definition corresponds :: "chunk_conf \<Rightarrow> bool" where
  "corresponds = (\<lambda>(d, buf, src, dst).
     (case chunk_step (d, buf, src, dst) of
        Inl x \<Rightarrow> refines buf dst x (dechunk d (drop src buf))
      | Inr (d', buf', src', dst') \<Rightarrow>
          (\<forall>r. refines buf' dst' r (dechunk d' (drop src' buf')) \<longrightarrow>
               refines buf dst r (dechunk d (drop src buf)))))"

lemma corresponds_data:
  assumes st: "ck_state d = CHUNKED_IN_CHUNK_DATA" and range: "dst \<le> src" "src \<le> length buf"
  shows "corresponds (d, buf, src, dst)"
proof (cases "length buf - src < bytes_left_in_chunk d")
  case True
  with st range memmove_parts [of dst src "length buf - src" buf] show ?thesis
    by (auto simp: corresponds_def chunk_step.simps dechunk.simps [of d] memmove_if Let_def refines_def)
next
  case False
  let ?n = "bytes_left_in_chunk d"
  from False range have n: "src + ?n \<le> length buf" by simp
  note parts = memmove_parts [OF range(1) n]
  have step: "chunk_step (d, buf, src, dst) =
      Inr (d\<lparr>bytes_left_in_chunk := 0, ck_state := CHUNKED_IN_CHUNK_DATA_EXPECT_CR\<rparr>,
        memmove buf dst src ?n, src + ?n, dst + ?n)"
    using st False range n by (simp add: chunk_step.simps Let_def memmove_if)
  show ?thesis
    using st False range n parts
    by (auto simp: corresponds_def step dechunk.simps [of d] refines_def add.commute split: prod.splits)
qed

lemma chunk_step_corresponds:
  assumes range: "dst \<le> src" "src \<le> length buf"
  shows "corresponds (d, buf, src, dst)"
proof (cases "ck_state d = CHUNKED_IN_CHUNK_DATA")
  case True
  then show ?thesis using range by (rule corresponds_data)
next
  case state: False
  show ?thesis
  proof (cases "src = length buf")
    case True
    with state range show ?thesis
      by (cases "ck_state d") (auto simp: corresponds_def chunk_step.simps dechunk.simps [of d] refines_def)
  next
    case False
    with range have "drop src buf = buf ! src # drop (Suc src) buf" by (simp add: Cons_nth_drop_Suc)
    with state False range show ?thesis
      by (cases "ck_state d")
         (auto simp: corresponds_def chunk_step.simps dechunk.simps [of d] refines_def
           split: option.splits)
  qed
qed

lemma chunk_loop_refines:
  assumes "dst \<le> src" and "src \<le> length buf"
  shows "\<exists>r. chunk_loop (d, buf, src, dst) = Inr r \<and> refines buf dst r (dechunk d (drop src buf))"
  using assms
proof (induction "chunk_rank (d, buf, src, dst)" arbitrary: d buf src dst rule: less_induct)
  case less
  let ?s = "(d, buf, src, dst)"
  have ok: "chunk_conf_ok ?s" using less.prems by (simp add: chunk_conf_ok_def)
  note corr = chunk_step_corresponds [OF less.prems, of d]
  show ?case
  proof (cases "chunk_step ?s")
    case (Inl x)
    with ok corr show ?thesis by (simp add: chunk_loop.simps [of ?s] corresponds_def)
  next
    case (Inr s')
    obtain d' buf' src' dst' where s': "s' = (d', buf', src', dst')" by (cases s')
    from chunk_step_ok [OF ok Inr] have "chunk_rank (d', buf', src', dst') < chunk_rank ?s"
        "dst' \<le> src'" "src' \<le> length buf'" by (auto simp: chunk_conf_ok_def s')
    from less.hyps [OF this] ok corr Inr show ?thesis
      by (auto simp: chunk_loop.simps [of ?s] corresponds_def s')
  qed
qed


subsection \<open>Streaming\<close>

definition prepend ::
  "byte list \<Rightarrow> chunk_exit \<times> chunked_decoder \<times> byte list \<times> byte list \<Rightarrow>
     chunk_exit \<times> chunked_decoder \<times> byte list \<times> byte list" where
  "prepend ds = (\<lambda>(x, d, out, rest). (x, d, ds @ out, rest))"

lemma prepend_simps [simp]:
  "prepend ds (x, d, out, rest) = (x, d, ds @ out, rest)"
  "prepend [] r = r"
  "prepend ds (prepend es r) = prepend (ds @ es) r"
  by (simp_all add: prepend_def split: prod.splits)

lemma dechunk_data:
  "ck_state d = CHUNKED_IN_CHUNK_DATA \<Longrightarrow> bytes_left_in_chunk d \<le> length xs \<Longrightarrow>
     dechunk d xs = prepend (take (bytes_left_in_chunk d) xs)
       (dechunk (d\<lparr>bytes_left_in_chunk := 0, ck_state := CHUNKED_IN_CHUNK_DATA_EXPECT_CR\<rparr>)
         (drop (bytes_left_in_chunk d) xs))"
  by (simp add: dechunk.simps [of d] prepend_def)

lemma dechunk_data_short:
  "ck_state d = CHUNKED_IN_CHUNK_DATA \<Longrightarrow> length xs < bytes_left_in_chunk d \<Longrightarrow>
     dechunk d xs =
       (Incomplete, d\<lparr>bytes_left_in_chunk := bytes_left_in_chunk d - length xs\<rparr>, xs, [])"
  by (simp add: dechunk.simps [of d])

lemma dechunk_Nil:
  "ck_state d \<noteq> CHUNKED_IN_CHUNK_DATA \<Longrightarrow> dechunk d [] = (Incomplete, d, [], [])"
  by (cases "ck_state d") (simp_all add: dechunk.simps [of d "[]"])

text \<open>Going on from a result when more input \<open>ys\<close> arrives.\<close>

definition resume ::
  "chunk_exit \<times> chunked_decoder \<times> byte list \<times> byte list \<Rightarrow> byte list \<Rightarrow>
     chunk_exit \<times> chunked_decoder \<times> byte list \<times> byte list" where
  "resume = (\<lambda>(x, d, out, rest) ys.
     if x = Incomplete then prepend out (dechunk d ys) else (x, d, out, rest @ ys))"

lemma resume_prepend: "resume (prepend ds r) ys = prepend ds (resume r ys)"
  by (simp add: resume_def prepend_def split: prod.splits)

lemma resume_simps:
  "resume (Incomplete, d, out, rest) ys = prepend out (dechunk d ys)"
  "resume (Bad, d, out, rest) ys = (Bad, d, out, rest @ ys)"
  "resume (Done, d, out, rest) ys = (Done, d, out, rest @ ys)"
  by (simp_all add: resume_def)

lemma dechunk_append_data:
  assumes st: "ck_state d = CHUNKED_IN_CHUNK_DATA"
    and IH: "\<not> length xs < bytes_left_in_chunk d \<Longrightarrow>
      dechunk (d\<lparr>bytes_left_in_chunk := 0, ck_state := CHUNKED_IN_CHUNK_DATA_EXPECT_CR\<rparr>)
        (drop (bytes_left_in_chunk d) xs @ ys) =
      resume (dechunk (d\<lparr>bytes_left_in_chunk := 0, ck_state := CHUNKED_IN_CHUNK_DATA_EXPECT_CR\<rparr>)
        (drop (bytes_left_in_chunk d) xs)) ys"
  shows "dechunk d (xs @ ys) = resume (dechunk d xs) ys"
proof (cases "length xs < bytes_left_in_chunk d")
  case True
  let ?d' = "d\<lparr>bytes_left_in_chunk := bytes_left_in_chunk d - length xs\<rparr>"
  have st': "ck_state ?d' = CHUNKED_IN_CHUNK_DATA" using st by simp
  show ?thesis
  proof (cases "length (xs @ ys) < bytes_left_in_chunk d")
    case l: True
    with True st st' show ?thesis by (simp add: dechunk_data_short resume_simps)
  next
    case l: False
    with True st st' show ?thesis by (simp add: dechunk_data_short dechunk_data resume_simps)
  qed
next
  case False
  with st IH [OF False] show ?thesis by (simp add: dechunk_data resume_prepend)
qed

lemma dechunk_append: "dechunk d (xs @ ys) = resume (dechunk d xs) ys"
proof (induction d xs rule: dechunk.induct)
  case (1 d xs)
  show ?case
  proof (cases "ck_state d = CHUNKED_IN_CHUNK_DATA")
    case True
    show ?thesis by (rule dechunk_append_data [OF True]) (use "1.IH" True in auto)
  next
    case state: False
    show ?thesis
    proof (cases xs)
      case Nil
      with state show ?thesis by (simp add: dechunk_Nil resume_simps)
    next
      case (Cons c cs)
      note unfold_here = dechunk.simps [of d "c # cs"] dechunk.simps [of d "c # cs @ ys"]
      note IH = "1.IH" [unfolded Cons]
      show ?thesis
      proof (cases "ck_state d = CHUNKED_IN_CHUNK_SIZE")
        case True
        note size = IH(1) [OF True refl] IH(2) [OF True refl]
        show ?thesis
        proof (cases "decode_hex c")
          case None
          with True Cons size(1) [OF None] show ?thesis by (auto simp: unfold_here resume_simps)
        next
          case (Some v)
          with True Cons size(2) [OF Some] show ?thesis by (auto simp: unfold_here resume_simps)
        qed
      next
        case False
        with state Cons show ?thesis
          by (cases "ck_state d") (simp_all add: unfold_here IH resume_simps)
      qed
    qed
  qed
qed

text \<open>An incomplete result has read all of its input.\<close>

definition settled :: "chunk_exit \<times> chunked_decoder \<times> byte list \<times> byte list \<Rightarrow> bool" where
  "settled = (\<lambda>(x, d, out, rest). x = Incomplete \<longrightarrow> rest = [])"

lemma settled_simps [simp]:
  "settled (x, d, out, [])"
  "settled (Bad, d, out, rest)"
  "settled (Done, d, out, rest)"
  "settled (prepend ds r) = settled r"
  by (simp_all add: settled_def prepend_def split: prod.splits)

lemma dechunk_settled: "settled (dechunk d xs)"
proof (induction d xs rule: dechunk.induct)
  case (1 d xs)
  show ?case
  proof (cases "ck_state d = CHUNKED_IN_CHUNK_DATA")
    case True
    show ?thesis
    proof (cases "length xs < bytes_left_in_chunk d")
      case short: True
      with True show ?thesis by (simp add: dechunk_data_short)
    next
      case False
      have "settled (dechunk (d\<lparr>bytes_left_in_chunk := 0, ck_state := CHUNKED_IN_CHUNK_DATA_EXPECT_CR\<rparr>)
          (drop (bytes_left_in_chunk d) xs))"
        using "1.IH" True False by blast
      with True False show ?thesis by (simp add: dechunk_data)
    qed
  next
    case state: False
    show ?thesis
    proof (cases xs)
      case Nil
      with state show ?thesis by (simp add: dechunk_Nil)
    next
      case (Cons c cs)
      note IH = "1.IH" [unfolded Cons]
      show ?thesis
      proof (cases "ck_state d = CHUNKED_IN_CHUNK_SIZE")
        case True
        note size = IH(1) [OF True refl] IH(2) [OF True refl]
        with True Cons show ?thesis
          by (cases "decode_hex c") (auto simp: dechunk.simps [of d "c # cs"])
      next
        case False
        with state Cons show ?thesis
          by (cases "ck_state d") (simp_all add: dechunk.simps [of d "c # cs"] IH)
      qed
    qed
  qed
qed

lemma dechunk_incomplete_rest: "dechunk d xs = (Incomplete, d', out, rest) \<Longrightarrow> rest = []"
  using dechunk_settled [of d xs] by (simp add: settled_def)


subsection \<open>Well-formed chunked bodies\<close>

text \<open>
  A size is a non-empty string of at most 16 hexadecimal digits; what may stand between
  it and its line end starts with a blank, a tab or a semicolon and holds no line end. A
  body is a list of chunks, a last chunk of size 0, trailer lines and an empty line.
\<close>

definition hex_value :: "nat \<Rightarrow> byte list \<Rightarrow> nat" where
  "hex_value v h = foldl (\<lambda>v c. 16 * v + the (decode_hex c)) v h"

definition is_size :: "byte list \<Rightarrow> nat \<Rightarrow> bool" where
  "is_size h n \<longleftrightarrow>
     h \<noteq> [] \<and> length h \<le> 16 \<and> list_all (\<lambda>c. decode_hex c \<noteq> None) h \<and> hex_value 0 h = n"

definition is_extension :: "byte list \<Rightarrow> bool" where
  "is_extension e \<longleftrightarrow>
     (e = [] \<or> hd e = 32 \<or> hd e = 9 \<or> hd e = 59) \<and> list_all (\<lambda>c. c \<noteq> 13 \<and> c \<noteq> 10) e"

definition is_trailer :: "byte list \<Rightarrow> bool" where
  "is_trailer l \<longleftrightarrow> l \<noteq> [] \<and> hd l \<noteq> 13 \<and> list_all (\<lambda>c. c \<noteq> 10) l"

type_synonym chunk = "byte list \<times> byte list \<times> byte list"

definition is_chunk :: "chunk \<Rightarrow> bool" where
  "is_chunk = (\<lambda>(h, e, ds). is_size h (length ds) \<and> is_extension e \<and> ds \<noteq> [])"

definition chunk_text :: "chunk \<Rightarrow> byte list" where
  "chunk_text = (\<lambda>(h, e, ds). h @ e @ [13, 10] @ ds @ [13, 10])"

definition chunk_data :: "chunk \<Rightarrow> byte list" where
  "chunk_data = (\<lambda>(h, e, ds). ds)"

definition chunked_text :: "chunk list \<Rightarrow> byte list \<Rightarrow> byte list \<Rightarrow> byte list list \<Rightarrow> byte list" where
  "chunked_text cks h e trailers =
     concat (map chunk_text cks) @ h @ e @ [13, 10] @ concat (map (\<lambda>l. l @ [10]) trailers) @ [13, 10]"

lemma decode_hex_bound: "decode_hex c = Some v \<Longrightarrow> v < 16"
  by (auto simp: decode_hex_def word_le_nat_alt split: if_splits)

lemma after_size_not_hex: "after_size c \<Longrightarrow> decode_hex c = None"
  by (auto simp: after_size_def decode_hex_def)

text \<open>Reading the digits: the value never reaches \<open>2 ^ 64\<close>.\<close>

lemma dechunk_digits:
  assumes "ck_state d = CHUNKED_IN_CHUNK_SIZE" and "list_all (\<lambda>c. decode_hex c \<noteq> None) h"
    and "hex_count d + length h \<le> 16" and "bytes_left_in_chunk d < 16 ^ hex_count d"
  shows "dechunk d (h @ xs) =
    dechunk (d\<lparr>bytes_left_in_chunk := hex_value (bytes_left_in_chunk d) h,
               hex_count := hex_count d + length h\<rparr>) xs"
  using assms
proof (induction h arbitrary: d)
  case Nil
  then show ?case by (simp add: hex_value_def)
next
  case (Cons c h)
  from Cons.prems(2) obtain v where v: "decode_hex c = Some v" by auto
  let ?n = "bytes_left_in_chunk d" and ?k = "hex_count d"
  have vb: "v < 16" using v by (rule decode_hex_bound)
  have "16 * ?n + v < 16 * 16 ^ ?k" using Cons.prems(4) vb by simp
  then have val: "16 * ?n + v < 16 ^ Suc ?k" by simp
  have "(16::nat) ^ Suc ?k \<le> 16 ^ 16" using Cons.prems(3) by (intro power_increasing) auto
  with val have "16 * ?n + v < sz_modulus" by (simp add: sz_modulus_def)
  then have sum: "sz_add (sz_mul ?n 16) v = 16 * ?n + v"
    by (simp add: sz_add_small sz_mul_small mult.commute)
  let ?d = "d\<lparr>bytes_left_in_chunk := 16 * ?n + v, hex_count := Suc ?k\<rparr>"
  have "dechunk d ((c # h) @ xs) = dechunk ?d (h @ xs)"
    using Cons.prems(1,3) v sum by (simp add: dechunk.simps [of d "c # h @ xs"])
  also have "\<dots> = dechunk (?d\<lparr>bytes_left_in_chunk := hex_value (16 * ?n + v) h,
      hex_count := Suc ?k + length h\<rparr>) xs"
    using Cons.IH [of ?d] Cons.prems val by simp
  finally show ?case using v by (simp add: hex_value_def)
qed

lemma dechunk_extension:
  assumes "ck_state d = CHUNKED_IN_CHUNK_EXT" and "list_all (\<lambda>c. c \<noteq> 13 \<and> c \<noteq> 10) e"
  shows "dechunk d (e @ 13 # xs) = dechunk (d\<lparr>ck_state := CHUNKED_IN_CHUNK_HEADER_EXPECT_LF\<rparr>) xs"
  using assms(2)
proof (induction e)
  case Nil
  with assms(1) show ?case by (simp add: dechunk.simps [of d "13 # xs"])
next
  case (Cons c e)
  with assms(1) show ?case by (simp add: dechunk.simps [of d "c # e @ 13 # xs"])
qed

lemma dechunk_middle:
  assumes "ck_state d = CHUNKED_IN_TRAILERS_LINE_MIDDLE" and "list_all (\<lambda>c. c \<noteq> 10) l"
  shows "dechunk d (l @ 10 # xs) = dechunk (d\<lparr>ck_state := CHUNKED_IN_TRAILERS_LINE_HEAD\<rparr>) xs"
  using assms(2)
proof (induction l)
  case Nil
  with assms(1) show ?case by (simp add: dechunk.simps [of d "10 # xs"])
next
  case (Cons c l)
  with assms(1) show ?case by (simp add: dechunk.simps [of d "c # l @ 10 # xs"])
qed

text \<open>The decoder between chunks: ready to read a size.\<close>

definition between :: "chunked_decoder \<Rightarrow> bool" where
  "between d \<longleftrightarrow> ck_state d = CHUNKED_IN_CHUNK_SIZE \<and> bytes_left_in_chunk d = 0 \<and> hex_count d = 0"

lemma after_size_after_extension:
  "is_extension e \<Longrightarrow> \<exists>c cs. e @ 13 # xs = c # cs \<and> after_size c"
  by (cases e) (auto simp: is_extension_def after_size_def)

text \<open>The size line: digits, extension, line end.\<close>

lemma dechunk_size_line:
  assumes "between d" and "is_size h n" and "is_extension e"
  shows "dechunk d (h @ e @ 13 # xs) =
    dechunk (d\<lparr>bytes_left_in_chunk := n, ck_state := CHUNKED_IN_CHUNK_HEADER_EXPECT_LF\<rparr>) xs"
proof -
  let ?d = "d\<lparr>bytes_left_in_chunk := n, hex_count := length h\<rparr>"
  have st: "ck_state d = CHUNKED_IN_CHUNK_SIZE" using assms(1) by (simp add: between_def)
  obtain c cs where c: "e @ 13 # xs = c # cs" "after_size c"
    using after_size_after_extension [OF assms(3)] by blast
  have "dechunk d (h @ e @ 13 # xs) = dechunk ?d (e @ 13 # xs)"
    using dechunk_digits [OF st, of h "e @ 13 # xs"] assms(1,2)
    by (simp add: between_def is_size_def)
  also have "\<dots> = dechunk (?d\<lparr>hex_count := 0, ck_state := CHUNKED_IN_CHUNK_EXT\<rparr>) (e @ 13 # xs)"
    using st assms(2) after_size_not_hex [OF c(2)] c(2) unfolding c(1)
    by (simp add: dechunk.simps [of ?d "c # cs"] is_size_def)
  also have "\<dots> = dechunk (?d\<lparr>hex_count := 0, ck_state := CHUNKED_IN_CHUNK_HEADER_EXPECT_LF\<rparr>) xs"
    using assms(3) by (subst dechunk_extension) (simp_all add: is_extension_def)
  moreover have "?d\<lparr>hex_count := 0, ck_state := CHUNKED_IN_CHUNK_HEADER_EXPECT_LF\<rparr> =
      d\<lparr>bytes_left_in_chunk := n, ck_state := CHUNKED_IN_CHUNK_HEADER_EXPECT_LF\<rparr>"
    using assms(1) by (cases d) (simp add: between_def)
  ultimately show ?thesis by simp
qed

lemma dechunk_chunk:
  assumes "between d" and "is_chunk ck"
  shows "dechunk d (chunk_text ck @ xs) = prepend (chunk_data ck) (dechunk d xs)"
proof -
  obtain h e ds where ck: "ck = (h, e, ds)" by (cases ck)
  with assms(2) have parts: "is_size h (length ds)" "is_extension e" "ds \<noteq> []"
    by (simp_all add: is_chunk_def)
  let ?n = "length ds"
  let ?d = "\<lambda>n s. d\<lparr>bytes_left_in_chunk := n, ck_state := s\<rparr>"
  have same: "?d 0 CHUNKED_IN_CHUNK_SIZE = d" using assms(1) by (simp add: between_def)
  have "dechunk d (chunk_text ck @ xs) =
      dechunk (?d ?n CHUNKED_IN_CHUNK_HEADER_EXPECT_LF) (10 # ds @ 13 # 10 # xs)"
    using dechunk_size_line [OF assms(1) parts(1,2)] by (simp add: ck chunk_text_def)
  also have "\<dots> = dechunk (?d ?n CHUNKED_IN_CHUNK_DATA) (ds @ 13 # 10 # xs)"
    using parts(3) by (simp add: dechunk.simps [of "?d ?n CHUNKED_IN_CHUNK_HEADER_EXPECT_LF" "_ # _"])
  also have "\<dots> = prepend ds (dechunk (?d 0 CHUNKED_IN_CHUNK_DATA_EXPECT_CR) (13 # 10 # xs))"
    by (simp add: dechunk_data)
  also have "\<dots> = prepend ds (dechunk (?d 0 CHUNKED_IN_CHUNK_DATA_EXPECT_LF) (10 # xs))"
    by (simp add: dechunk.simps [of "?d 0 CHUNKED_IN_CHUNK_DATA_EXPECT_CR" "_ # _"])
  also have "\<dots> = prepend ds (dechunk (?d 0 CHUNKED_IN_CHUNK_SIZE) xs)"
    by (simp add: dechunk.simps [of "?d 0 CHUNKED_IN_CHUNK_DATA_EXPECT_LF" "_ # _"])
  finally show ?thesis by (simp only: same ck chunk_data_def prod.case)
qed

lemma dechunk_chunks:
  assumes "between d" and "list_all is_chunk cks"
  shows "dechunk d (concat (map chunk_text cks) @ xs) = prepend (concat (map chunk_data cks)) (dechunk d xs)"
  using assms(2) by (induction cks) (simp_all add: dechunk_chunk [OF assms(1)])

lemma dechunk_trailers:
  assumes "ck_state d = CHUNKED_IN_TRAILERS_LINE_HEAD" and "list_all is_trailer ls"
  shows "dechunk d (concat (map (\<lambda>l. l @ [10]) ls) @ 13 # 10 # xs) = (Done, d, [], xs)"
  using assms(2)
proof (induction ls)
  case Nil
  with assms(1) show ?case
    by (simp add: dechunk.simps [of d "13 # 10 # xs"] dechunk.simps [of d "10 # xs"])
next
  case (Cons l ls)
  then obtain c l' where l: "l = c # l'" "c \<noteq> 13" "c \<noteq> 10" "list_all (\<lambda>c. c \<noteq> 10) l'"
    by (cases l) (auto simp: is_trailer_def)
  let ?rest = "concat (map (\<lambda>l. l @ [10]) ls) @ 13 # 10 # xs"
  let ?d = "d\<lparr>ck_state := CHUNKED_IN_TRAILERS_LINE_MIDDLE\<rparr>"
  have head: "d\<lparr>ck_state := CHUNKED_IN_TRAILERS_LINE_HEAD\<rparr> = d" using assms(1) by simp
  have "dechunk d (c # l' @ 10 # ?rest) = dechunk ?d (l' @ 10 # ?rest)"
    using assms(1) l by (simp add: dechunk.simps [of d "c # l' @ 10 # ?rest"])
  also have "\<dots> = dechunk d ?rest"
    using l by (simp add: dechunk_middle head)
  finally show ?case using Cons by (simp add: l)
qed

text \<open>A whole body, and what follows it.\<close>

lemma dechunk_body:
  assumes "between d" and "consume_trailer d" and "list_all is_chunk cks"
    and "is_size h 0" and "is_extension e" and "list_all is_trailer ls"
  shows "dechunk d (chunked_text cks h e ls @ xs) =
    (Done, d\<lparr>ck_state := CHUNKED_IN_TRAILERS_LINE_HEAD\<rparr>, concat (map chunk_data cks), xs)"
proof -
  let ?tail = "concat (map (\<lambda>l. l @ [10]) ls) @ 13 # 10 # xs"
  let ?d = "d\<lparr>ck_state := CHUNKED_IN_CHUNK_HEADER_EXPECT_LF\<rparr>"
  have zero: "d\<lparr>bytes_left_in_chunk := 0, ck_state := s\<rparr> = d\<lparr>ck_state := s\<rparr>" for s
    using assms(1) by (simp add: between_def)
  have "dechunk d (h @ e @ 13 # 10 # ?tail) = dechunk ?d (10 # ?tail)"
    using dechunk_size_line [OF assms(1,4,5)] by (simp add: zero)
  also have "\<dots> = dechunk (d\<lparr>ck_state := CHUNKED_IN_TRAILERS_LINE_HEAD\<rparr>) ?tail"
    using assms(1,2) by (simp add: dechunk.simps [of ?d "10 # ?tail"] between_def)
  also have "\<dots> = (Done, d\<lparr>ck_state := CHUNKED_IN_TRAILERS_LINE_HEAD\<rparr>, [], xs)"
    by (rule dechunk_trailers) (simp_all add: assms(6))
  finally show ?thesis
    by (simp add: chunked_text_def dechunk_chunks [OF assms(1,3)])
qed


subsection \<open>The call\<close>

lemma memmove_tail:
  "dst \<le> src \<Longrightarrow> src \<le> length buf \<Longrightarrow>
     memmove buf dst src (length buf - src) =
       take dst buf @ drop src buf @ drop (dst + (length buf - src)) buf"
  by (simp add: memmove_def)

lemma memmove_tail_prefix:
  assumes "dst \<le> src" and "src \<le> length buf" and "take dst buf = out" and "drop src buf = rest"
  shows "take (dst + length rest) (if dst \<noteq> src then memmove buf dst src (length buf - src) else buf)
           = out @ rest"
proof -
  have "take (dst + length rest) (memmove buf dst src (length buf - src)) = out @ rest"
    using assms by (auto simp: memmove_tail)
  moreover have "take (dst + length rest) buf = out @ rest" if "dst = src"
    using assms that by auto
  ultimately show ?thesis by simp
qed

text \<open>
  The call never leaves the buffer. It returns -2, -1 or the number of bytes after the
  body, and the decoded bytes stand at the front of the buffer, the unread ones after them.
\<close>

lemma phr_decode_chunked_spec:
  assumes "dechunk (d\<lparr>total_read := sz_add (total_read d) (length buf)\<rparr>) buf = (x, d', out, rest)"
  obtains d2 buf2 ret where
    "phr_decode_chunked d buf = Inr (d2, buf2, length out, ret)"
    "length buf2 = length buf"
    "take (length out + length rest) buf2 = out @ rest"
    "length out + length rest \<le> length buf"
    "x = Done \<Longrightarrow> ret = int (length rest) \<and> d2 = d'"
    "x = Bad \<Longrightarrow> ret = -1 \<and> d2 = d'"
    "x = Incomplete \<Longrightarrow> (ret = -2 \<or> ret = -1) \<and>
       d2 = d'\<lparr>total_overhead := sz_add (total_overhead d') (length buf - length out)\<rparr>"
proof -
  let ?d0 = "d\<lparr>total_read := sz_add (total_read d) (length buf)\<rparr>"
  obtain r where r: "chunk_loop (?d0, buf, 0, 0) = Inr r" "refines buf 0 r (x, d', out, rest)"
    using chunk_loop_refines [of 0 0 buf ?d0] assms by auto
  obtain d1 buf1 src where s: "r = (x, d1, buf1, src, length out)" "d1 = d'"
      "take (length out) buf1 = out" "drop src buf1 = rest" "length out \<le> src"
      "src \<le> length buf1" "length buf1 = length buf"
    using r(2) by (cases r) (auto simp: refines_def)
  have len: "length buf1 - src = length rest" using s by auto
  note front = memmove_tail_prefix [OF s(5,6,3,4)]
  let ?buf2 = "if length out \<noteq> src then memmove buf1 (length out) src (length buf1 - src) else buf1"
  have len2: "length ?buf2 = length buf"
    using s by (simp add: memmove_tail)
  note call = phr_decode_chunked_def [of d buf] r(1) s(1,2) Let_def
  show thesis
  proof (cases x)
    case Incomplete
    let ?d2 = "d'\<lparr>total_overhead := sz_add (total_overhead d') (length buf - length out)\<rparr>"
    have "\<exists>ret. phr_decode_chunked d buf = Inr (?d2, ?buf2, length out, ret) \<and> (ret = -2 \<or> ret = -1)"
      using Incomplete by (auto simp: call)
    then obtain ret where ret: "phr_decode_chunked d buf = Inr (?d2, ?buf2, length out, ret)"
      "ret = -2 \<or> ret = -1" by blast
    show thesis by (rule that [OF ret(1) len2]) (use Incomplete front ret(2) len s in auto)
  next
    case Bad
    then have ret: "phr_decode_chunked d buf = Inr (d', ?buf2, length out, -1)" by (simp add: call)
    show thesis by (rule that [OF ret len2]) (use Bad front len s in auto)
  next
    case Done
    then have ret: "phr_decode_chunked d buf = Inr (d', ?buf2, length out, int (length rest))"
      by (simp add: call len)
    show thesis by (rule that [OF ret len2]) (use Done front len s in auto)
  qed
qed

end
