(* ===== verification/Buffer.thy ===== *)
theory Buffer
  imports Prelude
begin

section \<open>The static buffer (\<open>src/buffer.cpp\<close>)\<close>

text \<open>
  \<open>StaticBuffer<bufSize>\<close>: an array with a read and a write cursor. The template
  parameter is the length of the array. A \<open>std::span\<close> into the array is the pair of
  its offset and its size; \<open>span_write\<close> is what a holder of the writable span does
  with it (the socket, or a message), and \<open>span_read\<close> gives the bytes of a span.
\<close>

record static_buffer =
  sb_buffer :: "byte list"
  sb_read :: nat
  sb_write :: nat

type_synonym span = "nat \<times> nat"

definition static_buffer_new :: "nat \<Rightarrow> static_buffer" where
  "static_buffer_new bufSize = \<lparr>sb_buffer = replicate bufSize 0, sb_read = 0, sb_write = 0\<rparr>"

definition sb_size :: "static_buffer \<Rightarrow> nat" where
  "sb_size b = sz_sub (sb_write b) (sb_read b)"

definition sb_empty :: "static_buffer \<Rightarrow> bool" where
  "sb_empty b = (sb_size b = 0)"

definition writableSpan :: "static_buffer \<Rightarrow> span" where
  "writableSpan b = (sb_write b, sz_sub (length (sb_buffer b)) (sb_write b))"

definition commit :: "static_buffer \<Rightarrow> nat \<Rightarrow> static_buffer" where
  "commit b n =
     (let b1 = b\<lparr>sb_write := sz_add (sb_write b) n\<rparr>
      in if length (sb_buffer b1) < sb_write b1 then b1\<lparr>sb_write := length (sb_buffer b1)\<rparr> else b1)"

definition readableSpan :: "static_buffer \<Rightarrow> span" where
  "readableSpan b = (sb_read b, sz_sub (sb_write b) (sb_read b))"

definition consume :: "static_buffer \<Rightarrow> nat \<Rightarrow> static_buffer" where
  "consume b n =
     (let b1 = b\<lparr>sb_read := sz_add (sb_read b) n\<rparr>
      in if sb_write b1 \<le> sb_read b1 then b1\<lparr>sb_read := 0, sb_write := 0\<rparr> else b1)"

text \<open>Accesses through the spans.\<close>

definition span_read :: "static_buffer \<Rightarrow> span \<Rightarrow> byte list result" where
  "span_read b s = mem_load (sb_buffer b) (fst s) (snd s)"

definition span_write :: "static_buffer \<Rightarrow> span \<Rightarrow> byte list \<Rightarrow> static_buffer result" where
  "span_write b s ds =
     (if snd s < length ds then Inl Undefined_behaviour
      else bind_result (mem_store (sb_buffer b) (fst s) ds) (\<lambda>arr. Inr (b\<lparr>sb_buffer := arr\<rparr>)))"

text \<open>Write some bytes to the writable span, then commit them.\<close>

definition fill :: "static_buffer \<Rightarrow> byte list \<Rightarrow> static_buffer result" where
  "fill b ds = bind_result (span_write b (writableSpan b) ds) (\<lambda>b1. Inr (commit b1 (length ds)))"


subsection \<open>The invariant and the abstraction\<close>

text \<open>
  The cursors are ordered and inside the array, and an empty buffer has both at 0, so
  that all of the array is writable again. The bytes between the cursors are the
  content, a first-in first-out queue.
\<close>

definition sb_inv :: "static_buffer \<Rightarrow> bool" where
  "sb_inv b \<longleftrightarrow> sb_read b \<le> sb_write b \<and> sb_write b \<le> length (sb_buffer b) \<and>
     length (sb_buffer b) < sz_modulus \<and> (sb_read b = sb_write b \<longrightarrow> sb_write b = 0)"

definition content :: "static_buffer \<Rightarrow> byte list" where
  "content b = take (sb_write b - sb_read b) (drop (sb_read b) (sb_buffer b))"

definition room :: "static_buffer \<Rightarrow> nat" where
  "room b = length (sb_buffer b) - sb_write b"

lemma sb_inv_new [intro]: "n < sz_modulus \<Longrightarrow> sb_inv (static_buffer_new n)"
  by (simp add: sb_inv_def static_buffer_new_def)

lemma content_new [simp]: "content (static_buffer_new n) = []"
  by (simp add: content_def static_buffer_new_def)

lemma length_content: "sb_inv b \<Longrightarrow> length (content b) = sb_write b - sb_read b"
  by (auto simp: sb_inv_def content_def)

lemma sb_size_content: "sb_inv b \<Longrightarrow> sb_size b = length (content b)"
  by (auto simp: length_content sb_inv_def sb_size_def sz_sub_small)

lemma sb_empty_content: "sb_inv b \<Longrightarrow> sb_empty b \<longleftrightarrow> content b = []"
  by (simp add: sb_empty_def sb_size_content)

lemma writableSpan_room: "sb_inv b \<Longrightarrow> writableSpan b = (sb_write b, room b)"
  by (auto simp: sb_inv_def writableSpan_def room_def sz_sub_small)

lemma readableSpan_content:
  "sb_inv b \<Longrightarrow> span_read b (readableSpan b) = Inr (content b)"
  by (auto simp: sb_inv_def readableSpan_def span_read_def content_def sz_sub_small mem_load_def)

lemma readableSpan_size: "sb_inv b \<Longrightarrow> snd (readableSpan b) = length (content b)"
  by (auto simp: length_content readableSpan_def sz_sub_small sb_inv_def)

lemma room_empty: "sb_inv b \<Longrightarrow> content b = [] \<Longrightarrow> room b = length (sb_buffer b)"
  using length_content [of b] by (auto simp: room_def sb_inv_def)

lemma content_bound: "sb_inv b \<Longrightarrow> length (content b) \<le> length (sb_buffer b)"
  by (auto simp: length_content sb_inv_def)

lemma full_content: "sb_inv b \<Longrightarrow> room b = 0 \<Longrightarrow> 0 < length (sb_buffer b) \<Longrightarrow> content b \<noteq> []"
  using length_content [of b] by (auto simp: sb_inv_def room_def)

lemma fill_ok:
  assumes inv: "sb_inv b" and fits: "length ds \<le> room b"
  shows "\<exists>b'. fill b ds = Inr b' \<and> sb_inv b' \<and> content b' = content b @ ds \<and>
           room b' = room b - length ds \<and> length (sb_buffer b') = length (sb_buffer b)"
proof -
  let ?arr = "take (sb_write b) (sb_buffer b) @ ds @ drop (sb_write b + length ds) (sb_buffer b)"
  let ?b' = "b\<lparr>sb_buffer := ?arr, sb_write := sb_write b + length ds\<rparr>"
  from inv have cur: "sb_read b \<le> sb_write b" "sb_write b \<le> length (sb_buffer b)"
      "length (sb_buffer b) < sz_modulus"
    by (auto simp: sb_inv_def)
  with fits have le: "sb_write b + length ds \<le> length (sb_buffer b)"
    by (simp add: room_def)
  with cur have "sz_add (sb_write b) (length ds) = sb_write b + length ds"
    by (simp add: sz_simps)
  with fits inv le have eq: "fill b ds = Inr ?b'"
    by (simp add: fill_def span_write_def writableSpan_room mem_store_def commit_def Let_def)
  have "content ?b' = content b @ ds"
    using cur le by (simp add: content_def drop_take)
  moreover have "sb_inv ?b'"
    using inv cur le by (auto simp: sb_inv_def)
  moreover have "room ?b' = room b - length ds"
    using cur le by (simp add: room_def)
  moreover have "length (sb_buffer ?b') = length (sb_buffer b)"
    using cur le by simp
  ultimately show ?thesis using eq by blast
qed

lemma fill_overflow: "sb_inv b \<Longrightarrow> room b < length ds \<Longrightarrow> fill b ds = Inl Undefined_behaviour"
  by (simp add: fill_def span_write_def writableSpan_room)

lemma consume_ok:
  assumes inv: "sb_inv b" and n: "n \<le> length (content b)"
  shows "sb_inv (consume b n)" and "content (consume b n) = drop n (content b)"
    and "length (sb_buffer (consume b n)) = length (sb_buffer b)"
proof -
  from inv have cur: "sb_read b \<le> sb_write b" "sb_write b \<le> length (sb_buffer b)"
      "length (sb_buffer b) < sz_modulus"
    by (auto simp: sb_inv_def)
  with n inv have le: "sb_read b + n \<le> sb_write b"
    by (auto simp: length_content)
  with cur have add: "sz_add (sb_read b) n = sb_read b + n"
    by (simp add: sz_simps)
  show "sb_inv (consume b n)"
    using cur le add by (auto simp: consume_def Let_def sb_inv_def)
  show "content (consume b n) = drop n (content b)"
    using cur le add by (auto simp: consume_def Let_def content_def drop_take add.commute)
  show "length (sb_buffer (consume b n)) = length (sb_buffer b)"
    by (simp add: consume_def Let_def)
qed

lemma consume_all:
  assumes "sb_inv b" and "length (content b) \<le> n" and "sb_read b + n < sz_modulus"
  shows "content (consume b n) = []" and "sb_inv (consume b n)"
  using assms by (auto simp: consume_def Let_def sz_simps content_def sb_inv_def)


subsection \<open>The contract the connection relies on\<close>

text \<open>
  A bounded byte queue: what a producer appends within the room comes out in order, and
  an empty queue has its full capacity back.
\<close>

locale byte_queue =
  fixes inv :: "'q \<Rightarrow> bool"
    and contents :: "'q \<Rightarrow> byte list"
    and space :: "'q \<Rightarrow> nat"
    and capacity :: "'q \<Rightarrow> nat"
    and put :: "'q \<Rightarrow> byte list \<Rightarrow> 'q result"
    and discard :: "'q \<Rightarrow> nat \<Rightarrow> 'q"
  assumes put_ok: "inv q \<Longrightarrow> length ds \<le> space q \<Longrightarrow>
      \<exists>q'. put q ds = Inr q' \<and> inv q' \<and> contents q' = contents q @ ds \<and>
        space q' = space q - length ds \<and> capacity q' = capacity q"
    and put_overflow: "inv q \<Longrightarrow> space q < length ds \<Longrightarrow> put q ds = Inl Undefined_behaviour"
    and discard_inv: "inv q \<Longrightarrow> n \<le> length (contents q) \<Longrightarrow> inv (discard q n)"
    and discard_contents: "inv q \<Longrightarrow> n \<le> length (contents q) \<Longrightarrow>
      contents (discard q n) = drop n (contents q)"
    and discard_capacity: "inv q \<Longrightarrow> capacity (discard q n) = capacity q"
    and space_empty: "inv q \<Longrightarrow> contents q = [] \<Longrightarrow> space q = capacity q"
begin

lemma put_cases:
  assumes "inv q" and "put q ds = Inr q'"
  shows "length ds \<le> space q" and "inv q'" and "contents q' = contents q @ ds"
    and "space q' = space q - length ds" and "capacity q' = capacity q"
proof -
  show le: "length ds \<le> space q"
  proof (rule ccontr)
    assume "\<not> length ds \<le> space q"
    with assms show False by (simp add: put_overflow)
  qed
  show "inv q'" "contents q' = contents q @ ds" "space q' = space q - length ds"
    "capacity q' = capacity q"
    using put_ok [OF assms(1) le] assms(2) by auto
qed

text \<open>Appending and then discarding what was appended to an empty queue frees all of it.\<close>

lemma put_discard_empty:
  assumes "inv q" and "contents q = []" and "length ds \<le> capacity q" and "put q ds = Inr q'"
  shows "contents (discard q' (length ds)) = []"
    and "space (discard q' (length ds)) = capacity q"
proof -
  from put_cases [OF assms(1,4)] assms(2)
  have q': "inv q'" "contents q' = ds" "capacity q' = capacity q" by auto
  then show c: "contents (discard q' (length ds)) = []"
    by (simp add: discard_contents)
  from q' have "inv (discard q' (length ds))" by (simp add: discard_inv)
  from space_empty [OF this c] q' show "space (discard q' (length ds)) = capacity q"
    by (simp add: discard_capacity)
qed

end

interpretation sb: byte_queue sb_inv content room "\<lambda>b. length (sb_buffer b)" fill consume
proof unfold_locales
  show "\<exists>q'. fill q ds = Inr q' \<and> sb_inv q' \<and> content q' = content q @ ds \<and>
      room q' = room q - length ds \<and> length (sb_buffer q') = length (sb_buffer q)"
    if "sb_inv q" "length ds \<le> room q" for q ds
    using fill_ok [OF that] .
  show "length (sb_buffer (consume q n)) = length (sb_buffer q)" for q n
    by (simp add: consume_def Let_def)
qed (auto simp: fill_overflow consume_ok room_empty)

end
