(* ===== verification/Connection.thy ===== *)
theory Connection
  imports Message Buffer
begin

section \<open>Connections (\<open>src/connection.h\<close>)\<close>

text \<open>
  \<open>Connection::read\<close> and \<open>Connection::write\<close>: a message's four operations driven over
  two static buffers and a socket. The socket is the library asio, which is not part of
  the repository: its state is the type \<open>'s\<close> and its two operations are arguments.
  \<open>async_read_some\<close> gets the size of the writable span and answers with an error flag
  and the bytes it put at its front (\<open>n\<close> is their number); \<open>async_write_some\<close> gets the
  bytes of the readable span and answers with an error flag and how many it took.

  The loops of the code may wait for ever on a peer, so they run on fuel: \<open>None\<close> is
  "fuel used up", \<open>Some (Inl f)\<close> a fault, \<open>Some (Inr \<dots>)\<close> a return. How much fuel is
  enough is part of the theorems.
\<close>

datatype ReadState = READ_START | READ_HEADER | READ_BODY
datatype WriteState = WRITE_START | WRITE_HEADER | WRITE_BODY

record 's socket_ops =
  async_read_some :: "'s \<Rightarrow> nat \<Rightarrow> (bool \<times> byte list) \<times> 's"
  async_write_some :: "'s \<Rightarrow> byte list \<Rightarrow> (bool \<times> nat) \<times> 's"

record 's connection =
  cn_socket :: 's
  cn_readBuffer :: static_buffer
  cn_writeBuffer :: static_buffer
  cn_readState :: ReadState
  cn_writeState :: WriteState

definition connection_new :: "'s \<Rightarrow> 's connection" where
  "connection_new s =
     \<lparr>cn_socket = s, cn_readBuffer = static_buffer_new 4096, cn_writeBuffer = static_buffer_new 4096,
      cn_readState = READ_START, cn_writeState = WRITE_START\<rparr>"

text \<open>How one pass of an inner loop ends: go on, message complete, or \<open>co_return err\<close>.\<close>

datatype pass = Continue | Complete | Return Error


subsection \<open>Reading\<close>

text \<open>The top of the outer loop: wait for bytes if the buffer is empty.\<close>

definition read_more :: "'s socket_ops \<Rightarrow> 's connection \<Rightarrow> ('s connection \<times> pass) result" where
  "read_more S c =
     (if sb_empty (cn_readBuffer c) then
        (case async_read_some S (cn_socket c) (snd (writableSpan (cn_readBuffer c))) of
           ((ec, ds), s) \<Rightarrow>
             bind_result (span_write (cn_readBuffer c) (writableSpan (cn_readBuffer c)) ds) (\<lambda>b.
               let c1 = c\<lparr>cn_socket := s, cn_readBuffer := b\<rparr>
               in if ec \<or> length ds = 0 then
                    (if length ds = 0 then Inr (c1, Return (Error_of CONNECTION_ENDED))
                     else Inr (c1, Return (Error_of SOCKET_READ_ERROR)))
                  else Inr (c1\<lparr>cn_readBuffer := commit b (length ds)\<rparr>, Continue)))
      else Inr (c, Continue))"

text \<open>One pass of the inner loop: the header part, then the body part.\<close>

definition read_header_part ::
  "'m MessageLike \<Rightarrow> 's connection \<Rightarrow> 'm \<Rightarrow> ('s connection \<times> 'm \<times> pass) result" where
  "read_header_part M c m =
     (if cn_readState c = READ_HEADER then
        bind_result (span_read (cn_readBuffer c) (readableSpan (cn_readBuffer c))) (\<lambda>data.
        bind_result (consumeHeaderSome M m data) (\<lambda>((err, complete, numBytes), m1).
          if is_error err then Inr (c, m1, Return err)
          else
            let c1 = c\<lparr>cn_readBuffer := consume (cn_readBuffer c) numBytes\<rparr>
            in Inr (if complete then c1\<lparr>cn_readState := READ_BODY\<rparr> else c1, m1, Continue)))
      else Inr (c, m, Continue))"

definition read_body_part ::
  "'m MessageLike \<Rightarrow> 's connection \<Rightarrow> 'm \<Rightarrow> ('s connection \<times> 'm \<times> pass) result" where
  "read_body_part M c m =
     (if cn_readState c = READ_BODY then
        bind_result (span_read (cn_readBuffer c) (readableSpan (cn_readBuffer c))) (\<lambda>data.
        bind_result (consumeBodySome M m data) (\<lambda>((err, complete, numBytes), m1).
          if is_error err then Inr (c, m1, Return err)
          else
            let c1 = c\<lparr>cn_readBuffer := consume (cn_readBuffer c) numBytes\<rparr>
            in if complete then Inr (c1\<lparr>cn_readState := READ_START\<rparr>, m1, Complete)
               else Inr (c1, m1, Continue)))
      else Inr (c, m, Continue))"

definition read_pass ::
  "'m MessageLike \<Rightarrow> 's connection \<Rightarrow> 'm \<Rightarrow> ('s connection \<times> 'm \<times> pass) result" where
  "read_pass M c m =
     bind_result (read_header_part M c m) (\<lambda>(c1, m1, p).
       case p of Continue \<Rightarrow> read_body_part M c1 m1 | _ \<Rightarrow> Inr (c1, m1, p))"

fun read_inner ::
  "nat \<Rightarrow> 'm MessageLike \<Rightarrow> 's connection \<Rightarrow> 'm \<Rightarrow> ('s connection \<times> 'm \<times> pass) result option" where
  "read_inner 0 M c m = None"
| "read_inner (Suc fuel) M c m =
     (if sb_empty (cn_readBuffer c) then Some (Inr (c, m, Continue))
      else
        (case read_pass M c m of
           Inl f \<Rightarrow> Some (Inl f)
         | Inr (c1, m1, Continue) \<Rightarrow> read_inner fuel M c1 m1
         | Inr (c1, m1, p) \<Rightarrow> Some (Inr (c1, m1, p))))"

fun read_outer ::
  "nat \<Rightarrow> 's socket_ops \<Rightarrow> 'm MessageLike \<Rightarrow> 's connection \<Rightarrow> 'm \<Rightarrow>
     ('s connection \<times> 'm \<times> Error) result option" where
  "read_outer 0 S M c m = None"
| "read_outer (Suc fuel) S M c m =
     (case read_more S c of
        Inl f \<Rightarrow> Some (Inl f)
      | Inr (c1, Return e) \<Rightarrow> Some (Inr (c1, m, e))
      | Inr (c1, _) \<Rightarrow>
          (case read_inner fuel M c1 m of
             None \<Rightarrow> None
           | Some (Inl f) \<Rightarrow> Some (Inl f)
           | Some (Inr (c2, m2, Return e)) \<Rightarrow> Some (Inr (c2, m2, e))
           | Some (Inr (c2, m2, Complete)) \<Rightarrow> Some (Inr (c2, m2, Error_none))
           | Some (Inr (c2, m2, Continue)) \<Rightarrow> read_outer fuel S M c2 m2))"

definition connection_read ::
  "nat \<Rightarrow> 's socket_ops \<Rightarrow> 'm MessageLike \<Rightarrow> 's connection \<Rightarrow> 'm \<Rightarrow>
     ('s connection \<times> 'm \<times> Error) result option" where
  "connection_read fuel S M c m =
     (if cn_readState c \<noteq> READ_START then Some (Inr (c, m, Error_of INVALID_STATE))
      else read_outer fuel S M (c\<lparr>cn_readState := READ_HEADER\<rparr>) m)"


subsection \<open>Writing\<close>

definition write_header_part ::
  "'m MessageLike \<Rightarrow> 's connection \<Rightarrow> 'm \<Rightarrow> ('s connection \<times> 'm \<times> pass) result" where
  "write_header_part M c m =
     (if cn_writeState c = WRITE_HEADER then
        bind_result (produceHeaderSome M m (snd (writableSpan (cn_writeBuffer c))))
          (\<lambda>((err, complete, out), m1).
          if is_error err then Inr (c, m1, Return err)
          else
            bind_result (fill (cn_writeBuffer c) out) (\<lambda>b.
              let c1 = c\<lparr>cn_writeBuffer := b\<rparr>
              in Inr (if complete then c1\<lparr>cn_writeState := WRITE_BODY\<rparr> else c1, m1, Continue)))
      else Inr (c, m, Continue))"

definition write_body_part ::
  "'m MessageLike \<Rightarrow> 's connection \<Rightarrow> 'm \<Rightarrow> ('s connection \<times> 'm \<times> pass) result" where
  "write_body_part M c m =
     (if cn_writeState c = WRITE_BODY then
        bind_result (produceBodySome M m (snd (writableSpan (cn_writeBuffer c))))
          (\<lambda>((err, complete, out), m1).
          if is_error err then Inr (c, m1, Return err)
          else
            bind_result (fill (cn_writeBuffer c) out) (\<lambda>b.
              let c1 = c\<lparr>cn_writeBuffer := b\<rparr>
              in if complete then Inr (c1\<lparr>cn_writeState := WRITE_START\<rparr>, m1, Complete)
                 else Inr (c1, m1, Continue)))
      else Inr (c, m, Continue))"

definition write_pass ::
  "'m MessageLike \<Rightarrow> 's connection \<Rightarrow> 'm \<Rightarrow> ('s connection \<times> 'm \<times> pass) result" where
  "write_pass M c m =
     bind_result (write_header_part M c m) (\<lambda>(c1, m1, p).
       case p of Continue \<Rightarrow> write_body_part M c1 m1 | _ \<Rightarrow> Inr (c1, m1, p))"

text \<open>Fill the buffer until the message is complete or the buffer is full.\<close>

fun write_fill ::
  "nat \<Rightarrow> 'm MessageLike \<Rightarrow> 's connection \<Rightarrow> 'm \<Rightarrow> ('s connection \<times> 'm \<times> pass) result option" where
  "write_fill 0 M c m = None"
| "write_fill (Suc fuel) M c m =
     (if snd (writableSpan (cn_writeBuffer c)) = 0 then Some (Inr (c, m, Continue))
      else
        (case write_pass M c m of
           Inl f \<Rightarrow> Some (Inl f)
         | Inr (c1, m1, Continue) \<Rightarrow> write_fill fuel M c1 m1
         | Inr (c1, m1, p) \<Rightarrow> Some (Inr (c1, m1, p))))"

text \<open>Send the buffer to the socket until it is empty.\<close>

fun write_flush ::
  "nat \<Rightarrow> 's socket_ops \<Rightarrow> 's connection \<Rightarrow> ('s connection \<times> pass) result option" where
  "write_flush 0 S c = None"
| "write_flush (Suc fuel) S c =
     (if sb_empty (cn_writeBuffer c) then Some (Inr (c, Continue))
      else
        (case span_read (cn_writeBuffer c) (readableSpan (cn_writeBuffer c)) of
           Inl f \<Rightarrow> Some (Inl f)
         | Inr data \<Rightarrow>
             (case async_write_some S (cn_socket c) data of
                ((ec, n), s) \<Rightarrow>
                  if ec \<or> n = 0 then
                    (if n = 0 then Some (Inr (c\<lparr>cn_socket := s\<rparr>, Return (Error_of CONNECTION_ENDED)))
                     else Some (Inr (c\<lparr>cn_socket := s\<rparr>, Return (Error_of SOCKET_WRITE_ERROR))))
                  else write_flush fuel S
                         (c\<lparr>cn_socket := s, cn_writeBuffer := consume (cn_writeBuffer c) n\<rparr>))))"

fun write_outer ::
  "nat \<Rightarrow> 's socket_ops \<Rightarrow> 'm MessageLike \<Rightarrow> 's connection \<Rightarrow> 'm \<Rightarrow>
     ('s connection \<times> 'm \<times> Error) result option" where
  "write_outer 0 S M c m = None"
| "write_outer (Suc fuel) S M c m =
     (case write_fill fuel M c m of
        None \<Rightarrow> None
      | Some (Inl f) \<Rightarrow> Some (Inl f)
      | Some (Inr (c1, m1, Return e)) \<Rightarrow> Some (Inr (c1, m1, e))
      | Some (Inr (c1, m1, p)) \<Rightarrow>
          (case write_flush fuel S c1 of
             None \<Rightarrow> None
           | Some (Inl f) \<Rightarrow> Some (Inl f)
           | Some (Inr (c2, Return e)) \<Rightarrow> Some (Inr (c2, m1, e))
           | Some (Inr (c2, _)) \<Rightarrow>
               if p = Complete then Some (Inr (c2, m1, Error_none))
               else write_outer fuel S M c2 m1))"

definition connection_write ::
  "nat \<Rightarrow> 's socket_ops \<Rightarrow> 'm MessageLike \<Rightarrow> 's connection \<Rightarrow> 'm \<Rightarrow>
     ('s connection \<times> 'm \<times> Error) result option" where
  "connection_write fuel S M c m =
     (if cn_writeState c \<noteq> WRITE_START then Some (Inr (c, m, Error_of INVALID_STATE))
      else write_outer fuel S M (c\<lparr>cn_writeState := WRITE_HEADER\<rparr>) m)"

end
