(* ===== verification/ConnectionRead.thy ===== *)
theory ConnectionRead
  imports Connection
begin

section \<open>Reading a message\<close>

text \<open>
  A connection that reads a message delivers to it exactly the bytes that come over the
  socket, in order and however they are cut into segments, stops when the message is
  complete, and keeps what follows the message in its buffer for the next read.
\<close>

text \<open>A socket that delivers these segments, whatever room it is offered, and is in state \<open>t\<close> then.\<close>

fun delivers :: "'s socket_ops \<Rightarrow> 's \<Rightarrow> byte list list \<Rightarrow> 's \<Rightarrow> bool" where
  "delivers S s [] t = (s = t)"
| "delivers S s (seg # segs) t =
     (\<forall>n. length seg \<le> n \<longrightarrow>
        (\<exists>s'. async_read_some S s n = ((False, seg), s') \<and> delivers S s' segs t))"

text \<open>
  A connection in the middle of a read whose buffer, of capacity \<open>cap\<close>, holds \<open>d\<close>. The
  write side \<open>w\<close> takes no part in reading.
\<close>

definition write_side :: "'s connection \<Rightarrow> static_buffer \<times> WriteState" where
  "write_side c = (cn_writeBuffer c, cn_writeState c)"

definition holds ::
  "'s connection \<Rightarrow> ReadState \<Rightarrow> byte list \<Rightarrow> nat \<Rightarrow> static_buffer \<times> WriteState \<Rightarrow> bool" where
  "holds c st d cap w \<longleftrightarrow>
     sb_inv (cn_readBuffer c) \<and> content (cn_readBuffer c) = d \<and> cn_readState c = st \<and>
     length (sb_buffer (cn_readBuffer c)) = cap \<and> write_side c = w"

lemma holds_empty: "holds c st d cap w \<Longrightarrow> sb_empty (cn_readBuffer c) \<longleftrightarrow> d = []"
  by (simp add: holds_def sb_empty_content)

lemma holds_span: "holds c st d cap w \<Longrightarrow> span_read (cn_readBuffer c) (readableSpan (cn_readBuffer c)) = Inr d"
  by (auto simp: holds_def readableSpan_content)

lemma holds_consume:
  assumes "holds c st d cap w" and "n \<le> length d"
  shows "holds (c\<lparr>cn_readBuffer := consume (cn_readBuffer c) n\<rparr>) st (drop n d) cap w"
    and "holds (c\<lparr>cn_readBuffer := consume (cn_readBuffer c) n, cn_readState := st'\<rparr>) st' (drop n d) cap w"
  using assms consume_ok [of "cn_readBuffer c" n] by (auto simp: holds_def write_side_def)

lemma holds_state: "holds c st d cap w \<Longrightarrow> cn_readState c = st"
  by (simp add: holds_def)

lemma read_more_segment:
  assumes "holds c st [] cap w" and "delivers S (cn_socket c) (seg # segs) t"
    and "seg \<noteq> []" and "length seg \<le> cap"
  shows "\<exists>c'. read_more S c = Inr (c', Continue) \<and> holds c' st seg cap w \<and> delivers S (cn_socket c') segs t"
proof -
  let ?b = "cn_readBuffer c"
  from assms(1) have inv: "sb_inv ?b" "content ?b = []" "length (sb_buffer ?b) = cap"
    by (simp_all add: holds_def)
  have room: "room ?b = cap" using inv by (simp add: room_empty)
  obtain b' where fill: "fill ?b seg = Inr b'" "sb_inv b'" "content b' = seg" "length (sb_buffer b') = cap"
    using fill_ok [of ?b seg] inv room assms(4) by auto
  from fill(1) obtain b1 where b1: "span_write ?b (writableSpan ?b) seg = Inr b1" "b' = commit b1 (length seg)"
    by (auto simp: fill_def bind_result_Inr_iff)
  have "length seg \<le> snd (writableSpan ?b)" using inv room assms(4) by (simp add: writableSpan_room)
  with assms(2) obtain s' where
    s': "async_read_some S (cn_socket c) (snd (writableSpan ?b)) = ((False, seg), s')" "delivers S s' segs t"
    by auto
  have "read_more S c = Inr (c\<lparr>cn_socket := s', cn_readBuffer := b'\<rparr>, Continue)"
    using holds_empty [OF assms(1)] s'(1) b1 assms(3) by (simp add: read_more_def Let_def)
  moreover have "holds (c\<lparr>cn_socket := s', cn_readBuffer := b'\<rparr>) st seg cap w"
    using fill assms(1) by (simp add: holds_def write_side_def)
  ultimately show ?thesis using s'(2) by fastforce
qed

text \<open>The inner loop stops at once when a pass has emptied the buffer or completed the message.\<close>

lemma read_inner_pass:
  assumes "holds c st d cap w" and "d \<noteq> []" and "read_pass M c m = Inr (c1, m1, p)"
    and "p = Continue \<Longrightarrow> sb_empty (cn_readBuffer c1)"
  shows "read_inner (Suc (Suc fuel)) M c m = Some (Inr (c1, m1, p))"
  using assms holds_empty [OF assms(1)] by (cases p) simp_all

context body_consumer
begin

lemma body_pass_more:
  assumes "holds c READ_BODY d cap w" and "bexp m (d @ b2)" and "b2 \<noteq> []"
  shows "\<exists>c' m'. read_body_part M c m = Inr (c', m', Continue) \<and> holds c' READ_BODY [] cap w \<and>
    bexp m' b2 \<and> cn_socket c' = cn_socket c"
  using body_part [OF assms(2,3)] holds_span [OF assms(1)] holds_state [OF assms(1)]
    holds_consume(1) [OF assms(1), of "length d"]
  by (auto simp: read_body_part_def Let_def)

lemma body_pass_last:
  assumes "holds c READ_BODY (b @ x) cap w" and "bexp m b"
  shows "\<exists>c' m'. read_body_part M c m = Inr (c', m', Complete) \<and> holds c' READ_START x cap w \<and>
    cn_socket c' = cn_socket c \<and> fin m'"
  using body_last [OF assms(2), of x] holds_span [OF assms(1)] holds_state [OF assms(1)]
    holds_consume(2) [OF assms(1), of "length b" READ_START]
  by (auto simp: read_body_part_def Let_def)

lemma read_pass_body: "holds c READ_BODY d cap w \<Longrightarrow> read_pass M c m = read_body_part M c m"
  by (simp add: read_pass_def read_header_part_def holds_def)

text \<open>A read that has returned the complete message and left \<open>x\<close> in the buffer.\<close>

definition read_complete ::
  "('s connection \<times> 'm \<times> Error) result option \<Rightarrow> byte list \<Rightarrow> nat \<Rightarrow>
     static_buffer \<times> WriteState \<Rightarrow> 's \<Rightarrow> bool" where
  "read_complete r x cap w t \<longleftrightarrow>
     (\<exists>c m. r = Some (Inr (c, m, Error_none)) \<and> holds c READ_START x cap w \<and> cn_socket c = t \<and> fin m)"

lemma read_body_segments:
  assumes "holds c READ_BODY [] cap w" and "delivers S (cn_socket c) bsegs t"
    and "\<forall>seg \<in> set bsegs. seg \<noteq> [] \<and> length seg \<le> cap" and "bsegs \<noteq> []"
    and "bexp m b" and "concat bsegs = b @ x" and "length (concat (butlast bsegs)) < length b"
    and "length bsegs + 2 < fuel"
  shows "read_complete (read_outer fuel S M c m) x cap w t"
  using assms
proof (induction bsegs arbitrary: c m b fuel)
  case (Cons seg bsegs)
  then obtain f where fuel: "fuel = Suc (Suc (Suc f))" by (cases fuel; cases "fuel - 1"; cases "fuel - 2") auto
  have seg: "seg \<noteq> []" "length seg \<le> cap" using Cons.prems(3) by simp_all
  obtain c1 where c1: "read_more S c = Inr (c1, Continue)" "holds c1 READ_BODY seg cap w"
      "delivers S (cn_socket c1) bsegs t"
    using read_more_segment [OF Cons.prems(1) Cons.prems(2) [unfolded append_Cons] seg] by blast
  show ?case
  proof (cases "bsegs = []")
    case True
    then have "seg = b @ x" using Cons.prems(6) by simp
    then obtain c2 m2 where r: "read_pass M c1 m = Inr (c2, m2, Complete)" "holds c2 READ_START x cap w"
        "cn_socket c2 = cn_socket c1" "fin m2"
      using body_pass_last [of c1 b x cap w m] c1(2) Cons.prems(5) read_pass_body [OF c1(2)] by auto
    show ?thesis
      using read_inner_pass [OF c1(2) seg(1) r(1), of f] c1(1,3) r(2-4) True
      by (auto simp: fuel read_complete_def)
  next
    case False
    have lt: "length seg + length (concat (butlast bsegs)) < length b"
      using Cons.prems(7) False by simp
    have eq: "seg @ concat bsegs = b @ x" using Cons.prems(6) by simp
    then have "take (length seg) b = seg" and rest: "concat bsegs = drop (length seg) b @ x"
      using lt by (auto simp: append_eq_append_conv_if)
    then have b: "b = seg @ drop (length seg) b" by (metis append_take_drop_id)
    have ne: "drop (length seg) b \<noteq> []" using lt by simp
    obtain c2 m2 where r: "read_pass M c1 m = Inr (c2, m2, Continue)" "holds c2 READ_BODY [] cap w"
        "bexp m2 (drop (length seg) b)" "cn_socket c2 = cn_socket c1"
      using body_pass_more [OF c1(2) _ ne, of m] Cons.prems(5) b read_pass_body [OF c1(2)] by auto
    have "read_complete (read_outer (Suc (Suc f)) S M c2 m2) x cap w t"
      by (rule Cons.IH [OF r(2) _ _ False r(3) rest])
         (use c1(3) r(4) Cons.prems(3,8) lt fuel in simp_all)
    then show ?thesis
      using read_inner_pass [OF c1(2) seg(1) r(1), of f] c1(1) holds_empty [OF r(2)]
      by (simp add: fuel)
  qed
qed simp

end

context header_consumer
begin

lemma header_pass_last:
  assumes "holds c READ_HEADER d cap w" and "d \<noteq> []" and "hexp m d"
  shows "\<exists>c1 m1. holds c1 READ_BODY [] cap w \<and> bexp m1 body \<and> cn_socket c1 = cn_socket c \<and>
    read_pass M c m = read_body_part M c1 m1"
proof -
  obtain m' where m': "consumeHeaderSome M m d = Inr ((Error_none, True, length d), m')" "bexp m' body"
    using header_last [OF assms(3,2)] by blast
  let ?c = "c\<lparr>cn_readBuffer := consume (cn_readBuffer c) (length d), cn_readState := READ_BODY\<rparr>"
  have "holds ?c READ_BODY [] cap w" using holds_consume(2) [OF assms(1), of "length d"] by simp
  moreover have "read_pass M c m = read_body_part M ?c m'"
    using m'(1) holds_span [OF assms(1)] holds_state [OF assms(1)]
    by (simp add: read_pass_def read_header_part_def Let_def)
  ultimately show ?thesis using m'(2) by fastforce
qed

lemma read_header_whole:
  assumes "holds c READ_HEADER [] cap w" and "delivers S (cn_socket c) (h # bsegs) t"
    and "\<forall>seg \<in> set (h # bsegs). seg \<noteq> [] \<and> length seg \<le> cap"
    and "hexp m h" and "concat bsegs = body @ x"
    and "if body = [] then bsegs = [] else length (concat (butlast bsegs)) < length body"
    and "length (h # bsegs) + 2 < fuel"
  shows "read_complete (read_outer fuel S M c m) x cap w t"
proof -
  from assms(7) obtain f where fuel: "fuel = Suc (Suc (Suc f))"
    by (cases fuel; cases "fuel - 1"; cases "fuel - 2") auto
  have seg: "h \<noteq> []" "length h \<le> cap" using assms(3) by simp_all
  obtain c1 where c1: "read_more S c = Inr (c1, Continue)" "holds c1 READ_HEADER h cap w"
      "delivers S (cn_socket c1) bsegs t"
    using read_more_segment [OF assms(1,2) seg] by blast
  from header_pass_last [OF c1(2) seg(1) assms(4)] obtain c2 m2 where
    h: "holds c2 READ_BODY [] cap w" "bexp m2 body" "cn_socket c2 = cn_socket c1"
      "read_pass M c1 m = read_body_part M c2 m2" by blast
  show ?thesis
  proof (cases "body = []")
    case body: True
    with assms(5,6) have x: "x = []" by simp
    obtain c3 m3 where r: "read_pass M c1 m = Inr (c3, m3, Complete)" "holds c3 READ_START [] cap w"
        "cn_socket c3 = cn_socket c2" "fin m3"
      using body_pass_last [of c2 "[]" "[]" cap w m2] h body by auto
    show ?thesis
      using read_inner_pass [OF c1(2) seg(1) r(1), of f] c1(1,3) r(2-4) x h(3) assms(6) body
      by (auto simp: fuel read_complete_def)
  next
    case body: False
    obtain c3 m3 where r: "read_pass M c1 m = Inr (c3, m3, Continue)" "holds c3 READ_BODY [] cap w"
        "bexp m3 body" "cn_socket c3 = cn_socket c2"
      using body_pass_more [of c2 "[]" cap w m2 body] h body by auto
    have ne: "bsegs \<noteq> []" using assms(5) body by auto
    have "read_complete (read_outer (Suc (Suc f)) S M c3 m3) x cap w t"
      by (rule read_body_segments [OF r(2) _ _ ne r(3) assms(5)])
         (use c1(3) h(3) r(4) assms(3,6,7) body fuel in simp_all)
    then show ?thesis
      using read_inner_pass [OF c1(2) seg(1) r(1), of f] c1(1) holds_empty [OF r(2)]
      by (simp add: fuel)
  qed
qed

lemma connection_read_whole_header:
  assumes "holds c READ_START [] cap w" and "delivers S (cn_socket c) (h # bsegs) t"
    and "\<forall>seg \<in> set (h # bsegs). seg \<noteq> [] \<and> length seg \<le> cap"
    and "hexp m h" and "concat bsegs = body @ x"
    and "if body = [] then bsegs = [] else length (concat (butlast bsegs)) < length body"
    and "length (h # bsegs) + 2 < fuel"
  shows "\<exists>c' m'. connection_read fuel S M c m = Some (Inr (c', m', Error_none)) \<and>
    holds c' READ_START x cap w \<and> cn_socket c' = t \<and> fin m'"
proof -
  have "holds (c\<lparr>cn_readState := READ_HEADER\<rparr>) READ_HEADER [] cap w"
    using assms(1) by (simp add: holds_def write_side_def)
  from read_header_whole [OF this _ assms(3-7)] assms(1,2) show ?thesis
    by (auto simp: connection_read_def read_complete_def holds_state)
qed

end

context message_consumer
begin

lemma header_pass_more:
  assumes "holds c READ_HEADER d cap w" and "d \<noteq> []" and "hexp m (d @ h2)" and "h2 \<noteq> []"
  shows "\<exists>c' m'. read_pass M c m = Inr (c', m', Continue) \<and> holds c' READ_HEADER [] cap w \<and>
    hexp m' h2 \<and> cn_socket c' = cn_socket c"
proof -
  obtain m' where m': "consumeHeaderSome M m d = Inr ((Error_none, False, length d), m')" "hexp m' h2"
    using header_part [OF assms(3,2,4)] by blast
  let ?c = "c\<lparr>cn_readBuffer := consume (cn_readBuffer c) (length d)\<rparr>"
  have h: "holds ?c READ_HEADER [] cap w" using holds_consume(1) [OF assms(1), of "length d"] by simp
  have "read_pass M c m = Inr (?c, m', Continue)"
    using m'(1) holds_span [OF assms(1)] holds_state [OF assms(1)]
    by (simp add: read_pass_def read_header_part_def read_body_part_def Let_def)
  with h m'(2) show ?thesis by fastforce
qed

lemma read_header_segments:
  assumes "holds c READ_HEADER [] cap w" and "delivers S (cn_socket c) (hsegs @ bsegs) t"
    and "\<forall>seg \<in> set (hsegs @ bsegs). seg \<noteq> [] \<and> length seg \<le> cap" and "hsegs \<noteq> []"
    and "hexp m (concat hsegs)" and "concat bsegs = body @ x"
    and "if body = [] then bsegs = [] else length (concat (butlast bsegs)) < length body"
    and "length (hsegs @ bsegs) + 2 < fuel"
  shows "read_complete (read_outer fuel S M c m) x cap w t"
  using assms(1-5,8)
proof (induction hsegs arbitrary: c m fuel)
  case (Cons seg hsegs)
  show ?case
  proof (cases "hsegs = []")
    case True
    show ?thesis
      by (rule read_header_whole [OF Cons.prems(1) _ _ _ assms(6,7)]) (use Cons.prems(2-6) True in simp_all)
  next
    case False
    then obtain f where fuel: "fuel = Suc (Suc (Suc f))"
      using Cons.prems(6) by (cases fuel; cases "fuel - 1"; cases "fuel - 2") auto
    have seg: "seg \<noteq> []" "length seg \<le> cap" using Cons.prems(3) by simp_all
    obtain c1 where c1: "read_more S c = Inr (c1, Continue)" "holds c1 READ_HEADER seg cap w"
        "delivers S (cn_socket c1) (hsegs @ bsegs) t"
      using read_more_segment [OF Cons.prems(1) Cons.prems(2) [unfolded append_Cons] seg] by blast
    have ne: "concat hsegs \<noteq> []" using False Cons.prems(3) by (cases hsegs) auto
    obtain c2 m2 where r: "read_pass M c1 m = Inr (c2, m2, Continue)" "holds c2 READ_HEADER [] cap w"
        "hexp m2 (concat hsegs)" "cn_socket c2 = cn_socket c1"
      using header_pass_more [OF c1(2) seg(1) _ ne, of m] Cons.prems(5) by auto
    have "read_complete (read_outer (Suc (Suc f)) S M c2 m2) x cap w t"
      by (rule Cons.IH [OF r(2) _ _ False r(3)]) (use c1(3) r(4) Cons.prems(3,6) fuel in simp_all)
    then show ?thesis
      using read_inner_pass [OF c1(2) seg(1) r(1), of f] c1(1) holds_empty [OF r(2)]
      by (simp add: fuel)
  qed
qed simp

lemma connection_read_ok:
  assumes "holds c READ_START [] cap w" and "delivers S (cn_socket c) (hsegs @ bsegs) t"
    and "\<forall>seg \<in> set (hsegs @ bsegs). seg \<noteq> [] \<and> length seg \<le> cap" and "hsegs \<noteq> []"
    and "hexp m (concat hsegs)" and "concat bsegs = body @ x"
    and "if body = [] then bsegs = [] else length (concat (butlast bsegs)) < length body"
    and "length (hsegs @ bsegs) + 2 < fuel"
  shows "\<exists>c' m'. connection_read fuel S M c m = Some (Inr (c', m', Error_none)) \<and>
    holds c' READ_START x cap w \<and> cn_socket c' = t \<and> fin m'"
proof -
  have "holds (c\<lparr>cn_readState := READ_HEADER\<rparr>) READ_HEADER [] cap w"
    using assms(1) by (simp add: holds_def write_side_def)
  from read_header_segments [OF this _ assms(3-8)] assms(1,2) show ?thesis
    by (auto simp: connection_read_def read_complete_def holds_state)
qed

end

end
