(* ===== verification/HttpRequestSpec.thy ===== *)
theory HttpRequestSpec
  imports HttpRequest PhrRequestSpec PhrChunkedSpec ConnectionRead
begin

section \<open>What a request does with the bytes it is given\<close>

subsection \<open>The scan for the empty line\<close>

definition scan :: "byte list \<Rightarrow> byte \<times> 8 word" where
  "scan t = foldl scan_step (0, 0) t"

text \<open>No prefix of the bytes brings the count to 4.\<close>

fun quiet :: "byte \<times> 8 word \<Rightarrow> byte list \<Rightarrow> bool" where
  "quiet st [] = True"
| "quiet st (c # cs) = (snd (scan_step st c) \<noteq> 4 \<and> quiet (scan_step st c) cs)"

text \<open>The bytes end with the empty line, and it is the first one.\<close>

definition header_ends :: "byte list \<Rightarrow> bool" where
  "header_ends t \<longleftrightarrow> t \<noteq> [] \<and> quiet (0, 0) (butlast t) \<and> snd (scan t) = 4"

lemma quiet_append: "quiet st (xs @ ys) \<longleftrightarrow> quiet st xs \<and> quiet (foldl scan_step st xs) ys"
  by (induction xs arbitrary: st) auto

lemma scan_append: "scan (xs @ ys) = foldl scan_step (scan xs) ys"
  by (simp add: scan_def)

lemma header_scan_quiet:
  "quiet st xs \<Longrightarrow> header_scan st n i (xs @ ys) = header_scan (foldl scan_step st xs) n (i + length xs) ys"
  by (induction xs arbitrary: st i) (auto simp: Let_def)

lemma header_scan_all_quiet: "quiet st xs \<Longrightarrow> header_scan st n i xs = (foldl scan_step st xs, n)"
  using header_scan_quiet [of st xs n i "[]"] by simp

lemma header_scan_end:
  assumes "xs \<noteq> []" and "quiet st (butlast xs)" and "snd (foldl scan_step st xs) = 4"
  shows "header_scan st n i xs = (foldl scan_step st xs, i + length xs)"
proof -
  obtain ys c where xs: "xs = ys @ [c]" using assms(1) by (cases xs rule: rev_cases) auto
  with assms(3) have "snd (scan_step (foldl scan_step st ys) c) = 4" by simp
  moreover have "quiet st ys" using assms(2) xs by simp
  ultimately show ?thesis by (simp add: xs header_scan_quiet Let_def)
qed

text \<open>The text of a request ends its header, and at its end only.\<close>

definition plain :: "byte list \<Rightarrow> bool" where
  "plain s \<longleftrightarrow> list_all (\<lambda>c. c \<noteq> 13 \<and> c \<noteq> 10) s"

lemma scan_plain:
  "plain s \<Longrightarrow> s \<noteq> [] \<Longrightarrow> \<exists>c. foldl scan_step st s = (c, 0) \<and> c \<noteq> 13 \<and> quiet st s"
proof (induction s arbitrary: st)
  case (Cons c s)
  obtain p k where st: "st = (p, k)" by (cases st)
  from Cons.prems have c: "c \<noteq> 13" "c \<noteq> 10" "plain s" by (simp_all add: plain_def)
  with Cons.IH [of "(c, 0)"] show ?case by (cases "s = []") (auto simp: st)
qed simp

lemma scan_line:
  assumes "plain s" and "s \<noteq> []"
  shows "foldl scan_step st (s @ [13, 10]) = (10, 2)" and "quiet st (s @ [13, 10])"
  using scan_plain [OF assms, of st] by (auto simp: quiet_append)

lemma scan_lines:
  "list_all (\<lambda>s. plain s \<and> s \<noteq> []) ls \<Longrightarrow>
     foldl scan_step (10, 2) (concat (map (\<lambda>s. s @ [13, 10]) ls)) = (10, 2) \<and>
     quiet (10, 2) (concat (map (\<lambda>s. s @ [13, 10]) ls))"
proof (induction ls)
  case (Cons s ls)
  then show ?case
    using scan_line [of s "(10, 2)"] by (simp add: quiet_append)
qed simp

lemma header_ends_lines:
  assumes "list_all (\<lambda>s. plain s \<and> s \<noteq> []) (l # ls)"
  shows "header_ends (concat (map (\<lambda>s. s @ [13, 10]) (l # ls)) @ [13, 10])"
proof -
  let ?t = "concat (map (\<lambda>s. s @ [13, 10]) (l # ls))"
  have t: "foldl scan_step (0, 0) ?t = (10, 2)" "quiet (0, 0) ?t"
    using assms scan_line [of l "(0, 0)"] scan_lines [of ls] by (simp_all add: quiet_append)
  have "butlast (?t @ [13, 10]) = ?t @ [13]" by (simp add: butlast_append)
  with t show ?thesis by (simp add: header_ends_def quiet_append scan_def del: concat.simps list.map)
qed

lemma token_plain: "list_all is_token_char s \<Longrightarrow> plain s"
  using separators_no_token by (auto simp: plain_def list_all_iff)

lemma value_plain: "list_all (\<lambda>c. \<not> is_ctl c) s \<Longrightarrow> plain s"
  by (auto simp: plain_def list_all_iff is_ctl_def)

lemma target_plain: "is_target s \<Longrightarrow> plain s"
  by (auto simp: plain_def list_all_iff is_target_def)

lemma plain_append: "plain (a @ b) \<longleftrightarrow> plain a \<and> plain b"
  by (auto simp: plain_def)

lemma version_byte_plain: "k < 10 \<Longrightarrow> plain [48 + of_nat k :: byte]"
proof -
  assume "k < 10"
  then have "unat (48 + of_nat k :: byte) = 48 + k"
    using unat_of_nat [of "48 + k", where 'a = 8] by simp
  then show ?thesis by (auto simp: plain_def word_unat_eq_iff)
qed

lemma header_plain: "is_name name \<Longrightarrow> is_value v \<Longrightarrow> plain (name @ 58 # 32 # v)"
  using plain_append [of name "[58, 32] @ v"] plain_append [of "[58, 32]" v]
  by (simp add: is_name_def is_value_def token_plain value_plain) (simp add: plain_def)

lemma request_text_ends:
  assumes "is_name meth" and "is_target tgt" and "k < 10"
    and "list_all (\<lambda>(name, v). is_name name \<and> is_value v) hs"
  shows "header_ends (request_text meth tgt k hs)"
proof -
  let ?l = "meth @ [32] @ tgt @ [32, 72, 84, 84, 80, 47, 49, 46] @ [48 + of_nat k]"
  let ?line = "\<lambda>(name, v). name @ [58, 32] @ v"
  have "plain ?l"
    using assms version_byte_plain [OF assms(3)]
    by (simp only: plain_append) (auto simp: is_name_def token_plain target_plain, simp_all add: plain_def)
  moreover have "list_all (\<lambda>s. plain s \<and> s \<noteq> []) (map ?line hs)"
    using assms(4) by (induction hs) (auto simp: header_plain)
  ultimately have "header_ends (concat (map (\<lambda>s. s @ [13, 10]) (?l # map ?line hs)) @ [13, 10])"
    by (intro header_ends_lines) simp
  moreover have "map (\<lambda>s. s @ [13, 10]) (map ?line hs) = map header_text hs"
    by (auto simp: header_text_def)
  ultimately show ?thesis by (simp add: request_text_def comp_def del: map_map)
qed

subsection \<open>Collecting the header\<close>

text \<open>The request after it has taken the bytes \<open>t\<close>.\<close>

definition buffered :: "request \<Rightarrow> byte list \<Rightarrow> request" where
  "buffered r t =
     r\<lparr>rq_headerBuffer := t @ drop (length t) (rq_headerBuffer r), rq_headerBufferIdx := length t,
       rq_last := fst (scan t), rq_numFound := snd (scan t)\<rparr>"

text \<open>A request that may still collect a header: all of its buffer is there.\<close>

definition blank :: "request \<Rightarrow> bool" where
  "blank r \<longleftrightarrow> rq_maxHeaderSize r = length (rq_headerBuffer r) \<and> length (rq_headerBuffer r) < sz_modulus"

lemma buffered_Nil:
  "rq_headerBufferIdx r = 0 \<Longrightarrow> rq_last r = 0 \<Longrightarrow> rq_numFound r = 0 \<Longrightarrow> buffered r [] = r"
  by (cases r) (simp add: buffered_def scan_def)

lemma buffered_span [simp]: "buffered (request_span hb) [] = request_span hb"
  by (rule buffered_Nil) (simp_all add: request_span_def)

lemma blank_span: "length hb < sz_modulus \<Longrightarrow> blank (request_span hb)"
  by (simp add: blank_def request_span_def)

lemma buffered_parts [simp]:
  "rq_headerBuffer (buffered r t) = t @ drop (length t) (rq_headerBuffer r)"
  "rq_headerBufferIdx (buffered r t) = length t"
  "rq_maxHeaderSize (buffered r t) = rq_maxHeaderSize r"
  "(rq_last (buffered r t), rq_numFound (buffered r t)) = scan t"
  by (simp_all add: buffered_def)

lemma buffered_room:
  "blank r \<Longrightarrow> length t \<le> length (rq_headerBuffer r) \<Longrightarrow>
     sz_sub (rq_maxHeaderSize r) (length t) = length (rq_headerBuffer r) - length t"
  by (simp add: blank_def sz_sub_small)

lemma buffered_store:
  assumes "blank r" and "length (t @ ds) \<le> length (rq_headerBuffer r)"
  shows "mem_store (t @ drop (length t) (rq_headerBuffer r)) (length t) ds =
      Inr (t @ ds @ drop (length (t @ ds)) (rq_headerBuffer r))"
    and "sz_add (length t) (length ds) = length (t @ ds)"
  using assms by (auto simp: mem_store_def sz_add_small blank_def add.commute)

lemma scan_pair: "scan t = (a, b) \<Longrightarrow> fst (scan t) = a \<and> snd (scan t) = b"
  by simp

text \<open>A piece that neither ends the header nor fills the buffer is taken whole.\<close>

lemma consume_header_more:
  assumes "blank r" and "quiet (scan t) ds" and "snd (scan (t @ ds)) \<noteq> 4"
    and "length (t @ ds) < length (rq_headerBuffer r)"
  shows "rq_consumeHeaderSome (buffered r t) ds =
    Inr ((Error_none, False, length ds), buffered r (t @ ds))"
proof -
  obtain p k where st: "scan (t @ ds) = (p, k)" by (cases "scan (t @ ds)")
  have "header_scan (scan t) (length ds) 0 ds = ((p, k), length ds)"
    using assms(2) st by (simp add: header_scan_all_quiet scan_append)
  moreover have "k \<noteq> 4" using assms(3) st by simp
  moreover have "length t \<le> length (rq_headerBuffer r)"
      "length ds < length (rq_headerBuffer r) - length t" using assms(4) by auto
  ultimately show ?thesis
    using assms(1,4) buffered_store [OF assms(1), of t ds] st
    by (simp add: rq_consumeHeaderSome_def buffered_room mem_load_def Let_def)
       (simp add: buffered_def)
qed

text \<open>The piece that ends the header: it is taken whole, and the header is parsed.\<close>

lemma consume_header_last:
  assumes "blank r" and "ds \<noteq> []" and "header_ends (t @ ds)"
    and "length (t @ ds) \<le> length (rq_headerBuffer r)"
  shows "rq_consumeHeaderSome (buffered r t) ds =
    bind_result (request_deserialize (buffered r (t @ ds))) (\<lambda>(success, r').
      if \<not> success then Inr ((Error_of INVALID_MESSAGE, True, 0), r')
      else Inr ((Error_none, True, length ds), r'))"
proof -
  obtain p k where st: "scan (t @ ds) = (p, k)" by (cases "scan (t @ ds)")
  have ends: "quiet (scan t) (butlast ds)" "snd (foldl scan_step (scan t) ds) = 4"
    using assms(2,3)
    by (simp_all add: header_ends_def butlast_append quiet_append scan_append flip: scan_def)
  have "header_scan (scan t) (length ds) 0 ds = ((p, k), length ds)"
    using header_scan_end [OF assms(2) ends, of "length ds" 0] st by (simp add: scan_append)
  moreover have k: "k = 4" using assms(3) st by (simp add: header_ends_def)
  moreover have "buffered r (t @ ds) = (buffered r t)\<lparr>rq_last := p, rq_numFound := k,
      rq_headerBuffer := t @ ds @ drop (length (t @ ds)) (rq_headerBuffer r),
      rq_headerBufferIdx := length (t @ ds)\<rparr>"
    using st by (simp add: buffered_def)
  moreover have "length t \<le> length (rq_headerBuffer r)"
      "length ds \<le> length (rq_headerBuffer r) - length t" using assms(4) by auto
  ultimately show ?thesis
    using assms(1,4) buffered_store [OF assms(1), of t ds]
    by (simp add: rq_consumeHeaderSome_def buffered_room mem_load_def Let_def) (simp add: split_def cong: if_cong)
qed

text \<open>A header that does not end within the buffer is refused.\<close>

lemma consume_header_overflow:
  assumes "blank r" and "length t \<le> length (rq_headerBuffer r)"
    and "quiet (scan t) (take (length (rq_headerBuffer r) - length t) ds)"
    and "length (rq_headerBuffer r) \<le> length (t @ ds)" and "snd (scan t) \<noteq> 4"
  shows "\<exists>r'. rq_consumeHeaderSome (buffered r t) ds = Inr ((Error_of INVALID_MESSAGE, True, 0), r')"
proof -
  let ?n = "length (rq_headerBuffer r) - length t"
  obtain p k where st: "foldl scan_step (scan t) (take ?n ds) = (p, k)"
    by (cases "foldl scan_step (scan t) (take ?n ds)")
  have "k \<noteq> 4"
  proof (cases "take ?n ds" rule: rev_cases)
    case Nil
    with st assms(5) show ?thesis by simp
  next
    case (snoc ys c)
    with st assms(3) show ?thesis by (simp add: quiet_append)
  qed
  moreover have "(if length ds \<le> ?n then length ds else ?n) = ?n"
    using assms(2,4) by (auto simp: le_diff_conv2)
  moreover have "header_scan (scan t) ?n 0 (take ?n ds) = ((p, k), ?n)"
    using assms(3) st by (simp add: header_scan_all_quiet)
  ultimately show ?thesis
    using assms(1,2) by (simp add: rq_consumeHeaderSome_def buffered_room Let_def)
qed

subsection \<open>The parsed header\<close>

text \<open>What a request says: its path, its parameters and how its body is framed.\<close>

definition target_path :: "byte list \<Rightarrow> byte list" where
  "target_path tgt = takeWhile (\<lambda>c. c \<noteq> ch CHR ''?'') tgt"

definition path_of :: "byte list \<Rightarrow> byte list list" where
  "path_of tgt =
     filter (\<lambda>s. s \<noteq> []) (split_at_byte (ch CHR ''/'') (target_path tgt)) @
     (if last (target_path tgt) = ch CHR ''/'' then [[]] else [])"

definition key_value :: "byte list \<Rightarrow> byte list \<times> byte list" where
  "key_value p =
     (takeWhile (\<lambda>c. c \<noteq> ch CHR ''='') p, drop 1 (dropWhile (\<lambda>c. c \<noteq> ch CHR ''='') p))"

definition drop_last_empty :: "byte list list \<Rightarrow> byte list list" where
  "drop_last_empty ps = (if last ps = [] then butlast ps else ps)"

definition params_of :: "byte list \<Rightarrow> (byte list \<times> byte list) list" where
  "params_of tgt =
     map key_value (drop_last_empty (split_at_byte (ch CHR ''&'')
       (drop 1 (dropWhile (\<lambda>c. c \<noteq> ch CHR ''?'') tgt))))"

definition header_lookup :: "Field \<Rightarrow> (byte list \<times> byte list) list \<Rightarrow> byte list option" where
  "header_lookup f hs =
     first_field (\<lambda>k. k = bytes (fieldStrArr ! Field_index f) \<or> k = bytes (fieldStrArrLower ! Field_index f)) hs"

definition header_values :: "Field \<Rightarrow> (byte list \<times> byte list) list \<Rightarrow> byte list list" where
  "header_values f hs =
     all_fields (\<lambda>k. k = bytes (fieldStrArr ! Field_index f) \<or> k = bytes (fieldStrArrLower ! Field_index f)) hs"

definition declared_length :: "(byte list \<times> byte list) list \<Rightarrow> nat option" where
  "declared_length hs = (case header_lookup ContentLength hs of None \<Rightarrow> None | Some v \<Rightarrow> from_chars v)"

definition bad_length :: "(byte list \<times> byte list) list \<Rightarrow> bool" where
  "bad_length hs = (header_lookup ContentLength hs \<noteq> None \<and> declared_length hs = None)"

definition says_chunked :: "(byte list \<times> byte list) list \<Rightarrow> bool" where
  "says_chunked hs \<longleftrightarrow> declared_length hs = None \<and>
     list_ex (contains_str (bytes ''chunked'')) (header_values TransferEncoding hs)"

lemma takeWhile_index_of:
  "takeWhile (\<lambda>x. x \<noteq> c) s = (case index_of c s of None \<Rightarrow> s | Some i \<Rightarrow> take i s)"
  by (induction s) (auto split: option.splits)

lemma dropWhile_index_of:
  "dropWhile (\<lambda>x. x \<noteq> c) s = (case index_of c s of None \<Rightarrow> [] | Some i \<Rightarrow> drop i s)"
  by (induction s) (auto split: option.splits)

lemma params_loop_split:
  "params_loop query start =
     map key_value (drop_last_empty (split_at_byte (ch CHR ''&'') (drop start query)))"
proof (induction query start rule: params_loop.induct)
  case (1 query start)
  let ?d = "drop start query"
  have kv: "(case index_of (ch CHR ''='') p of
        Some eq \<Rightarrow> (take eq p, drop (eq + 1) p) | None \<Rightarrow> (p, [])) = key_value p" for p
    unfolding key_value_def takeWhile_index_of dropWhile_index_of by (simp split: option.split)
  show ?case
  proof (cases "start < length query")
    case False
    then show ?thesis
      by (simp add: params_loop.simps [of query start] drop_last_empty_def)
  next
    case True
    note IH = "1.IH" [OF True refl refl]
    show ?thesis
    proof (cases "index_of (ch CHR ''&'') ?d")
      case None
      then have "ch CHR ''&'' \<notin> set ?d" by (simp only: index_of_None not_False_eq_True)
      then have "split_at_byte (ch CHR ''&'') ?d = [?d]" by (rule split_at_byte_None)
      with True None kv show ?thesis
        by (simp add: params_loop.simps [of query start] params_loop.simps [of query "Suc (length query)"]
            find_from_def drop_last_empty_def)
    next
      case (Some i)
      note at = index_of_Some [OF Some]
      then have d: "?d = take i ?d @ ch CHR ''&'' # drop (Suc i) ?d"
        by (metis id_take_nth_drop)
      have split: "split_at_byte (ch CHR ''&'') ?d =
          take i ?d # split_at_byte (ch CHR ''&'') (drop (Suc i) ?d)"
        using split_at_byte_append [of "ch CHR ''&''" "take i ?d" "drop (Suc i) ?d"] at d by metis
      have "drop (start + i + 1) query = drop (Suc i) ?d" by (simp add: add.commute)
      with IH Some True kv split show ?thesis
        by (simp add: params_loop.simps [of query start] find_from_def drop_last_empty_def Let_def)
    qed
  qed
qed

lemma deserialize_params_eq: "deserialize_params tgt = params_of tgt"
  unfolding params_of_def dropWhile_index_of deserialize_params_def params_loop_split
  by (simp add: drop_last_empty_def split: option.split)

lemma deserialize_path_eq:
  "target_path tgt \<noteq> [] \<Longrightarrow> deserialize_path tgt = Inr (path_of tgt)"
  unfolding target_path_def takeWhile_index_of deserialize_path_def path_of_def segment_loop_split Let_def
  by (simp split: option.split)

lemma deserialize_path_empty:
  "target_path tgt = [] \<Longrightarrow> deserialize_path tgt = Inl Undefined_behaviour"
  unfolding target_path_def takeWhile_index_of deserialize_path_def Let_def
  by (simp split: option.split)

text \<open>The request after a header has been parsed.\<close>

definition unparsed :: "request \<Rightarrow> bool" where
  "unparsed r \<longleftrightarrow> rq_path r = [] \<and> rq_params r = [] \<and> rq_contentLength r = None \<and> \<not> rq_chunked r"

definition parsed_lines ::
  "request \<Rightarrow> byte list \<Rightarrow> byte list \<Rightarrow> nat \<Rightarrow> (byte list \<times> byte list) list \<Rightarrow> request" where
  "parsed_lines r meth tgt k hs =
     r\<lparr>rq_numHeaders := length hs, rq_method := meth, rq_target := tgt,
       rq_version := (if k = 0 then bytes ''1.0'' else bytes ''1.1''),
       rq_fields := hs @ drop (length hs) (rq_fields r)\<rparr>"

definition parsed ::
  "request \<Rightarrow> byte list \<Rightarrow> byte list \<Rightarrow> nat \<Rightarrow> (byte list \<times> byte list) list \<Rightarrow> request" where
  "parsed r meth tgt k hs =
     (parsed_lines r meth tgt k hs)
       \<lparr>rq_contentLength := declared_length hs, rq_chunked := says_chunked hs,
        rq_path := path_of tgt, rq_params := params_of tgt\<rparr>"

lemma field_strs_ok:
  "f \<noteq> Field_Count \<Longrightarrow> field_strs f =
     Inr (bytes (fieldStrArr ! Field_index f), bytes (fieldStrArrLower ! Field_index f))"
  by (simp add: field_strs_def array_at_def length_fieldStrArrLower Field_index_bound)

lemma request_get_lookup:
  "f \<noteq> Field_Count \<Longrightarrow> request_get (parsed_lines r meth tgt k hs) f = Inr (header_lookup f hs)"
  by (simp add: request_get_def field_strs_ok header_lookup_def parsed_lines_def)

lemma request_getList_values:
  "f \<noteq> Field_Count \<Longrightarrow> request_getList (parsed_lines r meth tgt k hs) f = Inr (header_values f hs)"
  by (simp add: request_getList_def field_strs_ok header_values_def parsed_lines_def)

lemma request_getList_frame [simp]:
  "request_getList (r\<lparr>rq_contentLength := x\<rparr>) f = request_getList r f"
  by (simp add: request_getList_def)

lemma header_pair_parsed [simp]: "header_pair (parsed_header h) = h"
  by (cases h) (simp add: header_pair_def parsed_header_def)

lemma parsed_lines_framing [simp]:
  "rq_contentLength (parsed_lines r meth tgt k hs) = rq_contentLength r"
  "rq_chunked (parsed_lines r meth tgt k hs) = rq_chunked r"
  by (simp_all add: parsed_lines_def)

lemma framing_updates:
  "rq_contentLength r = None \<Longrightarrow> \<not> rq_chunked r \<Longrightarrow>
     r\<lparr>rq_contentLength := None, rq_chunked := b\<rparr> = (if b then r\<lparr>rq_chunked := True\<rparr> else r)"
  "\<not> rq_chunked r \<Longrightarrow>
     r\<lparr>rq_contentLength := v, rq_chunked := False\<rparr> = r\<lparr>rq_contentLength := v\<rparr>"
  by (cases r; simp)+

lemma deserialize_framing_eq:
  assumes un: "unparsed r"
  shows "deserialize_framing (parsed_lines r meth tgt k hs) =
    (if bad_length hs then Inr (False, parsed_lines r meth tgt k hs)
     else Inr (True, (parsed_lines r meth tgt k hs)
       \<lparr>rq_contentLength := declared_length hs, rq_chunked := says_chunked hs\<rparr>))"
proof -
  let ?p = "parsed_lines r meth tgt k hs"
  have p: "rq_contentLength ?p = None" "\<not> rq_chunked ?p"
    using un by (simp_all add: unparsed_def)
  show ?thesis
  proof (cases "header_lookup ContentLength hs")
    case None
    then have "declared_length hs = None" "\<not> bad_length hs"
      by (simp_all add: declared_length_def bad_length_def)
    with None p show ?thesis
      by (simp add: deserialize_framing_def request_get_lookup request_getList_values Let_def
          says_chunked_def framing_updates)
  next
    case (Some s)
    show ?thesis
    proof (cases "from_chars s")
      case None
      with Some show ?thesis
        by (simp add: deserialize_framing_def request_get_lookup bad_length_def declared_length_def)
    next
      case v: (Some v)
      with Some have "declared_length hs = Some v" "\<not> bad_length hs" "\<not> says_chunked hs"
        by (simp_all add: declared_length_def bad_length_def says_chunked_def)
      with Some v p show ?thesis
        by (simp add: deserialize_framing_def request_get_lookup framing_updates)
    qed
  qed
qed

text \<open>A well-formed request: what its parts may be.\<close>

definition well_formed :: "byte list \<Rightarrow> byte list \<Rightarrow> nat \<Rightarrow> (byte list \<times> byte list) list \<Rightarrow> bool" where
  "well_formed meth tgt k hs \<longleftrightarrow>
     is_name meth \<and> is_target tgt \<and> k < 10 \<and>
     list_all (\<lambda>(name, v). is_name name \<and> is_value v) hs \<and> length hs \<le> maxNumHeaders"

lemma request_deserialize_text:
  assumes wf: "well_formed meth tgt k hs" and un: "unparsed r"
    and hb: "rq_headerBuffer r = request_text meth tgt k hs @ rest"
    and small: "length (request_text meth tgt k hs) < 2 ^ 31"
  shows "request_deserialize r =
    (if bad_length hs then Inr (False, parsed_lines r meth tgt k hs)
     else if target_path tgt = [] then Inl Undefined_behaviour
     else Inr (True, parsed r meth tgt k hs))"
proof -
  let ?t = "request_text meth tgt k hs"
  let ?p = "\<lparr>pr_method = meth, pr_path = tgt, pr_minor_version = int k,
          pr_headers = map parsed_header hs\<rparr>"
  have "phr_parse_request False (rq_headerBuffer r) maxNumHeaders 0 = Inr (?p, int (length ?t))"
    unfolding hb using wf small by (intro phr_parse_request_text) (simp_all add: well_formed_def)
  moreover have "0 < length ?t" by (simp add: request_text_def)
  moreover have "r\<lparr>rq_numHeaders := length hs, rq_method := meth, rq_target := tgt,
       rq_version := (if k = 0 then bytes ''1.0'' else bytes ''1.1''),
       rq_fields := map header_pair (map parsed_header hs) @ drop (length hs) (rq_fields r)\<rparr> =
     parsed_lines r meth tgt k hs"
    by (simp add: parsed_lines_def comp_def)
  ultimately have eq: "request_deserialize r =
      bind_result (deserialize_framing (parsed_lines r meth tgt k hs)) (\<lambda>(ok, r2).
        if \<not> ok then Inr (False, r2)
        else bind_result (deserialize_path (rq_target r2)) (\<lambda>segs.
          Inr (True, r2\<lparr>rq_path := rq_path r2 @ segs,
                        rq_params := rq_params r2 @ deserialize_params (rq_target r2)\<rparr>)))"
    unfolding request_deserialize_def by (simp add: Let_def)
  show ?thesis
    unfolding eq deserialize_framing_eq [OF un]
    using un
    by (simp add: deserialize_path_eq deserialize_path_empty deserialize_params_eq unparsed_def
        parsed_def parsed_lines_def)
qed

subsection \<open>Bodies by Content-Length\<close>

text \<open>\<open>n\<close> bytes are declared and \<open>b\<close> is there.\<close>

definition collecting :: "request \<Rightarrow> nat \<Rightarrow> byte list \<Rightarrow> bool" where
  "collecting r n b \<longleftrightarrow>
     rq_contentLength r = Some n \<and> 0 < n \<and> n \<le> rq_maxBodySize r \<and> n \<le> max_size \<and>
     rq_bodyIdx r = length b \<and> length b \<le> n \<and> take (length b) (rq_body r) = b \<and>
     (length (rq_body r) = n \<or> rq_body r = [])"

definition set_body :: "request \<Rightarrow> byte list \<Rightarrow> nat \<Rightarrow> request" where
  "set_body r body i = r\<lparr>rq_body := body, rq_bodyIdx := i\<rparr>"

lemma collecting_done: "collecting r n b \<Longrightarrow> length b = n \<Longrightarrow> rq_body r = b"
  by (auto simp: collecting_def)

lemma consume_length_body_ok:
  assumes "collecting r n b"
  shows "\<exists>body. rq_consumeBodySome r ds =
      Inr ((Error_none, n \<le> length b + length ds, min (length ds) (n - length b)),
           set_body r body (length (b @ take (n - length b) ds))) \<and>
    collecting (set_body r body (length (b @ take (n - length b) ds))) n (b @ take (n - length b) ds)"
proof -
  let ?k = "min (length ds) (n - length b)"
  let ?b = "b @ take (n - length b) ds"
  have c: "rq_contentLength r = Some n" "0 < n" "n \<le> rq_maxBodySize r" "n \<le> max_size"
      "rq_bodyIdx r = length b" "length b \<le> n" "take (length b) (rq_body r) = b"
      "length (rq_body r) = n \<or> rq_body r = []"
    using assms by (simp_all add: collecting_def)
  have sz: "n < sz_modulus" using c(4) by (rule max_size_less)
  let ?body = "resize n (rq_body r)"
  have body: "(if length (rq_body r) \<noteq> n then vec_resize n (rq_body r) else Inr (rq_body r)) = Inr ?body"
    using c(4) by (auto simp: resize_def)
  have pre: "take (length b) ?body = b"
    using c(6-8) by (auto simp: take_resize)
  let ?body1 = "b @ take ?k ds @ drop (length b + ?k) ?body"
  have store: "mem_store ?body (length b) (take ?k ds) = Inr ?body1"
    using c(6) pre by (simp add: mem_store_def min_absorb2)
  have idx: "sz_add (length b) ?k = length b + ?k" "sz_sub n (length b) = n - length b"
    using sz c(6) by (auto simp: sz_add_small sz_sub_small)
  have len: "length ?body1 = n" using c(6) by simp
  have tk: "take ?k ds = take (n - length b) ds" by (simp add: min_def)
  have fin: "(n \<le> length b + ?k) = (n \<le> length b + length ds)" using c(6) by auto
  have l: "length b + ?k = length ?b" by simp
  have "rq_consumeBodySome r ds =
      Inr ((Error_none, n \<le> length b + length ds, ?k), set_body r ?body1 (length b + ?k))"
    using c(1-3,5) by (simp add: rq_consumeBodySome_def consume_length_body_def body store idx
        set_body_def fin [symmetric] Let_def del: min_def)
  moreover have "collecting (set_body r ?body1 (length b + ?k)) n ?b"
    using c len by (simp add: collecting_def set_body_def tk)
  ultimately show ?thesis unfolding l by blast
qed

text \<open>A declared length above the limit is refused.\<close>

lemma consume_length_body_limit:
  "rq_contentLength r = Some n \<Longrightarrow> 0 < n \<Longrightarrow> rq_maxBodySize r < n \<Longrightarrow>
     rq_consumeBodySome r ds = Inr ((Error_of INVALID_MESSAGE, True, 0), r)"
  by (simp add: rq_consumeBodySome_def consume_length_body_def)

lemma consume_no_body:
  "rq_contentLength r = None \<or> rq_contentLength r = Some 0 \<Longrightarrow> \<not> rq_chunked r \<Longrightarrow>
     rq_consumeBodySome r ds = Inr ((Error_none, True, 0), r)"
  by (auto simp: rq_consumeBodySome_def)


subsection \<open>Chunked bodies\<close>

text \<open>A request that waits for its chunked body; the decoder stands before the first chunk.\<close>

definition awaits_chunks :: "request \<Rightarrow> bool" where
  "awaits_chunks r \<longleftrightarrow>
     rq_contentLength r = None \<and> rq_chunked r \<and> rq_body r = [] \<and> rq_bodyIdx r = 0 \<and>
     rq_maxBodySize r = 1024 * 1024 \<and>
     between (rq_chunkedDecoder r) \<and> consume_trailer (rq_chunkedDecoder r)"

lemma awaits_chunks_parsed:
  "says_chunked hs \<Longrightarrow> awaits_chunks (parsed (buffered (request_span hb) t) meth tgt k hs)"
  by (auto simp: awaits_chunks_def parsed_def parsed_lines_def buffered_def request_span_def
      says_chunked_def between_def decoder_zero_def)

lemma chunked_body_sizes:
  "sz_sub 1048576 0 = 1048576"
  "vec_resize 1024 [] = Inr (replicate 1024 (0 :: byte))"
  "vec_resize (min 1048576 (sz_mul 1024 2)) (replicate 1024 0) = Inr (replicate 2048 (0 :: byte))"
  "k \<le> 1048576 \<Longrightarrow> sz_add 0 k = k"
proof -
  have "resize 2048 (replicate 1024 (0 :: byte)) = replicate 2048 0"
    by (simp add: resize_def flip: replicate_add)
  then show "vec_resize (min 1048576 (sz_mul 1024 2)) (replicate 1024 0) = Inr (replicate 2048 (0 :: byte))"
    by (simp add: sz_mul_small sz_modulus_def max_size_def)
qed (simp_all add: sz_sub_small sz_add_small sz_modulus_def max_size_def resize_def)

text \<open>A first piece of more than 2048 bytes runs over the end of the body.\<close>

lemma consume_chunked_overflow:
  assumes "awaits_chunks r" and "2048 < length data" and "length data \<le> 1024 * 1024"
  shows "rq_consumeBodySome r data = Inl Undefined_behaviour"
proof -
  have "min (length data) 1048576 = length data" using assms(3) by simp
  then show ?thesis
    using assms
    by (simp add: rq_consumeBodySome_def consume_chunked_body_def awaits_chunks_def Let_def
        chunked_body_sizes mem_store_overflow)
qed

text \<open>
  A whole body in a first piece that fits: the body is the decoded data if nothing
  follows it in the piece. The number of bytes reported as taken is what the code
  computes, the decoded bytes less the ones that follow.
\<close>

lemma consume_chunked_whole:
  assumes aw: "awaits_chunks r"
    and wf: "list_all is_chunk cks" "is_size h 0" "is_extension e" "list_all is_trailer ls"
    and data: "data = chunked_text cks h e ls @ rest" and len: "length data \<le> 2048"
    and enough: "length rest \<le> length (concat (map chunk_data cks))"
  shows "\<exists>r'. rq_consumeBodySome r data =
      Inr ((Error_none, True, length (concat (map chunk_data cks)) - length rest), r') \<and>
    rq_body r' = take (length (concat (map chunk_data cks)) - length rest) (concat (map chunk_data cks))"
proof -
  let ?out = "concat (map chunk_data cks)"
  let ?n = "length data"
  let ?d = "rq_chunkedDecoder r"
  let ?fed = "?d\<lparr>total_read := sz_add (total_read ?d) ?n\<rparr>"
  let ?body = "replicate (if ?n \<le> 1024 then 1024 else 2048) (0 :: byte)"
  have "between ?fed" "consume_trailer ?fed"
    using aw by (simp_all add: awaits_chunks_def between_def)
  then have "dechunk ?fed data = (Done, ?fed\<lparr>ck_state := CHUNKED_IN_TRAILERS_LINE_HEAD\<rparr>, ?out, rest)"
    unfolding data by (rule dechunk_body) (use wf in simp_all)
  then obtain d2 buf2 where dec: "phr_decode_chunked ?d data = Inr (d2, buf2, length ?out, int (length rest))"
      "length buf2 = ?n" "take (length ?out + length rest) buf2 = ?out @ rest"
      "length ?out + length rest \<le> ?n"
    by (rule phr_decode_chunked_spec) auto
  have tk: "min ?n 1048576 = ?n" using len by simp
  have le: "?n \<le> length ?body" using len by simp
  have store: "mem_store ?body 0 (take ?n data) = Inr (data @ drop ?n ?body)"
      "mem_load (data @ drop ?n ?body) 0 ?n = Inr data"
      "mem_store (data @ drop ?n ?body) 0 buf2 = Inr (buf2 @ drop ?n ?body)"
    using le dec(2) by (simp_all add: mem_store_def mem_load_def)
  let ?m = "length ?out - length rest"
  have "?m < sz_modulus" using dec(4) len by (simp add: sz_modulus_def)
  then have m: "sz_sub (length ?out) (length rest) = ?m" "sz_add 0 ?m = ?m" "?m \<le> max_size"
    using enough dec(4) len by (auto simp: sz_sub_small sz_add_small sz_modulus_def max_size_def)
  have "take ?m buf2 = take ?m (take (length ?out + length rest) buf2)"
    by (simp add: min_absorb1 le_diff_conv)
  also have "\<dots> = take ?m ?out" using dec(3) by simp
  finally have pre: "take ?m buf2 = take ?m ?out" .
  have "?m \<le> length buf2" using dec(2,4) by linarith
  then have "?m \<le> length (buf2 @ drop ?n ?body)" "?m - length buf2 = 0" by simp_all
  then have front: "resize ?m (buf2 @ drop ?n ?body) = take ?m ?out"
    unfolding resize_def by (simp only: if_True take_append take_0 append_Nil2 pre)
  show ?thesis
  proof (cases "?n \<le> 1024")
    case True
    with aw store front show ?thesis
      by (simp add: rq_consumeBodySome_def consume_chunked_body_def awaits_chunks_def Let_def tk
          chunked_body_sizes dec(1) m)
  next
    case False
    with aw store front len show ?thesis
      by (simp add: rq_consumeBodySome_def consume_chunked_body_def awaits_chunks_def Let_def tk
          chunked_body_sizes dec(1) m)
  qed
qed

subsection \<open>A request is a message a connection can read\<close>

text \<open>A well-formed request whose header fits the buffer, with the body it declares.\<close>

definition request_ok ::
  "byte list \<Rightarrow> byte list \<Rightarrow> byte list \<Rightarrow> nat \<Rightarrow> (byte list \<times> byte list) list \<Rightarrow> byte list \<Rightarrow> bool" where
  "request_ok hb meth tgt k hs body \<longleftrightarrow>
     well_formed meth tgt k hs \<and> \<not> bad_length hs \<and> target_path tgt \<noteq> [] \<and>
     length (request_text meth tgt k hs) \<le> length hb \<and> length hb < 2 ^ 31 \<and>
     (if body = [] then (declared_length hs = None \<or> declared_length hs = Some 0) \<and> \<not> says_chunked hs
      else declared_length hs = Some (length body) \<and> length body \<le> 1024 * 1024)"

text \<open>The request object when the header is parsed, and when the body is there as well.\<close>

definition header_read ::
  "byte list \<Rightarrow> byte list \<Rightarrow> byte list \<Rightarrow> nat \<Rightarrow> (byte list \<times> byte list) list \<Rightarrow> request" where
  "header_read hb meth tgt k hs =
     parsed (buffered (request_span hb) (request_text meth tgt k hs)) meth tgt k hs"

definition request_read ::
  "byte list \<Rightarrow> byte list \<Rightarrow> byte list \<Rightarrow> nat \<Rightarrow> (byte list \<times> byte list) list \<Rightarrow> byte list \<Rightarrow> request" where
  "request_read hb meth tgt k hs body =
     set_body (header_read hb meth tgt k hs) body (length body)"

definition expects_header ::
  "byte list \<Rightarrow> byte list \<Rightarrow> byte list \<Rightarrow> nat \<Rightarrow> (byte list \<times> byte list) list \<Rightarrow> byte list \<Rightarrow>
     request \<Rightarrow> byte list \<Rightarrow> bool" where
  "expects_header hb meth tgt k hs body m h \<longleftrightarrow>
     request_ok hb meth tgt k hs body \<and>
     (\<exists>t. request_text meth tgt k hs = t @ h \<and> m = buffered (request_span hb) t)"

definition expects_body ::
  "byte list \<Rightarrow> byte list \<Rightarrow> byte list \<Rightarrow> nat \<Rightarrow> (byte list \<times> byte list) list \<Rightarrow> byte list \<Rightarrow>
     request \<Rightarrow> byte list \<Rightarrow> bool" where
  "expects_body hb meth tgt k hs body m b \<longleftrightarrow>
     request_ok hb meth tgt k hs body \<and>
     (\<exists>b1 mem. body = b1 @ b \<and> m = set_body (header_read hb meth tgt k hs) mem (length b1) \<and>
        (if body = [] then mem = [] else collecting m (length body) b1))"

lemma quiet_last: "quiet st xs \<Longrightarrow> xs \<noteq> [] \<Longrightarrow> snd (foldl scan_step st xs) \<noteq> 4"
  by (cases xs rule: rev_cases) (auto simp: quiet_append)

lemma header_ends_inside:
  assumes "header_ends (t @ h1 @ h2)" and "h1 \<noteq> []" and "h2 \<noteq> []"
  shows "quiet (scan t) h1" and "snd (scan (t @ h1)) \<noteq> 4"
proof -
  have "quiet (0, 0) (t @ h1 @ butlast h2)"
    using assms by (simp add: header_ends_def butlast_append)
  then show q: "quiet (scan t) h1" by (simp add: quiet_append scan_def)
  from quiet_last [OF q assms(2)] show "snd (scan (t @ h1)) \<noteq> 4" by (simp add: scan_append)
qed

lemma header_read_frame [simp]:
  "rq_contentLength (header_read hb meth tgt k hs) = declared_length hs"
  "rq_chunked (header_read hb meth tgt k hs) = says_chunked hs"
  "rq_body (header_read hb meth tgt k hs) = []"
  "rq_bodyIdx (header_read hb meth tgt k hs) = 0"
  "rq_maxBodySize (header_read hb meth tgt k hs) = 1024 * 1024"
  by (simp_all add: header_read_def parsed_def parsed_lines_def buffered_def request_span_def)

lemma set_body_simps [simp]:
  "set_body (set_body r x i) y j = set_body r y j"
  "rq_contentLength (set_body r x i) = rq_contentLength r"
  "rq_chunked (set_body r x i) = rq_chunked r"
  "rq_maxBodySize (set_body r x i) = rq_maxBodySize r"
  "rq_body (set_body r x i) = x"
  "rq_bodyIdx (set_body r x i) = i"
  by (simp_all add: set_body_def)

lemma set_body_header_read: "set_body (header_read hb meth tgt k hs) [] 0 = header_read hb meth tgt k hs"
  by (simp add: set_body_def header_read_def parsed_def parsed_lines_def buffered_def request_span_def)

lemma request_ok_header:
  assumes "request_ok hb meth tgt k hs body"
  shows "header_ends (request_text meth tgt k hs)" and "blank (request_span hb)"
    and "length (request_text meth tgt k hs) < 2 ^ 31"
    and "length (request_text meth tgt k hs) \<le> length hb"
  using assms request_text_ends [of meth tgt k hs]
  by (auto simp: request_ok_def well_formed_def blank_span sz_modulus_def)

lemma unparsed_buffered [simp]: "unparsed (buffered (request_span hb) t)"
  by (simp add: unparsed_def buffered_def request_span_def)

lemma header_buffer_span [simp]: "rq_headerBuffer (request_span hb) = hb"
  by (simp add: request_span_def)

interpretation http: message_consumer Request_message
  "expects_header hb meth tgt k hs body" "expects_body hb meth tgt k hs body"
  "\<lambda>m. m = request_read hb meth tgt k hs body" body
  for hb meth tgt k hs body
proof unfold_locales
  let ?t = "request_text meth tgt k hs"
  fix m h1 h2
  assume "expects_header hb meth tgt k hs body m (h1 @ h2)" and ne: "h1 \<noteq> []" "h2 \<noteq> []"
  then obtain t where ok: "request_ok hb meth tgt k hs body" and t: "?t = t @ h1 @ h2"
      and m: "m = buffered (request_span hb) t"
    by (auto simp: expects_header_def)
  note hd = request_ok_header [OF ok]
  have len: "length (t @ h1) < length (rq_headerBuffer (request_span hb))"
    using hd(4) t ne by (simp add: neq_Nil_conv) auto
  have "rq_consumeHeaderSome m h1 = Inr ((Error_none, False, length h1), buffered (request_span hb) (t @ h1))"
    unfolding m using header_ends_inside [of t h1 h2] hd(1,2) t ne len by (intro consume_header_more) simp_all
  moreover have "expects_header hb meth tgt k hs body (buffered (request_span hb) (t @ h1)) h2"
    using ok t by (auto simp: expects_header_def)
  ultimately show "\<exists>m'. consumeHeaderSome Request_message m h1 = Inr ((Error_none, False, length h1), m') \<and>
      expects_header hb meth tgt k hs body m' h2" by simp
next
  let ?t = "request_text meth tgt k hs"
  let ?r = "header_read hb meth tgt k hs"
  fix m h
  assume "expects_header hb meth tgt k hs body m h" and ne: "h \<noteq> []"
  then obtain t where ok: "request_ok hb meth tgt k hs body" and t: "?t = t @ h"
      and m: "m = buffered (request_span hb) t"
    by (auto simp: expects_header_def)
  note hd = request_ok_header [OF ok]
  have "request_deserialize (buffered (request_span hb) ?t) = Inr (True, ?r)"
    using request_deserialize_text [of meth tgt k hs "buffered (request_span hb) ?t"] ok hd(3)
    by (simp add: request_ok_def header_read_def)
  then have "rq_consumeHeaderSome m h = Inr ((Error_none, True, length h), ?r)"
    unfolding m using consume_header_last [OF hd(2) ne, of t] hd(1,4) t by simp
  moreover have "expects_body hb meth tgt k hs body ?r body"
    using ok set_body_header_read [of hb meth tgt k hs]
    by (auto simp: expects_body_def request_ok_def collecting_def max_size_def
        intro!: exI [of _ "[]"] split: if_splits)
  ultimately show "\<exists>m'. consumeHeaderSome Request_message m h = Inr ((Error_none, True, length h), m') \<and>
      expects_body hb meth tgt k hs body m' body" by simp
next
  let ?r = "header_read hb meth tgt k hs"
  fix m b1 b2
  assume "expects_body hb meth tgt k hs body m (b1 @ b2)" and ne: "b2 \<noteq> []"
  then obtain b mem where ok: "request_ok hb meth tgt k hs body" and b: "body = b @ b1 @ b2"
      and m: "m = set_body ?r mem (length b)" and c: "collecting m (length body) b"
    by (auto simp: expects_body_def split: if_splits)
  have tk: "take (length body - length b) b1 = b1" and "\<not> length body \<le> length b + length b1"
    using b ne by simp_all
  with consume_length_body_ok [OF c, of b1] obtain mem' where
    r: "rq_consumeBodySome m b1 = Inr ((Error_none, False, length b1), set_body m mem' (length (b @ b1)))"
      "collecting (set_body m mem' (length (b @ b1))) (length body) (b @ b1)"
    using b by auto
  moreover have "expects_body hb meth tgt k hs body (set_body m mem' (length (b @ b1))) b2"
    unfolding expects_body_def using ok b ne r(2) m
    by (intro conjI exI [of _ "b @ b1"] exI [of _ mem']) simp_all
  ultimately show "\<exists>m'. consumeBodySome Request_message m b1 = Inr ((Error_none, False, length b1), m') \<and>
      expects_body hb meth tgt k hs body m' b2" by simp
next
  let ?r = "header_read hb meth tgt k hs"
  fix m b x
  assume "expects_body hb meth tgt k hs body m b"
  then obtain b1 mem where ok: "request_ok hb meth tgt k hs body" and b: "body = b1 @ b"
      and m: "m = set_body ?r mem (length b1)"
      and c: "if body = [] then mem = [] else collecting m (length body) b1"
    by (auto simp: expects_body_def)
  show "\<exists>m'. consumeBodySome Request_message m (b @ x) = Inr ((Error_none, True, length b), m') \<and>
      m' = request_read hb meth tgt k hs body"
  proof (cases "body = []")
    case True
    with b c m have "b = []" "m = ?r" by (simp_all add: set_body_header_read)
    with True ok consume_no_body [of ?r x] show ?thesis
      by (auto simp: request_ok_def request_read_def set_body_header_read)
  next
    case False
    with c have c: "collecting m (length body) b1" by simp
    have tk: "b1 @ take (length body - length b1) (b @ x) = body"
      "min (length (b @ x)) (length body - length b1) = length b"
      "length body \<le> length b1 + length (b @ x)" using b by simp_all
    from consume_length_body_ok [OF c, of "b @ x", unfolded tk] tk(3) obtain mem' where
      r: "rq_consumeBodySome m (b @ x) = Inr ((Error_none, True, length b), set_body m mem' (length body))"
        "collecting (set_body m mem' (length body)) (length body) body" by auto
    from collecting_done [OF r(2)] have "mem' = body" by simp
    with r(1) m show ?thesis by (simp add: request_read_def)
  qed
qed

end
