(* ===== verification/PhrChunkedInv.thy ===== *)
theory PhrChunkedInv
  imports PhrChunkedSpec
begin

section \<open>The states of a chunked decoder\<close>

text \<open>
  A decoder lives through many calls of \<open>phr_decode_chunked\<close>. Its reachable states are
  those that calls lead to from a zeroed decoder (with or without \<open>consume_trailer\<close>); the
  index counts the bytes it was given. The invariant ties the fields to the state: the
  size read so far fits the digits read so far, a chunk that is being read has bytes
  left, and outside a size or a chunk nothing is left.
\<close>

definition chunk_inv :: "chunked_decoder \<Rightarrow> bool" where
  "chunk_inv d =
     (case ck_state d of
        CHUNKED_IN_CHUNK_SIZE \<Rightarrow> hex_count d \<le> 16 \<and> bytes_left_in_chunk d < 16 ^ hex_count d
      | CHUNKED_IN_CHUNK_EXT \<Rightarrow> hex_count d = 0 \<and> bytes_left_in_chunk d < sz_modulus
      | CHUNKED_IN_CHUNK_HEADER_EXPECT_LF \<Rightarrow> hex_count d = 0 \<and> bytes_left_in_chunk d < sz_modulus
      | CHUNKED_IN_CHUNK_DATA \<Rightarrow>
          hex_count d = 0 \<and> 0 < bytes_left_in_chunk d \<and> bytes_left_in_chunk d < sz_modulus
      | _ \<Rightarrow> hex_count d = 0 \<and> bytes_left_in_chunk d = 0)"

inductive decoder_reachable :: "nat \<Rightarrow> chunked_decoder \<Rightarrow> bool" where
  fresh: "decoder_reachable 0 (decoder_zero\<lparr>consume_trailer := t\<rparr>)"
| call: "decoder_reachable n d \<Longrightarrow> phr_decode_chunked d buf = Inr (d', buf', size', ret) \<Longrightarrow>
     decoder_reachable (n + length buf) d'"

lemma chunk_inv_counts [simp]:
  "chunk_inv (d\<lparr>total_read := n\<rparr>) = chunk_inv d"
  "chunk_inv (d\<lparr>total_overhead := n\<rparr>) = chunk_inv d"
  by (cases "ck_state d"; simp add: chunk_inv_def)+

text \<open>One more digit: what is read stays below \<open>16\<close> to the number of digits, so it never wraps.\<close>

lemma digit_fits:
  assumes "b < 16 ^ k" and "v < (16 :: nat)"
  shows "b * 16 + v < 16 ^ Suc k"
proof -
  from assms(1) have "(b + 1) * 16 \<le> 16 ^ k * 16" by (intro mult_right_mono) auto
  with assms(2) show ?thesis by simp
qed

lemma digits_fit: "k \<le> 16 \<Longrightarrow> (16 :: nat) ^ k \<le> sz_modulus"
  using power_increasing [of k 16 "16 :: nat"] by (simp add: sz_modulus_def)

lemma size_step_exact:
  assumes "b < 16 ^ k" and "k < 16" and "v < 16"
  shows "sz_add (sz_mul b 16) v = b * 16 + v"
  using digit_fits [OF assms(1,3)] digits_fit [of "Suc k"] assms(2) by (simp add: sz_simps)

text \<open>One pass of the loop, whether it goes on or leaves, keeps the invariant and the counters.\<close>

definition keeps :: "chunked_decoder \<Rightarrow> chunked_decoder \<Rightarrow> bool" where
  "keeps d d' = ((chunk_inv d \<longrightarrow> chunk_inv d') \<and>
     total_read d' = total_read d \<and> total_overhead d' = total_overhead d)"

lemma keeps_refl [simp, intro]: "keeps d d"
  by (simp add: keeps_def)

lemma keeps_trans: "keeps d e \<Longrightarrow> keeps e f \<Longrightarrow> keeps d f"
  by (simp add: keeps_def)

lemma keeps_digit:
  assumes "ck_state d = CHUNKED_IN_CHUNK_SIZE" and "hex_count d \<noteq> 16" and "v < 16"
  shows "keeps d (d\<lparr>bytes_left_in_chunk := sz_add (sz_mul (bytes_left_in_chunk d) 16) v,
                    hex_count := hex_count d + 1\<rparr>)"
proof -
  have "chunk_inv d \<Longrightarrow> hex_count d < 16 \<and> bytes_left_in_chunk d < 16 ^ hex_count d"
    using assms(1,2) by (simp add: chunk_inv_def)
  then show ?thesis
    using assms(1) size_step_exact [OF _ _ assms(3)] digit_fits [OF _ assms(3)]
    by (auto simp: keeps_def chunk_inv_def simp del: power_Suc)
qed

lemma keeps_size_end:
  assumes "ck_state d = CHUNKED_IN_CHUNK_SIZE"
  shows "keeps d (d\<lparr>hex_count := 0, ck_state := CHUNKED_IN_CHUNK_EXT\<rparr>)"
  using assms digits_fit [of "hex_count d"] by (auto simp: keeps_def chunk_inv_def)

lemma chunk_step_keeps:
  assumes "chunk_step (d, buf, src, dst) = Inr (d', r) \<or> chunk_step (d, buf, src, dst) = Inl (x, d', r)"
  shows "keeps d d'"
proof (cases "ck_state d = CHUNKED_IN_CHUNK_SIZE")
  case True
  then show ?thesis
    using assms keeps_digit [OF True] keeps_size_end [OF True]
    by (auto simp: chunk_step.simps dest: decode_hex_bound split: if_splits option.splits)
next
  case False
  then show ?thesis
    using assms
    by (cases "ck_state d") (auto simp: chunk_step.simps Let_def keeps_def chunk_inv_def split: if_splits)
qed

lemma chunk_loop_keeps:
  "chunk_loop s = Inr (x, d', r) \<Longrightarrow> keeps (fst s) d'"
proof (induction s rule: chunk_loop.induct)
  case (1 s)
  then have ok: "chunk_conf_ok s" by (simp add: chunk_loop.simps [of s] split: if_splits)
  obtain d c where s: "s = (d, c)" by (cases s)
  show ?case
  proof (cases "chunk_step s")
    case (Inl e)
    with "1.prems" ok have "e = (x, d', r)" by (simp add: chunk_loop.simps [of s])
    with Inl show ?thesis
      using chunk_step_keeps [of d "fst c" "fst (snd c)" "snd (snd c)" d' r x] by (simp add: s)
  next
    case (Inr s')
    then have "keeps (fst s') d'"
      using "1.IH" [OF ok Inr] "1.prems" ok by (simp add: chunk_loop.simps [of s])
    moreover have "keeps d (fst s')"
      using Inr chunk_step_keeps [of d "fst c" "fst (snd c)" "snd (snd c)" "fst s'" "snd s'"] by (simp add: s)
    ultimately show ?thesis using keeps_trans by (simp add: s)
  qed
qed

text \<open>A whole call: the bytes given are counted, and of them at most all as overhead.\<close>

lemma phr_decode_chunked_keeps:
  assumes "phr_decode_chunked d buf = Inr (d', buf', size', ret)"
  shows "(chunk_inv d \<longrightarrow> chunk_inv d') \<and> total_read d' = sz_add (total_read d) (length buf) \<and>
    (\<exists>k \<le> length buf. total_overhead d' = sz_add (total_overhead d) k \<or> total_overhead d' = total_overhead d)"
proof -
  let ?d0 = "d\<lparr>total_read := sz_add (total_read d) (length buf)\<rparr>"
  obtain x d1 buf1 src dst where run: "chunk_loop (?d0, buf, 0, 0) = Inr (x, d1, buf1, src, dst)"
    using assms by (cases "chunk_loop (?d0, buf, 0, 0)") (auto simp: phr_decode_chunked_def Let_def)
  have "keeps ?d0 d1" using chunk_loop_keeps [OF run] by simp
  moreover have "d' = d1 \<or> d' = d1\<lparr>total_overhead := sz_add (total_overhead d1) (length buf - dst)\<rparr>"
    using assms run by (auto simp: phr_decode_chunked_def Let_def split: if_splits)
  ultimately show ?thesis
    by (auto simp: keeps_def intro: exI [of _ "length buf - dst"])
qed

lemma decoder_reachable_inv: "decoder_reachable n d \<Longrightarrow> chunk_inv d"
proof (induction rule: decoder_reachable.induct)
  case (fresh t)
  show ?case by (simp add: chunk_inv_def decoder_zero_def)
next
  case (call n d buf d' buf' size' ret)
  then show ?case using phr_decode_chunked_keeps by blast
qed

lemma decoder_reachable_counts:
  "decoder_reachable n d \<Longrightarrow> n < sz_modulus \<Longrightarrow> total_read d = n \<and> total_overhead d \<le> n"
proof (induction rule: decoder_reachable.induct)
  case (fresh t)
  show ?case by (simp add: decoder_zero_def)
next
  case (call n d buf d' buf' size' ret)
  then have "total_read d = n" "total_overhead d \<le> n" "n + length buf < sz_modulus" by auto
  with phr_decode_chunked_keeps [OF call.hyps(2)] show ?case by (auto simp: sz_simps)
qed

text \<open>What the invariant gives a caller.\<close>

lemma chunk_inv_bounds:
  assumes "chunk_inv d"
  shows "bytes_left_in_chunk d < sz_modulus" "hex_count d \<le> 16"
    "ck_state d \<notin> {CHUNKED_IN_CHUNK_SIZE, CHUNKED_IN_CHUNK_EXT, CHUNKED_IN_CHUNK_HEADER_EXPECT_LF} \<Longrightarrow>
       (phr_decode_chunked_is_in_data d = 1) = (0 < bytes_left_in_chunk d)"
  using assms digits_fit [of "hex_count d"]
  by (cases "ck_state d"; simp add: chunk_inv_def phr_decode_chunked_is_in_data_def)+

lemma chunk_inv_size:
  assumes "chunk_inv d" and "ck_state d = CHUNKED_IN_CHUNK_SIZE" and "hex_count d < 16" and "v < 16"
  shows "sz_add (sz_mul (bytes_left_in_chunk d) 16) v = bytes_left_in_chunk d * 16 + v"
  using assms size_step_exact by (simp add: chunk_inv_def)

end
