(* ===== verification/ReadEnds.thy ===== *)
theory ReadEnds
  imports ConnectionRead
begin

section \<open>Reading a message ends\<close>

text \<open>
  Whatever a peer sends, \<open>Connection::read\<close> does not spin: each pass of its loops on bytes
  in the buffer either ends the read or uses up some of a budget of the message, and an
  empty buffer waits for the socket. The locale states the budget; how often the socket
  still delivers bytes is the second measure.
\<close>

text \<open>A peer that delivers bytes at most \<open>rounds\<close> more times.\<close>

definition finite_peer :: "'s socket_ops \<Rightarrow> ('s \<Rightarrow> nat) \<Rightarrow> bool" where
  "finite_peer S rounds \<longleftrightarrow>
     (\<forall>s n ec ds s'. async_read_some S s n = ((ec, ds), s') \<longrightarrow> ds \<noteq> [] \<longrightarrow> rounds s' < rounds s)"

lemma consume_inv: "sb_inv b \<Longrightarrow> sb_inv (consume b n)"
  by (auto simp: sb_inv_def consume_def Let_def)

lemma length_consume [simp]: "length (sb_buffer (consume b n)) = length (sb_buffer b)"
  by (simp add: consume_def Let_def)

lemma consume_empty: "sb_inv b \<Longrightarrow> content b = [] \<Longrightarrow> content (consume b n) = []"
  using length_content [of b] by (auto simp: sb_inv_def consume_def Let_def content_def)

text \<open>
  A message that is offered bytes while its header (\<open>hinv\<close>) or its body (\<open>binv\<close>) is not
  complete; \<open>fin\<close> holds of the complete message.
\<close>

locale progressing_consumer =
  fixes M :: "'m MessageLike"
    and hinv :: "'m \<Rightarrow> bool" and binv :: "'m \<Rightarrow> bool" and fin :: "'m \<Rightarrow> bool"
    and budget :: "'m \<Rightarrow> nat"
  assumes header_progress: "hinv m \<Longrightarrow> data \<noteq> [] \<Longrightarrow>
      consumeHeaderSome M m data = Inr ((Error_none, complete, n), m') \<Longrightarrow>
      (if complete then binv m' else hinv m') \<and> budget m' < budget m"
    and body_progress: "binv m \<Longrightarrow>
      consumeBodySome M m data = Inr ((Error_none, False, n), m') \<Longrightarrow>
      binv m' \<and> budget m' \<le> budget m \<and> (data \<noteq> [] \<longrightarrow> budget m' < budget m)"
    and body_fin: "binv m \<Longrightarrow>
      consumeBodySome M m data = Inr ((Error_none, True, n), m') \<Longrightarrow> fin m'"
begin

definition reading :: "nat \<Rightarrow> static_buffer \<times> WriteState \<Rightarrow> 's connection \<Rightarrow> 'm \<Rightarrow> bool" where
  "reading cap w c m \<longleftrightarrow>
     sb_inv (cn_readBuffer c) \<and> length (sb_buffer (cn_readBuffer c)) = cap \<and> write_side c = w \<and>
     (cn_readState c = READ_HEADER \<and> hinv m \<or> cn_readState c = READ_BODY \<and> binv m)"

definition read_done :: "nat \<Rightarrow> static_buffer \<times> WriteState \<Rightarrow> 's connection \<Rightarrow> 'm \<Rightarrow> bool" where
  "read_done cap w c m \<longleftrightarrow>
     sb_inv (cn_readBuffer c) \<and> length (sb_buffer (cn_readBuffer c)) = cap \<and> write_side c = w \<and>
     cn_readState c = READ_START \<and> fin m"

lemma header_part_progress:
  assumes "reading cap w c m" and "cn_readState c = READ_HEADER" and "content (cn_readBuffer c) \<noteq> []"
    and "read_header_part M c m = Inr (c', m', Continue)"
  shows "reading cap w c' m' \<and> budget m' < budget m \<and> cn_socket c' = cn_socket c"
proof -
  have inv: "sb_inv (cn_readBuffer c)" "hinv m" using assms(1,2) by (auto simp: reading_def)
  obtain complete n where call:
    "consumeHeaderSome M m (content (cn_readBuffer c)) = Inr ((Error_none, complete, n), m')"
    "c' = (let c1 = c\<lparr>cn_readBuffer := consume (cn_readBuffer c) n\<rparr>
           in if complete then c1\<lparr>cn_readState := READ_BODY\<rparr> else c1)"
    using assms(2,4) readableSpan_content [OF inv(1)]
    by (auto simp: read_header_part_def bind_result_Inr_iff Let_def not_is_error split: if_splits)
  from header_progress [OF inv(2) assms(3) call(1)] call(2) assms(1,2) show ?thesis
    by (auto simp: reading_def write_side_def Let_def consume_inv split: if_splits)
qed

lemma body_part_progress:
  assumes "reading cap w c m" and "cn_readState c = READ_BODY"
    and "read_body_part M c m = Inr (c', m', p)"
  shows "case p of
      Continue \<Rightarrow> reading cap w c' m' \<and> budget m' \<le> budget m \<and>
        (content (cn_readBuffer c) \<noteq> [] \<longrightarrow> budget m' < budget m) \<and> cn_socket c' = cn_socket c \<and>
        (content (cn_readBuffer c) = [] \<longrightarrow> content (cn_readBuffer c') = [])
    | Complete \<Rightarrow> read_done cap w c' m' \<and> cn_socket c' = cn_socket c \<and>
        (content (cn_readBuffer c) = [] \<longrightarrow> content (cn_readBuffer c') = [])
    | Return e \<Rightarrow> is_error e"
proof -
  have inv: "sb_inv (cn_readBuffer c)" "binv m" using assms(1,2) by (auto simp: reading_def)
  obtain err complete n m1 where call:
    "consumeBodySome M m (content (cn_readBuffer c)) = Inr ((err, complete, n), m1)"
    using assms(2,3) readableSpan_content [OF inv(1)]
    by (auto simp: read_body_part_def bind_result_Inr_iff Let_def)
  note eq = read_body_part_def assms(2) readableSpan_content [OF inv(1)] call Let_def
  show ?thesis
  proof (cases "is_error err")
    case True
    with assms(3) show ?thesis by (auto simp: eq)
  next
    case False
    then have none: "err = Error_none" by (simp add: not_is_error)
    show ?thesis
    proof (cases complete)
      case True
      with assms(1,3) none body_fin [OF inv(2), of "content (cn_readBuffer c)" n m1] call inv show ?thesis
        by (auto simp: eq reading_def read_done_def write_side_def consume_inv consume_empty)
    next
      case False
      with assms(1-3) none body_progress [OF inv(2), of "content (cn_readBuffer c)" n m1] call inv show ?thesis
        by (auto simp: eq reading_def write_side_def consume_inv consume_empty)
    qed
  qed
qed

lemma pass_progress:
  assumes "reading cap w c m" and "content (cn_readBuffer c) \<noteq> []" and "read_pass M c m = Inr (c', m', p)"
  shows "case p of
      Continue \<Rightarrow> reading cap w c' m' \<and> budget m' < budget m \<and> cn_socket c' = cn_socket c
    | Complete \<Rightarrow> read_done cap w c' m' \<and> cn_socket c' = cn_socket c
    | Return e \<Rightarrow> is_error e"
proof (cases "cn_readState c = READ_HEADER")
  case True
  obtain c1 m1 q where h: "read_header_part M c m = Inr (c1, m1, q)"
    using assms(3) by (auto simp: read_pass_def bind_result_Inr_iff)
  have q: "q = Continue \<or> (\<exists>e. q = Return e \<and> is_error e)"
    using h by (auto simp: read_header_part_def bind_result_Inr_iff Let_def split: if_splits)
  show ?thesis
  proof (cases "q = Continue")
    case True
    with h have h: "read_header_part M c m = Inr (c1, m1, Continue)" by simp
    from header_part_progress [OF assms(1) \<open>cn_readState c = READ_HEADER\<close> assms(2) h]
    have r: "reading cap w c1 m1" "budget m1 < budget m" "cn_socket c1 = cn_socket c" by auto
    have b: "read_body_part M c1 m1 = Inr (c', m', p)" using assms(3) h by (simp add: read_pass_def)
    show ?thesis
    proof (cases "cn_readState c1 = READ_BODY")
      case True
      from body_part_progress [OF r(1) this b] r show ?thesis by (auto split: pass.splits)
    next
      case False
      with b r show ?thesis by (simp add: read_body_part_def split: if_splits)
    qed
  next
    case False
    with h q assms(3) show ?thesis by (auto simp: read_pass_def)
  qed
next
  case False
  with assms(1) have st: "cn_readState c = READ_BODY" by (auto simp: reading_def)
  then have "read_body_part M c m = Inr (c', m', p)"
    using assms(3) by (simp add: read_pass_def read_header_part_def)
  from body_part_progress [OF assms(1) st this] assms(2) show ?thesis by (auto split: pass.splits)
qed

definition inner_post :: "nat \<Rightarrow> static_buffer \<times> WriteState \<Rightarrow> 's connection \<Rightarrow> 'm \<Rightarrow>
    ('s connection \<times> 'm \<times> pass) result \<Rightarrow> bool" where
  "inner_post cap w c m r \<longleftrightarrow>
     (\<forall>c' m' p. r = Inr (c', m', p) \<longrightarrow>
       (case p of
          Continue \<Rightarrow> reading cap w c' m' \<and> budget m' \<le> budget m \<and> cn_socket c' = cn_socket c \<and>
            content (cn_readBuffer c') = []
        | Complete \<Rightarrow> read_done cap w c' m' \<and> cn_socket c' = cn_socket c
        | Return e \<Rightarrow> is_error e))"

lemma inner_post_step:
  "inner_post cap w c1 m1 r \<Longrightarrow> budget m1 < budget m \<Longrightarrow> cn_socket c1 = cn_socket c \<Longrightarrow> inner_post cap w c m r"
  unfolding inner_post_def by (intro allI impI) (auto split: pass.splits)

lemma read_inner_ends:
  assumes "reading cap w c m" and "budget m < fuel"
  shows "\<exists>r. read_inner fuel M c m = Some r \<and> inner_post cap w c m r"
  using assms
proof (induction fuel arbitrary: c m)
  case (Suc fuel)
  have empty: "sb_empty (cn_readBuffer c) \<longleftrightarrow> content (cn_readBuffer c) = []"
    using Suc.prems(1) by (simp add: reading_def sb_empty_content)
  show ?case
  proof (cases "content (cn_readBuffer c) = []")
    case True
    with Suc.prems(1) empty show ?thesis by (simp add: inner_post_def)
  next
    case False
    show ?thesis
    proof (cases "read_pass M c m")
      case (Inl f)
      with False empty show ?thesis by (simp add: inner_post_def)
    next
      case (Inr r)
      obtain c1 m1 p where r: "r = (c1, m1, p)" by (cases r)
      note pr = pass_progress [OF Suc.prems(1) False Inr [unfolded r]]
      show ?thesis
      proof (cases p)
        case Continue
        with pr have c1: "reading cap w c1 m1" "budget m1 < budget m" "cn_socket c1 = cn_socket c" by auto
        have "budget m1 < fuel" using c1(2) Suc.prems(2) by simp
        from Suc.IH [OF c1(1) this] obtain r' where
          r': "read_inner fuel M c1 m1 = Some r'" "inner_post cap w c1 m1 r'" by blast
        have "read_inner (Suc fuel) M c m = Some r'"
          using Inr r False empty Continue r'(1) by simp
        with inner_post_step [OF r'(2) c1(2,3)] show ?thesis by blast
      next
        case Complete
        with pr Inr r False empty show ?thesis by (simp add: inner_post_def)
      next
        case (Return e)
        with pr Inr r False empty show ?thesis by (simp add: inner_post_def)
      qed
    qed
  qed
qed simp

text \<open>The fuel of a whole read: the budget, the rounds of the peer, and one or two turns more.\<close>

definition pending_buffer :: "'s connection \<Rightarrow> nat" where
  "pending_buffer c = (if content (cn_readBuffer c) = [] then 0 else 1)"

lemma read_more_cases:
  assumes "finite_peer S rounds" and "reading cap w c m" and "read_more S c = Inr (c', p)"
  shows "(\<exists>e. p = Return e \<and> is_error e) \<or>
    p = Continue \<and> reading cap w c' m \<and>
      (if content (cn_readBuffer c) = [] then rounds (cn_socket c') < rounds (cn_socket c) else c' = c)"
proof (cases "content (cn_readBuffer c) = []")
  case True
  let ?b = "cn_readBuffer c"
  have inv: "sb_inv ?b" "sb_empty ?b" using assms(2) True by (auto simp: reading_def sb_empty_content)
  obtain ec ds s where rd: "async_read_some S (cn_socket c) (snd (writableSpan ?b)) = ((ec, ds), s)"
    by (metis prod.collapse)
  show ?thesis
  proof (cases "ec \<or> ds = []")
    case True
    with assms(3) rd inv show ?thesis
      by (auto simp: read_more_def bind_result_Inr_iff Let_def split: if_splits)
  next
    case False
    then obtain b where b: "span_write ?b (writableSpan ?b) ds = Inr b"
        "c' = c\<lparr>cn_socket := s, cn_readBuffer := commit b (length ds)\<rparr>" "p = Continue"
      using assms(3) rd inv by (auto simp: read_more_def bind_result_Inr_iff Let_def)
    from b(1) have le: "length ds \<le> room ?b"
      using inv by (auto simp: span_write_def writableSpan_room split: if_splits)
    have "fill ?b ds = Inr (commit b (length ds))" using b(1) by (simp add: fill_def)
    with fill_ok [OF inv(1) le] have "sb_inv (commit b (length ds))"
      "length (sb_buffer (commit b (length ds))) = length (sb_buffer ?b)" by auto
    with b assms(1,2) rd True False show ?thesis
      by (auto simp: reading_def write_side_def finite_peer_def)
  qed
next
  case False
  with assms(2,3) show ?thesis by (auto simp: read_more_def reading_def sb_empty_content)
qed

lemma read_outer_ends:
  assumes "finite_peer S rounds" and "reading cap w c m"
    and "budget m + rounds (cn_socket c) + pending_buffer c < fuel"
  shows "\<exists>r. read_outer fuel S M c m = Some r \<and>
    (\<forall>c' m'. r = Inr (c', m', Error_none) \<longrightarrow>
       read_done cap w c' m' \<and> rounds (cn_socket c') \<le> rounds (cn_socket c) \<and>
       (rounds (cn_socket c') = rounds (cn_socket c) \<longrightarrow>
          content (cn_readBuffer c) \<noteq> [] \<and>
          (\<exists>f. read_inner f M c m = Some (Inr (c', m', Complete)))))"
  using assms(2,3)
proof (induction fuel arbitrary: c m)
  case (Suc fuel)
  show ?case
  proof (cases "read_more S c")
    case (Inr q)
    obtain c1 p where q: "q = (c1, p)" by (cases q)
    note more = read_more_cases [OF assms(1) Suc.prems(1) Inr [unfolded q]]
    show ?thesis
    proof (cases "p = Continue")
      case True
      with more have c1: "reading cap w c1 m"
        "if content (cn_readBuffer c) = [] then rounds (cn_socket c1) < rounds (cn_socket c) else c1 = c"
        by auto
      have "budget m < fuel" using Suc.prems(2) c1(2) by (auto simp: pending_buffer_def split: if_splits)
      from read_inner_ends [OF c1(1) this] obtain r where
        r: "read_inner fuel M c1 m = Some r" "inner_post cap w c1 m r" by blast
      show ?thesis
      proof (cases r)
        case (Inl f)
        with Inr q True r(1) show ?thesis by simp
      next
        case (Inr x)
        obtain c2 m2 p2 where x: "x = (c2, m2, p2)" by (cases x)
        note r2 = r(2) [unfolded inner_post_def Inr x, rule_format, OF refl]
        note eq = \<open>read_more S c = Inr q\<close> q True r(1) Inr x
        show ?thesis
        proof (cases p2)
          case Continue
          with r2 have c2: "reading cap w c2 m2" "budget m2 \<le> budget m" "cn_socket c2 = cn_socket c1"
            "pending_buffer c2 = 0" "content (cn_readBuffer c2) = []" by (auto simp: pending_buffer_def)
          have "budget m2 + rounds (cn_socket c2) + pending_buffer c2 < fuel"
            using c2 c1(2) Suc.prems(2) by (auto simp: pending_buffer_def split: if_splits)
          from Suc.IH [OF c2(1) this] obtain r' where r': "read_outer fuel S M c2 m2 = Some r'"
            "\<And>c' m'. r' = Inr (c', m', Error_none) \<Longrightarrow> read_done cap w c' m' \<and>
               rounds (cn_socket c') \<le> rounds (cn_socket c2) \<and> rounds (cn_socket c') \<noteq> rounds (cn_socket c2)"
            using c2(5) by blast
          have "read_outer (Suc fuel) S M c m = Some r'" using Continue r'(1) by (simp add: eq)
          moreover have "rounds (cn_socket c2) \<le> rounds (cn_socket c)"
            using c2(3) c1(2) by (auto split: if_splits)
          ultimately show ?thesis using r'(2) by (metis le_trans nat_less_le not_less)
        next
          case Complete
          with r2 have d: "read_done cap w c2 m2" "cn_socket c2 = cn_socket c1" by auto
          have out: "read_outer (Suc fuel) S M c m = Some (Inr (c2, m2, Error_none))"
            using Complete by (simp add: eq)
          have inner: "read_inner fuel M c1 m = Some (Inr (c2, m2, Complete))"
            using Complete r(1) x Inr by simp
          show ?thesis
          proof (cases "content (cn_readBuffer c) = []")
            case True
            with d c1(2) show ?thesis unfolding out by auto
          next
            case False
            with d c1(2) inner show ?thesis unfolding out by auto
          qed
        next
          case (Return e)
          with r2 show ?thesis by (auto simp: eq)
        qed
      qed
    next
      case False
      with more Inr q show ?thesis by auto
    qed
  qed simp
qed simp

theorem connection_read_ends:
  assumes "finite_peer S rounds" and "hinv m" and "sb_inv (cn_readBuffer c)"
    and "budget m + rounds (cn_socket c) + 1 < fuel"
  shows "connection_read fuel S M c m \<noteq> None"
proof (cases "cn_readState c = READ_START")
  case True
  let ?c = "c\<lparr>cn_readState := READ_HEADER\<rparr>"
  have "reading (length (sb_buffer (cn_readBuffer c))) (write_side c) ?c m"
    using assms(2,3) by (simp add: reading_def write_side_def)
  moreover have "budget m + rounds (cn_socket ?c) + pending_buffer ?c < fuel"
    using assms(4) by (simp add: pending_buffer_def)
  ultimately show ?thesis
    using read_outer_ends [OF assms(1)] True by (fastforce simp: connection_read_def)
qed (simp add: connection_read_def)

end

end
