(* ===== verification/RequestEnds.thy ===== *)
theory RequestEnds
  imports HttpRequestSpec PhrChunkedInv ReadEnds
begin

section \<open>Reading a request ends\<close>

definition short_version :: "byte list \<Rightarrow> bool" where
  "short_version v \<longleftrightarrow> v = bytes ''1.0'' \<or> v = bytes ''1.1''"

text \<open>
  The budget of a request: the room left for its header, the bytes its body may still
  have, and the bytes its chunked decoder may still be given. The last one is bounded
  because the decoder gives up on a body that is mostly overhead: after an incomplete
  piece, either the overhead is below 100 KB or at least a quarter of what was read is data,
  and the data are limited to one megabyte.
\<close>

definition same_storage :: "request \<Rightarrow> request \<Rightarrow> bool" where
  "same_storage r r' \<longleftrightarrow>
     rq_headerBuffer r' = rq_headerBuffer r \<and> rq_headerBufferIdx r' = rq_headerBufferIdx r \<and>
     rq_maxHeaderSize r' = rq_maxHeaderSize r \<and> rq_bodyIdx r' = rq_bodyIdx r \<and>
     rq_maxBodySize r' = rq_maxBodySize r \<and> rq_chunkedDecoder r' = rq_chunkedDecoder r"

lemma deserialize_framing_frame:
  assumes "deserialize_framing r = Inr (ok, r')"
  shows "same_storage r r'" and "rq_version r' = rq_version r"
proof -
  obtain cl where cl: "request_get r ContentLength = Inr cl"
    using assms by (auto simp: deserialize_framing_def bind_result_Inr_iff)
  have fin: "same_storage r r' \<and> rq_version r' = rq_version r"
    if "(if rq_contentLength r1 = None then
           bind_result (request_getList r1 TransferEncoding) (\<lambda>tes.
             Inr (True, if list_ex (contains_str (bytes ''chunked'')) tes then r1\<lparr>rq_chunked := True\<rparr> else r1))
         else Inr (True, r1)) = Inr (ok, r')"
      and "same_storage r r1 \<and> rq_version r1 = rq_version r" for r1
    using that by (cases "rq_contentLength r1 = None") (auto simp: bind_result_Inr_iff same_storage_def split: if_splits)
  have "same_storage r r' \<and> rq_version r' = rq_version r"
  proof (cases cl)
    case None
    with assms cl fin [of r] show ?thesis by (simp add: deserialize_framing_def same_storage_def)
  next
    case (Some s)
    show ?thesis
    proof (cases "from_chars s")
      case None
      with assms cl Some show ?thesis by (simp add: deserialize_framing_def same_storage_def)
    next
      case (Some v)
      with assms cl \<open>cl = _\<close> fin [of "r\<lparr>rq_contentLength := Some v\<rparr>"] show ?thesis
        by (auto simp add: deserialize_framing_def same_storage_def)
    qed
  qed
  then show "same_storage r r'" and "rq_version r' = rq_version r" by auto
qed

lemma request_deserialize_frame:
  assumes "request_deserialize r = Inr (ok, r')"
  shows "same_storage r r' \<and> (ok \<longrightarrow> short_version (rq_version r'))"
proof (cases "phr_parse_request False (rq_headerBuffer r) maxNumHeaders 0")
  case (Inl e)
  with assms show ?thesis by (cases e) (auto simp: request_deserialize_def same_storage_def)
next
  case (Inr q)
  obtain p ret where q: "q = (p, ret)" by (cases q)
  let ?r1 = "r\<lparr>rq_numHeaders := length (pr_headers p), rq_method := pr_method p, rq_target := pr_path p,
      rq_version := (if pr_minor_version p = 0 then bytes ''1.0'' else bytes ''1.1''),
      rq_fields := map header_pair (pr_headers p) @ drop (length (pr_headers p)) (rq_fields r)\<rparr>"
  show ?thesis
  proof (cases "ret \<le> 0")
    case True
    with assms Inr q show ?thesis by (auto simp: request_deserialize_def same_storage_def Let_def)
  next
    case False
    with assms Inr q obtain fr r2 where fr: "deserialize_framing ?r1 = Inr (fr, r2)"
      by (auto simp: request_deserialize_def Let_def bind_result_Inr_iff)
    from deserialize_framing_frame [OF fr] have r2: "same_storage r r2" "short_version (rq_version r2)"
      by (auto simp: same_storage_def short_version_def)
    have "if fr then (\<exists>segs prs. ok \<and> r' = r2\<lparr>rq_path := segs, rq_params := prs\<rparr>) else \<not> ok \<and> r' = r2"
      using assms Inr q False fr
      by (cases fr) (auto simp: request_deserialize_def Let_def bind_result_Inr_iff)
    with r2 show ?thesis by (auto simp: same_storage_def split: if_splits)
  qed
qed

lemma header_scan_read:
  "header_scan st n i xs = (st', k) \<Longrightarrow> n \<le> i + length xs \<Longrightarrow> k \<le> i + length xs \<and> (0 < n \<longrightarrow> 0 < k)"
proof (induction xs arbitrary: st n i)
  case (Cons c cs)
  have "header_scan (scan_step st c) (if snd (scan_step st c) = 4 then i + 1 else n) (i + 1) cs = (st', k)"
    using Cons.prems(1) by (simp only: header_scan.simps Let_def)
  from Cons.IH [OF this] Cons.prems(2) show ?case by (simp split: if_splits)
qed simp

text \<open>The scan sees the end of a header only at the end of the bytes it scans.\<close>

lemma header_scan_finished:
  "header_scan st n i xs = (st', k) \<Longrightarrow> snd st' = 4 \<Longrightarrow> n = i + length xs \<or> xs \<noteq> [] \<Longrightarrow> k = i + length xs"
proof (induction xs arbitrary: st n i)
  case (Cons c cs)
  let ?n = "if snd (scan_step st c) = 4 then i + 1 else n"
  have run: "header_scan (scan_step st c) ?n (i + 1) cs = (st', k)"
    using Cons.prems(1) by (simp only: header_scan.simps Let_def)
  show ?case
  proof (cases "cs = []")
    case True
    with run Cons.prems(2) show ?thesis by auto
  next
    case False
    with Cons.IH [OF run Cons.prems(2)] show ?thesis by simp
  qed
qed simp


subsection \<open>An incomplete piece of a chunked body\<close>

lemma phr_decode_chunked_length:
  assumes "phr_decode_chunked d buf = Inr (d', buf', k, ret)"
  shows "k \<le> length buf"
proof -
  obtain y e out rest where
    dc: "dechunk (d\<lparr>total_read := sz_add (total_read d) (length buf)\<rparr>) buf = (y, e, out, rest)"
    by (cases "dechunk (d\<lparr>total_read := sz_add (total_read d) (length buf)\<rparr>) buf") auto
  show ?thesis by (rule phr_decode_chunked_spec [OF dc]) (use assms in auto)
qed

lemma phr_incomplete:
  assumes "phr_decode_chunked d buf = Inr (d', buf', k, -2)"
    and "total_read d + length buf < sz_modulus" and "total_overhead d \<le> total_read d"
  shows "k \<le> length buf" "total_read d' = total_read d + length buf"
    "total_overhead d' = total_overhead d + (length buf - k)"
    "total_overhead d' < 100 * 1024 \<or> (total_read d') div 4 \<le> total_read d' - total_overhead d'"
proof -
  let ?d0 = "d\<lparr>total_read := sz_add (total_read d) (length buf)\<rparr>"
  obtain x d1 buf1 src dst where run: "chunk_loop (?d0, buf, 0, 0) = Inr (x, d1, buf1, src, dst)"
    using assms(1) by (cases "chunk_loop (?d0, buf, 0, 0)") (auto simp: phr_decode_chunked_def Let_def)
  have le: "k \<le> length buf" by (rule phr_decode_chunked_length [OF assms(1)])
  have kp: "total_read d1 = total_read d + length buf" "total_overhead d1 = total_overhead d"
    using chunk_loop_keeps [OF run] assms(2) by (simp_all add: keeps_def sz_simps)
  have "x = Incomplete \<and> k = dst \<and>
      d' = d1\<lparr>total_overhead := sz_add (total_overhead d1) (length buf - dst)\<rparr> \<and>
      \<not> (100 * 1024 \<le> total_overhead d' \<and> sz_sub (total_read d') (total_overhead d') < total_read d' div 4)"
    using assms(1) run by (auto simp: phr_decode_chunked_def Let_def split: if_splits chunk_exit.splits)
  then have x: "k = dst" "d' = d1\<lparr>total_overhead := sz_add (total_overhead d1) (length buf - dst)\<rparr>"
    "\<not> (100 * 1024 \<le> total_overhead d' \<and> sz_sub (total_read d') (total_overhead d') < total_read d' div 4)"
    by auto
  have ov: "total_overhead d' = total_overhead d + (length buf - k)" "total_read d' = total_read d + length buf"
    using x(1,2) kp assms(2,3) by (simp_all add: sz_simps)
  show "k \<le> length buf" "total_read d' = total_read d + length buf"
    "total_overhead d' = total_overhead d + (length buf - k)"
    by (fact le ov)+
  have "sz_sub (total_read d') (total_overhead d') = total_read d' - total_overhead d'"
    using ov assms(2,3) by (intro sz_sub_small) auto
  with x(3) show "total_overhead d' < 100 * 1024 \<or> (total_read d') div 4 \<le> total_read d' - total_overhead d'"
    by auto
qed


subsection \<open>The budget\<close>

definition most_read :: nat where
  "most_read = 4 * (1024 * 1024) + 3"

text \<open>A decoder that was given \<open>total_read\<close> bytes, of which at most \<open>i\<close> were data.\<close>

definition decoder_within :: "chunked_decoder \<Rightarrow> nat \<Rightarrow> bool" where
  "decoder_within d i \<longleftrightarrow> total_overhead d \<le> total_read d \<and> total_read d \<le> total_overhead d + i \<and>
     total_read d \<le> most_read"

definition rq_hinv :: "nat \<Rightarrow> request \<Rightarrow> bool" where
  "rq_hinv cap r \<longleftrightarrow>
     rq_maxHeaderSize r = cap \<and> length (rq_headerBuffer r) = cap \<and> rq_headerBufferIdx r \<le> cap \<and>
     rq_numFound r \<noteq> 4 \<and> rq_maxBodySize r = 1024 * 1024 \<and> rq_bodyIdx r = 0 \<and> decoder_within (rq_chunkedDecoder r) 0"

definition rq_binv :: "nat \<Rightarrow> request \<Rightarrow> bool" where
  "rq_binv cap r \<longleftrightarrow>
     length (rq_headerBuffer r) = cap \<and> short_version (rq_version r) \<and>
     rq_maxBodySize r = 1024 * 1024 \<and> rq_bodyIdx r \<le> 1024 * 1024 \<and>
     (\<forall>cl. rq_contentLength r = Some cl \<longrightarrow> 0 < cl \<longrightarrow> rq_bodyIdx r \<le> cl) \<and>
     decoder_within (rq_chunkedDecoder r) (rq_bodyIdx r)"

definition rq_fin :: "nat \<Rightarrow> request \<Rightarrow> bool" where
  "rq_fin cap r \<longleftrightarrow> length (rq_headerBuffer r) = cap \<and> short_version (rq_version r)"

definition rq_budget :: "request \<Rightarrow> nat" where
  "rq_budget r = (rq_maxHeaderSize r - rq_headerBufferIdx r) + (1024 * 1024 - rq_bodyIdx r) +
     (most_read - total_read (rq_chunkedDecoder r))"

lemma decoder_within_incomplete:
  assumes "phr_decode_chunked d buf = Inr (d', buf', k, -2)" and "decoder_within d i"
    and "length buf \<le> 1024 * 1024" and "i + k \<le> 1024 * 1024"
  shows "k \<le> length buf \<and> decoder_within d' (i + k) \<and> total_read d' = total_read d + length buf"
proof -
  have d: "total_overhead d \<le> total_read d" "total_read d \<le> total_overhead d + i" "total_read d \<le> most_read"
    using assms(2) by (simp_all add: decoder_within_def)
  then have "total_read d + length buf < sz_modulus"
    using assms(3) by (simp add: most_read_def sz_modulus_def)
  note inc = phr_incomplete [OF assms(1) this d(1)]
  have "total_overhead d' \<le> total_read d'" "total_read d' \<le> total_overhead d' + (i + k)"
    using inc d by auto
  moreover from this inc(4) assms(4) have "total_read d' \<le> most_read"
    by (auto simp: most_read_def)
  ultimately show ?thesis using inc by (simp add: decoder_within_def)
qed

lemma length_vec_resize: "vec_resize n xs = Inr ys \<Longrightarrow> length ys = n"
  by (auto simp: vec_resize_def split: if_splits)

lemma rq_header_progress:
  assumes "rq_hinv cap r" and "cap < sz_modulus" and "data \<noteq> []"
    and "rq_consumeHeaderSome r data = Inr ((Error_none, complete, n), r')"
  shows "(if complete then rq_binv cap r' else rq_hinv cap r') \<and> rq_budget r' < rq_budget r \<and>
    0 < n \<and> n \<le> length data \<and> rq_headerBufferIdx r' = rq_headerBufferIdx r + n \<and>
    (complete \<longrightarrow> rq_headerBufferIdx r + length data \<le> cap \<longrightarrow> n = length data)"
proof -
  have inv: "rq_maxHeaderSize r = cap" "length (rq_headerBuffer r) = cap" "rq_headerBufferIdx r \<le> cap"
    "rq_maxBodySize r = 1024 * 1024" "rq_bodyIdx r = 0" "decoder_within (rq_chunkedDecoder r) 0"
    "rq_numFound r \<noteq> 4"
    using assms(1) by (simp_all add: rq_hinv_def)
  let ?w = "cap - rq_headerBufferIdx r"
  let ?max = "min (length data) ?w"
  have w: "sz_sub (rq_maxHeaderSize r) (rq_headerBufferIdx r) = ?w"
    using inv assms(2) by (simp add: sz_simps)
  have mx: "(if length data \<le> ?w then length data else ?w) = ?max" by auto
  obtain prev found k where scan:
    "header_scan (rq_last r, rq_numFound r) ?max 0 (take ?max data) = ((prev, found), k)"
    by (metis prod.collapse)
  let ?r1 = "r\<lparr>rq_last := prev, rq_numFound := found\<rparr>"
  have go: "\<not> (k = ?w \<and> found \<noteq> 4)"
  proof
    assume "k = ?w \<and> found \<noteq> 4"
    then have "rq_consumeHeaderSome r data = Inr ((Error_of INVALID_MESSAGE, True, 0), ?r1)"
      using scan by (simp add: rq_consumeHeaderSome_def w Let_def mx)
    with assms(4) show False by simp
  qed
  have k: "k \<le> ?max" using header_scan_read [OF scan] by simp
  have max_pos: "0 < ?max"
  proof (rule ccontr)
    assume "\<not> 0 < ?max"
    then have "?w = 0" "take ?max data = []" using assms(3) by auto
    with scan go k inv(7) show False by auto
  qed
  have k_pos: "0 < k" using header_scan_read [OF scan] max_pos by simp
  have le: "rq_headerBufferIdx r + k \<le> cap" using k inv(3) by auto
  have kd: "k \<le> length data" using k by simp
  let ?hb = "take (rq_headerBufferIdx r) (rq_headerBuffer r) @ take k data @
      drop (rq_headerBufferIdx r + k) (rq_headerBuffer r)"
  let ?r2 = "?r1\<lparr>rq_headerBuffer := ?hb, rq_headerBufferIdx := rq_headerBufferIdx r + k\<rparr>"
  have copy: "mem_load data 0 k = Inr (take k data)"
    "mem_store (rq_headerBuffer r) (rq_headerBufferIdx r) (take k data) = Inr ?hb"
    using kd le inv(2) by (simp_all add: mem_load_def mem_store_def)
  have add: "sz_add (rq_headerBufferIdx r) k = rq_headerBufferIdx r + k"
    using le assms(2) by (simp add: sz_simps)
  have eq: "rq_consumeHeaderSome r data =
      (if found = 4 then
         bind_result (request_deserialize ?r2) (\<lambda>(success, r3).
           if \<not> success then Inr ((Error_of INVALID_MESSAGE, True, 0), r3)
           else Inr ((Error_none, True, k), r3))
       else Inr ((Error_none, False, k), ?r2))"
    using go by (cases "found = 4") (auto simp: rq_consumeHeaderSome_def w Let_def mx scan copy add cong: if_cong)
  have res: "n = k \<and> (if found = 4 then complete \<and> request_deserialize ?r2 = Inr (True, r') else \<not> complete \<and> r' = ?r2)"
    using assms(4) unfolding eq by (auto simp: bind_result_Inr_iff split: if_splits)
  have store: "same_storage ?r2 r'" "complete \<longrightarrow> short_version (rq_version r')"
  proof -
    have "same_storage ?r2 r' \<and> (complete \<longrightarrow> short_version (rq_version r'))"
    proof (cases "found = 4")
      case True
      with res have "request_deserialize ?r2 = Inr (True, r')" by simp
      from request_deserialize_frame [OF this] show ?thesis by simp
    next
      case False
      with res show ?thesis by (simp add: same_storage_def)
    qed
    then show "same_storage ?r2 r'" "complete \<longrightarrow> short_version (rq_version r')" by auto
  qed
  have hb: "length ?hb = cap" using kd le inv(2) by simp
  have st: "rq_headerBuffer r' = ?hb" "rq_headerBufferIdx r' = rq_headerBufferIdx r + k"
    "rq_maxHeaderSize r' = cap" "rq_bodyIdx r' = 0" "rq_maxBodySize r' = 1024 * 1024"
    "rq_chunkedDecoder r' = rq_chunkedDecoder r"
    using store(1) inv by (simp_all add: same_storage_def)
  have "complete \<longrightarrow> rq_headerBufferIdx r + length data \<le> cap \<longrightarrow> k = length data"
    using res scan header_scan_finished [OF scan] assms(3) max_pos by (auto split: if_splits)
  moreover have "if complete then rq_binv cap r' else rq_hinv cap r'"
    using res store(2) st hb inv le by (auto simp: rq_binv_def rq_hinv_def split: if_splits)
  moreover have "rq_budget r' < rq_budget r"
    using st inv(1,5) le k_pos by (simp add: rq_budget_def)
  ultimately show ?thesis using res st(2) k k_pos by simp
qed

definition rq_body_post :: "nat \<Rightarrow> request \<Rightarrow> byte list \<Rightarrow> bool \<Rightarrow> request \<Rightarrow> bool" where
  "rq_body_post cap r data complete r' \<longleftrightarrow>
     (if complete then rq_fin cap r'
      else rq_binv cap r' \<and> rq_budget r' \<le> rq_budget r \<and> (data \<noteq> [] \<longrightarrow> rq_budget r' < rq_budget r))"

lemma rq_length_progress:
  assumes "rq_binv cap r" and "rq_contentLength r = Some cl" and "0 < cl"
    and "consume_length_body r cl data = Inr ((Error_none, complete, n), r')"
  shows "rq_body_post cap r data complete r'"
proof -
  have inv: "length (rq_headerBuffer r) = cap" "short_version (rq_version r)" "rq_maxBodySize r = 1024 * 1024"
    "rq_bodyIdx r \<le> cl" "decoder_within (rq_chunkedDecoder r) (rq_bodyIdx r)"
    using assms(1-3) by (auto simp: rq_binv_def)
  have cl: "cl \<le> 1024 * 1024" using assms(4) inv(3) by (auto simp: consume_length_body_def split: if_splits)
  then have w: "sz_sub cl (rq_bodyIdx r) = cl - rq_bodyIdx r"
    using inv(4) by (intro sz_sub_small) (simp_all add: sz_modulus_def)
  let ?k = "min (length data) (cl - rq_bodyIdx r)"
  have add: "sz_add (rq_bodyIdx r) ?k = rq_bodyIdx r + ?k"
    using inv(4) cl by (intro sz_add_small) (simp add: sz_modulus_def)
  obtain body where r': "r' = r\<lparr>rq_body := body, rq_bodyIdx := rq_bodyIdx r + ?k\<rparr>"
    and complete: "complete \<longleftrightarrow> cl \<le> rq_bodyIdx r + ?k"
    using assms(4) cl inv(3) by (auto simp: consume_length_body_def Let_def bind_result_Inr_iff w add split: if_splits)
  have within: "decoder_within (rq_chunkedDecoder r) (rq_bodyIdx r + ?k)"
    using inv(5) by (simp add: decoder_within_def)
  show ?thesis
  proof (cases complete)
    case True
    with r' inv show ?thesis by (simp add: rq_body_post_def rq_fin_def)
  next
    case False
    then have k: "?k = length data" "rq_bodyIdx r + length data < cl" using complete inv(4) by auto
    then have "rq_binv cap r'" using r' inv cl within assms(2) by (auto simp: rq_binv_def)
    moreover have "rq_budget r' \<le> rq_budget r \<and> (data \<noteq> [] \<longrightarrow> rq_budget r' < rq_budget r)"
      using k cl r' by (cases data) (auto simp: rq_budget_def)
    ultimately show ?thesis using False by (simp add: rq_body_post_def)
  qed
qed

lemma rq_chunked_progress:
  assumes "rq_binv cap r" and "\<not> (\<exists>cl. rq_contentLength r = Some cl \<and> 0 < cl)"
    and "consume_chunked_body r data = Inr ((Error_none, complete, n), r')"
  shows "rq_body_post cap r data complete r'"
proof -
  have inv: "length (rq_headerBuffer r) = cap" "short_version (rq_version r)" "rq_maxBodySize r = 1024 * 1024"
    "rq_bodyIdx r \<le> 1024 * 1024" "decoder_within (rq_chunkedDecoder r) (rq_bodyIdx r)"
    using assms(1) by (auto simp: rq_binv_def)
  have w: "sz_sub (rq_maxBodySize r) (rq_bodyIdx r) = 1024 * 1024 - rq_bodyIdx r"
    using inv(3,4) by (subst sz_sub_small) (simp_all add: sz_modulus_def)
  let ?w = "1024 * 1024 - rq_bodyIdx r"
  let ?k = "min (length data) ?w"
  define rest where "rest body2 =
     (let r1 = r\<lparr>rq_body := body2\<rparr>
      in if ?w = 0 then Inr ((Error_of INVALID_MESSAGE, True, 0), r1)
         else
           bind_result (mem_store body2 (rq_bodyIdx r) (take ?k data)) (\<lambda>body3.
           bind_result (mem_load body3 (rq_bodyIdx r) ?k) (\<lambda>piece.
           bind_result (phr_decode_chunked (rq_chunkedDecoder r1) piece)
             (\<lambda>(decoder, piece1, numCopy1, ret).
           bind_result (mem_store body3 (rq_bodyIdx r) piece1) (\<lambda>body4.
             let r2 = r1\<lparr>rq_body := body4, rq_chunkedDecoder := decoder\<rparr>
             in if ret = -1 then Inr ((Error_of INVALID_MESSAGE, True, 0), r2)
                else if ret = -2 then
                  Inr ((Error_none, False, numCopy1),
                       r2\<lparr>rq_bodyIdx := sz_add (rq_bodyIdx r2) numCopy1\<rparr>)
                else
                  let encoded = sz_sub numCopy1 (nat ret)
                  in bind_result (vec_resize (sz_add (rq_bodyIdx r2) encoded) (rq_body r2)) (\<lambda>body5.
                       Inr ((Error_none, True, encoded), r2\<lparr>rq_body := body5\<rparr>)))))))" for body2
  obtain body2 where body2: "rest body2 = Inr ((Error_none, complete, n), r')"
    using assms(3) unfolding consume_chunked_body_def w rest_def Let_def
    by (elim bind_result_InrE)
  have w0: "?w \<noteq> 0" using body2 by (auto simp: rest_def)
  obtain body3 piece d piece1 k1 ret body4 where parts:
    "mem_load body3 (rq_bodyIdx r) ?k = Inr piece"
    "phr_decode_chunked (rq_chunkedDecoder r) piece = Inr (d, piece1, k1, ret)"
    "(if ret = -1 then Inr ((Error_of INVALID_MESSAGE, True, 0), r\<lparr>rq_body := body4, rq_chunkedDecoder := d\<rparr>)
      else if ret = -2 then
        Inr ((Error_none, False, k1),
             r\<lparr>rq_body := body4, rq_chunkedDecoder := d, rq_bodyIdx := sz_add (rq_bodyIdx r) k1\<rparr>)
      else
        bind_result (vec_resize (sz_add (rq_bodyIdx r) (sz_sub k1 (nat ret))) body4) (\<lambda>body5.
          Inr ((Error_none, True, sz_sub k1 (nat ret)),
               r\<lparr>rq_chunkedDecoder := d, rq_body := body5\<rparr>))) = Inr ((Error_none, complete, n), r')"
    using body2 w0 by (auto simp: rest_def Let_def bind_result_Inr_iff cong: if_cong)
  have piece: "length piece = ?k" using parts(1) by (auto simp: mem_load_def split: if_splits)
  show ?thesis
  proof (cases "ret = -2")
    case True
    with parts(2) have call: "phr_decode_chunked (rq_chunkedDecoder r) piece = Inr (d, piece1, k1, -2)" by simp
    have k1: "rq_bodyIdx r + k1 \<le> 1024 * 1024"
      using phr_decode_chunked_length [OF call] piece inv(4) by auto
    have "length piece \<le> 1024 * 1024" using piece by simp
    from decoder_within_incomplete [OF call inv(5) this k1]
    have d: "decoder_within d (rq_bodyIdx r + k1)" "total_read d = total_read (rq_chunkedDecoder r) + ?k"
      using piece by simp_all
    have "sz_add (rq_bodyIdx r) k1 = rq_bodyIdx r + k1"
      using k1 by (intro sz_add_small) (simp add: sz_modulus_def)
    with parts(3) True have r': "\<not> complete"
      "r' = r\<lparr>rq_body := body4, rq_chunkedDecoder := d, rq_bodyIdx := rq_bodyIdx r + k1\<rparr>" by auto
    have "total_read (rq_chunkedDecoder r) + ?k \<le> most_read" using d by (simp add: decoder_within_def)
    moreover define K where "K = ?k"
    moreover have "data \<noteq> [] \<longrightarrow> 0 < ?k" using w0 by simp
    ultimately have "rq_budget r' \<le> rq_budget r \<and> (data \<noteq> [] \<longrightarrow> rq_budget r' < rq_budget r)"
      using r' k1 d(2) unfolding K_def [symmetric] rq_budget_def by auto
    moreover have "rq_binv cap r'" using r' inv k1 d(1) assms(2) by (auto simp: rq_binv_def)
    ultimately show ?thesis using r'(1) by (simp add: rq_body_post_def)
  next
    case False
    with parts(3) inv show ?thesis
      by (auto simp: rq_body_post_def rq_fin_def bind_result_Inr_iff split: if_splits)
  qed
qed

lemma rq_body_progress:
  assumes "rq_binv cap r" and "rq_consumeBodySome r data = Inr ((Error_none, complete, n), r')"
  shows "rq_body_post cap r data complete r'"
proof (cases "\<exists>cl. rq_contentLength r = Some cl \<and> 0 < cl")
  case True
  then obtain cl where cl: "rq_contentLength r = Some cl" "0 < cl" by blast
  with assms(2) have "consume_length_body r cl data = Inr ((Error_none, complete, n), r')"
    by (simp add: rq_consumeBodySome_def)
  from rq_length_progress [OF assms(1) cl this] show ?thesis .
next
  case False
  show ?thesis
  proof (cases "rq_chunked r")
    case True
    with False assms(2) have "consume_chunked_body r data = Inr ((Error_none, complete, n), r')"
      by (auto simp: rq_consumeBodySome_def split: option.splits if_splits)
    from rq_chunked_progress [OF assms(1) False this] show ?thesis .
  next
    case no: False
    with False assms(2) have "complete" "r' = r"
      by (auto simp: rq_consumeBodySome_def split: option.splits if_splits)
    with assms(1) show ?thesis by (simp add: rq_body_post_def rq_fin_def rq_binv_def)
  qed
qed

lemma rq_progressing:
  assumes "cap < sz_modulus"
  shows "progressing_consumer Request_message (rq_hinv cap) (rq_binv cap) (rq_fin cap) rq_budget"
proof
  fix m data complete n m'
  show "(if complete then rq_binv cap m' else rq_hinv cap m') \<and> rq_budget m' < rq_budget m"
    if "rq_hinv cap m" "data \<noteq> []"
      "consumeHeaderSome Request_message m data = Inr ((Error_none, complete, n), m')"
    using rq_header_progress [OF that(1) assms that(2), of complete n m'] that(3) by auto
  show "rq_binv cap m' \<and> rq_budget m' \<le> rq_budget m \<and> (data \<noteq> [] \<longrightarrow> rq_budget m' < rq_budget m)"
    if "rq_binv cap m" "consumeBodySome Request_message m data = Inr ((Error_none, False, n), m')"
    using rq_body_progress [of cap m data False n m'] that by (simp add: rq_body_post_def)
  show "rq_fin cap m'"
    if "rq_binv cap m" "consumeBodySome Request_message m data = Inr ((Error_none, True, n), m')"
    using rq_body_progress [of cap m data True n m'] that by (simp add: rq_body_post_def)
qed

interpretation reads: progressing_consumer Request_message "rq_hinv 4096" "rq_binv 4096" "rq_fin 4096" rq_budget
  by (rule rq_progressing) (simp add: sz_modulus_def)

lemma rq_hinv_span: "length hb = cap \<Longrightarrow> rq_hinv cap (request_span hb)"
  by (simp add: rq_hinv_def request_span_def decoder_within_def decoder_zero_def)

lemma rq_budget_span: "length hb = 4096 \<Longrightarrow> rq_budget (request_span hb) = 4096 + 1024 * 1024 + most_read"
  by (simp add: rq_budget_def request_span_def decoder_zero_def)


subsection \<open>A read that needs no bytes from the socket empties the buffer\<close>

lemma read_inner_fresh:
  assumes "reads.reading 4096 w c m" and "cn_readState c = READ_HEADER"
    and "rq_headerBufferIdx m + length (content (cn_readBuffer c)) \<le> 4096"
    and "read_inner fuel Request_message c m = Some (Inr (c', m', Complete))"
  shows "content (cn_readBuffer c') = []"
  using assms
proof (induction fuel arbitrary: c m)
  case (Suc fuel)
  let ?d = "content (cn_readBuffer c)"
  have inv: "sb_inv (cn_readBuffer c)" "rq_hinv 4096 m"
    using Suc.prems(1,2) by (auto simp: reads.reading_def)
  have ne: "?d \<noteq> []" using Suc.prems(4) inv(1) by (auto simp: sb_empty_content)
  obtain c1 m1 p where pass: "read_pass Request_message c m = Inr (c1, m1, p)"
    and after: "if p = Continue then read_inner fuel Request_message c1 m1 = Some (Inr (c', m', Complete))
      else (c1, m1, p) = (c', m', Complete)"
    using Suc.prems(4) ne inv(1)
    by (auto simp: sb_empty_content split: sum.splits prod.splits pass.splits if_splits)
  obtain c2 m2 q where h: "read_header_part Request_message c m = Inr (c2, m2, q)"
    using pass by (auto simp: read_pass_def bind_result_Inr_iff)
  have "q = Continue"
    using h pass after by (auto simp: read_pass_def read_header_part_def bind_result_Inr_iff Let_def split: if_splits)
  with h have h: "read_header_part Request_message c m = Inr (c2, m2, Continue)" by simp
  then have body: "read_body_part Request_message c2 m2 = Inr (c1, m1, p)"
    using pass by (simp add: read_pass_def)
  obtain complete n where call: "rq_consumeHeaderSome m ?d = Inr ((Error_none, complete, n), m2)"
    "c2 = (let c1 = c\<lparr>cn_readBuffer := consume (cn_readBuffer c) n\<rparr>
           in if complete then c1\<lparr>cn_readState := READ_BODY\<rparr> else c1)"
    using h Suc.prems(2) readableSpan_content [OF inv(1)]
    by (auto simp: read_header_part_def bind_result_Inr_iff Let_def not_is_error split: if_splits)
  have "(4096 :: nat) < sz_modulus" by (simp add: sz_modulus_def)
  from rq_header_progress [OF inv(2) this ne call(1)] Suc.prems(3)
  have n: "n \<le> length ?d" "rq_headerBufferIdx m2 = rq_headerBufferIdx m + n" "complete \<longrightarrow> n = length ?d" by auto
  have c2: "reads.reading 4096 w c2 m2" using reads.header_part_progress [OF Suc.prems(1,2) ne h] by simp
  have rest: "content (cn_readBuffer c2) = drop n ?d"
    using call(2) consume_ok(2) [OF inv(1) n(1)] by (simp add: Let_def)
  show ?case
  proof (cases complete)
    case True
    then have "cn_readState c2 = READ_BODY" "content (cn_readBuffer c2) = []"
      using call(2) rest n(3) by (simp_all add: Let_def)
    note post = reads.body_part_progress [OF c2 this(1) body] this(2)
    show ?thesis
    proof (cases "p = Continue")
      case True
      with post after have "read_inner fuel Request_message c1 m1 = Some (Inr (c', m', Complete))"
        "sb_empty (cn_readBuffer c1)" by (auto simp: reads.reading_def sb_empty_content)
      then show ?thesis by (cases fuel) auto
    next
      case False
      with post after show ?thesis by auto
    qed
  next
    case False
    then have "cn_readState c2 = READ_HEADER" using call(2) Suc.prems(2) by (simp add: Let_def)
    with body after have "cn_readState c2 = READ_HEADER"
      "read_inner fuel Request_message c2 m2 = Some (Inr (c', m', Complete))"
      by (simp_all add: read_body_part_def)
    with Suc.IH [OF c2] n(1,2) rest Suc.prems(3) show ?thesis by simp
  qed
qed simp

text \<open>The whole read of a fresh request.\<close>

lemma request_read_ends:
  assumes "finite_peer S rounds" and "length hb = 4096" and "sb_inv (cn_readBuffer c)"
    and "length (sb_buffer (cn_readBuffer c)) = 4096"
    and "4096 + 1024 * 1024 + most_read + rounds (cn_socket c) + 1 < fuel"
  shows "\<exists>r. connection_read fuel S Request_message c (request_span hb) = Some r \<and>
    (\<forall>c' m'. r = Inr (c', m', Error_none) \<longrightarrow>
       reads.read_done 4096 (write_side c) c' m' \<and>
       (rounds (cn_socket c') < rounds (cn_socket c) \<or>
        rounds (cn_socket c') = rounds (cn_socket c) \<and> content (cn_readBuffer c) \<noteq> [] \<and>
        content (cn_readBuffer c') = []))"
proof (cases "cn_readState c = READ_START")
  case True
  let ?c = "c\<lparr>cn_readState := READ_HEADER\<rparr>" and ?m = "request_span hb"
  have rd: "reads.reading 4096 (write_side c) ?c ?m"
    using assms(3,4) rq_hinv_span [OF assms(2)] by (simp add: reads.reading_def write_side_def)
  have fuel: "rq_budget ?m + rounds (cn_socket ?c) + reads.pending_buffer ?c < fuel"
    using assms(5) rq_budget_span [OF assms(2)] by (simp add: reads.pending_buffer_def)
  obtain r where r: "read_outer fuel S Request_message ?c ?m = Some r"
    "\<And>c' m'. r = Inr (c', m', Error_none) \<Longrightarrow>
       reads.read_done 4096 (write_side c) c' m' \<and> rounds (cn_socket c') \<le> rounds (cn_socket ?c) \<and>
       (rounds (cn_socket c') = rounds (cn_socket ?c) \<longrightarrow>
          content (cn_readBuffer ?c) \<noteq> [] \<and>
          (\<exists>f. read_inner f Request_message ?c ?m = Some (Inr (c', m', Complete))))"
    using reads.read_outer_ends [OF assms(1) rd fuel] by blast
  have "length (content (cn_readBuffer ?c)) \<le> 4096"
    using content_bound [OF assms(3)] assms(4) by simp
  then have "rq_headerBufferIdx ?m + length (content (cn_readBuffer ?c)) \<le> 4096"
    by (simp add: request_span_def)
  from read_inner_fresh [OF rd _ this] r True show ?thesis
    by (fastforce simp: connection_read_def le_less)
next
  case False
  then show ?thesis by (simp add: connection_read_def)
qed

end
