(* ===== verification/ConnectionWrite.thy ===== *)
theory ConnectionWrite
  imports Connection
begin

section \<open>What \<open>Connection::write\<close> sends\<close>

text \<open>
  The contract of the socket on the write side: of the bytes offered it takes a prefix,
  and \<open>wire\<close>, all it has ever taken, grows by that prefix. A reliable socket takes at
  least one byte of a non-empty offer and reports no error. Over a producer the
  connection then sends exactly the producer's header and body, in order and once, in
  whatever pieces the socket takes.
\<close>

definition write_contract :: "'s socket_ops \<Rightarrow> ('s \<Rightarrow> byte list) \<Rightarrow> bool" where
  "write_contract S wire \<longleftrightarrow>
     (\<forall>s ds ec n s'. async_write_some S s ds = ((ec, n), s') \<longrightarrow>
        n \<le> length ds \<and> wire s' = wire s @ take n ds)"

definition write_reliable :: "'s socket_ops \<Rightarrow> bool" where
  "write_reliable S \<longleftrightarrow>
     (\<forall>s ds ec n s'. async_write_some S s ds = ((ec, n), s') \<longrightarrow> ds \<noteq> [] \<longrightarrow> \<not> ec \<and> 0 < n)"

definition socket_error :: "'s socket_ops \<Rightarrow> Error \<Rightarrow> bool" where
  "socket_error S e \<longleftrightarrow>
     e \<in> {Error_of CONNECTION_ENDED, Error_of SOCKET_WRITE_ERROR} \<and> \<not> write_reliable S"

lemma socket_errorI:
  assumes "async_write_some S s ds = ((ec, n), s')" and "ds \<noteq> []" and "ec \<or> n = 0"
  shows "socket_error S (Error_of CONNECTION_ENDED)" "socket_error S (Error_of SOCKET_WRITE_ERROR)"
proof -
  from assms have "\<not> write_reliable S" unfolding write_reliable_def by blast
  then show "socket_error S (Error_of CONNECTION_ENDED)" "socket_error S (Error_of SOCKET_WRITE_ERROR)"
    by (simp_all add: socket_error_def)
qed

text \<open>
  The result of flushing: a prefix \<open>sent\<close> of the buffer is on the wire; either all of it
  is and the buffer is empty, or the socket failed.
\<close>

definition flushed ::
  "'s socket_ops \<Rightarrow> ('s \<Rightarrow> byte list) \<Rightarrow> 's connection \<Rightarrow> 's connection \<Rightarrow> pass \<Rightarrow> bool" where
  "flushed S wire c c' p \<longleftrightarrow>
     (\<exists>s b sent rest. c' = c\<lparr>cn_socket := s, cn_writeBuffer := b\<rparr> \<and>
        sb_inv b \<and> length (sb_buffer b) = length (sb_buffer (cn_writeBuffer c)) \<and>
        wire s = wire (cn_socket c) @ sent \<and> content (cn_writeBuffer c) = sent @ rest \<and>
        (p = Continue \<and> rest = [] \<and> content b = [] \<or> (\<exists>e. p = Return e \<and> socket_error S e)))"

lemma flushed_step:
  assumes contract: "write_contract S wire" and inv: "sb_inv (cn_writeBuffer c)"
    and w: "async_write_some S (cn_socket c) (content (cn_writeBuffer c)) = ((ec, n), s)"
    and rest: "flushed S wire
      (c\<lparr>cn_socket := s, cn_writeBuffer := consume (cn_writeBuffer c) n\<rparr>) c' p"
  shows "flushed S wire c c' p"
proof -
  let ?b = "cn_writeBuffer c"
  from contract w have n: "n \<le> length (content ?b)" "wire s = wire (cn_socket c) @ take n (content ?b)"
    by (auto simp: write_contract_def)
  note consumed = consume_ok [OF inv n(1)]
  from rest obtain s' b' sent rest where f: "c' = c\<lparr>cn_socket := s', cn_writeBuffer := b'\<rparr>"
      "sb_inv b'" "length (sb_buffer b') = length (sb_buffer ?b)" "wire s' = wire s @ sent"
      "drop n (content ?b) = sent @ rest"
      "p = Continue \<and> rest = [] \<and> content b' = [] \<or> (\<exists>e. p = Return e \<and> socket_error S e)"
    by (auto simp: flushed_def consumed)
  have "wire s' = wire (cn_socket c) @ (take n (content ?b) @ sent)"
    using f(4) n(2) by simp
  moreover have "content ?b = (take n (content ?b) @ sent) @ rest"
    using f(5) append_take_drop_id [of n "content ?b"] by simp
  ultimately show ?thesis using f unfolding flushed_def by blast
qed

lemma write_flush_ok:
  assumes contract: "write_contract S wire"
    and "sb_inv (cn_writeBuffer c)" and "length (content (cn_writeBuffer c)) < fuel"
  shows "\<exists>c' p. write_flush fuel S c = Some (Inr (c', p)) \<and> flushed S wire c c' p"
  using assms(2,3)
proof (induction fuel arbitrary: c)
  case (Suc fuel)
  let ?b = "cn_writeBuffer c" and ?s = "cn_socket c"
  show ?case
  proof (cases "content ?b = []")
    case True
    with Suc.prems have "flushed S wire c c Continue"
      by (auto simp: flushed_def intro!: exI [of _ ?s] exI [of _ ?b])
    with True Suc.prems show ?thesis by (auto simp: sb_empty_content)
  next
    case False
    obtain ec n s where w: "async_write_some S ?s (content ?b) = ((ec, n), s)"
      by (metis surj_pair)
    with contract have n: "n \<le> length (content ?b)" "wire s = wire ?s @ take n (content ?b)"
      by (auto simp: write_contract_def)
    have run: "write_flush (Suc fuel) S c =
      (if ec \<or> n = 0 then Some (Inr (c\<lparr>cn_socket := s\<rparr>,
          Return (Error_of (if n = 0 then CONNECTION_ENDED else SOCKET_WRITE_ERROR))))
       else write_flush fuel S (c\<lparr>cn_socket := s, cn_writeBuffer := consume ?b n\<rparr>))"
      using Suc.prems False w by (simp add: sb_empty_content readableSpan_content)
    show ?thesis
    proof (cases "ec \<or> n = 0")
      case True
      have "flushed S wire c (c\<lparr>cn_socket := s\<rparr>)
          (Return (Error_of (if n = 0 then CONNECTION_ENDED else SOCKET_WRITE_ERROR)))"
        unfolding flushed_def
        by (intro exI [of _ s] exI [of _ ?b] exI [of _ "take n (content ?b)"]
              exI [of _ "drop n (content ?b)"])
           (use Suc.prems n socket_errorI [OF w False True] in auto)
      with run True show ?thesis by simp
    next
      case ok: False
      let ?c = "c\<lparr>cn_socket := s, cn_writeBuffer := consume ?b n\<rparr>"
      from ok n(1) Suc.prems(2) have "length (content (cn_writeBuffer ?c)) < fuel"
        by (simp add: consume_ok(2) [OF Suc.prems(1) n(1)]) arith
      with Suc.IH [of ?c] consume_ok(1) [OF Suc.prems(1) n(1)] obtain c' p where
        "write_flush fuel S ?c = Some (Inr (c', p))" "flushed S wire ?c c' p" by auto
      with run ok flushed_step [OF contract Suc.prems(1) w] show ?thesis by auto
    qed
  qed
qed simp


subsection \<open>Filling the buffer from a producer\<close>

text \<open>
  The outer loop from an empty buffer: \<open>sent\<close> is what reaches the wire.
\<close>

definition delivered ::
  "'s socket_ops \<Rightarrow> ('s \<Rightarrow> byte list) \<Rightarrow> 's connection \<Rightarrow> byte list \<Rightarrow> 's connection \<Rightarrow> Error \<Rightarrow> bool" where
  "delivered S wire c text c' e \<longleftrightarrow>
     (\<exists>sent rest. wire (cn_socket c') = wire (cn_socket c) @ sent \<and> text = sent @ rest \<and>
        sb_inv (cn_writeBuffer c') \<and>
        length (sb_buffer (cn_writeBuffer c')) = length (sb_buffer (cn_writeBuffer c)) \<and>
        (e = Error_none \<and> rest = [] \<and> content (cn_writeBuffer c') = [] \<and>
           cn_writeState c' = WRITE_START \<or>
         socket_error S e))"

context message_producer
begin

text \<open>The bytes a message still has to produce in each state, and when it may produce them.\<close>

definition pending :: "'s connection \<Rightarrow> 'm \<Rightarrow> byte list" where
  "pending c m = (if cn_writeState c = WRITE_HEADER then hdr m @ bod m else bod m)"

definition producing :: "'s connection \<Rightarrow> 'm \<Rightarrow> bool" where
  "producing c m \<longleftrightarrow> cn_writeState c = WRITE_HEADER \<and> hinv m \<or> cn_writeState c = WRITE_BODY \<and> binv m"

text \<open>
  One part or one filling: \<open>out\<close> is appended to the buffer. The message is complete, or
  it has more and the buffer is full.
\<close>

definition filled :: "'s connection \<Rightarrow> 'm \<Rightarrow> 's connection \<Rightarrow> 'm \<Rightarrow> pass \<Rightarrow> bool" where
  "filled c m c' m' p \<longleftrightarrow>
     (\<exists>b st out. c' = c\<lparr>cn_writeBuffer := b, cn_writeState := st\<rparr> \<and>
        sb_inv b \<and> length (sb_buffer b) = length (sb_buffer (cn_writeBuffer c)) \<and>
        content b = content (cn_writeBuffer c) @ out \<and>
        (p = Complete \<and> out = pending c m \<and> st = WRITE_START \<or>
         p = Continue \<and> pending c m = out @ pending c' m' \<and> producing c' m' \<and> room b = 0))"

lemma body_part:
  assumes inv: "sb_inv (cn_writeBuffer c)" and st: "cn_writeState c = WRITE_BODY" and bi: "binv m"
  shows "\<exists>c' m' p. write_body_part M c m = Inr (c', m', p) \<and> filled c m c' m' p"
proof -
  let ?b = "cn_writeBuffer c" and ?k = "room (cn_writeBuffer c)"
  show ?thesis
  proof (cases "?k < length (bod m)")
    case True
    from body_more [OF bi this] obtain m' where m': "produceBodySome M m ?k =
        Inr ((Error_none, False, take ?k (bod m)), m')" "binv m'" "bod m' = drop ?k (bod m)" by blast
    have "length (take ?k (bod m)) \<le> ?k" by simp
    from fill_ok [OF inv this] True obtain b where b: "fill ?b (take ?k (bod m)) = Inr b" "sb_inv b"
        "content b = content ?b @ take ?k (bod m)" "room b = 0"
        "length (sb_buffer b) = length (sb_buffer ?b)" by auto
    then show ?thesis
      using st m' inv unfolding write_body_part_def filled_def
      by (auto simp: writableSpan_room Let_def pending_def producing_def
          intro!: exI [of _ b] exI [of _ WRITE_BODY] exI [of _ "take ?k (bod m)"])
  next
    case False
    then have le: "length (bod m) \<le> ?k" by simp
    from body_done [OF bi le] obtain m' where m': "produceBodySome M m ?k =
        Inr ((Error_none, True, bod m), m')" by blast
    from fill_ok [OF inv le] obtain b where b: "fill ?b (bod m) = Inr b" "sb_inv b"
        "content b = content ?b @ bod m" "length (sb_buffer b) = length (sb_buffer ?b)" by auto
    then show ?thesis
      using st m' inv unfolding write_body_part_def filled_def
      by (auto simp: writableSpan_room Let_def pending_def
          intro!: exI [of _ b] exI [of _ WRITE_START] exI [of _ "bod m"])
  qed
qed

text \<open>A body pass starting from a connection whose header part has just finished.\<close>

lemma pass_ok:
  assumes inv: "sb_inv (cn_writeBuffer c)" and prod: "producing c m"
  shows "\<exists>c' m' p. write_pass M c m = Inr (c', m', p) \<and> filled c m c' m' p"
proof (cases "cn_writeState c = WRITE_HEADER")
  case False
  with prod have st: "cn_writeState c = WRITE_BODY" "binv m" by (auto simp: producing_def)
  with body_part [OF inv] show ?thesis by (simp add: write_pass_def write_header_part_def)
next
  case st: True
  with prod have hi: "hinv m" by (auto simp: producing_def)
  let ?b = "cn_writeBuffer c" and ?k = "room (cn_writeBuffer c)"
  show ?thesis
  proof (cases "?k < length (hdr m)")
    case True
    from header_more [OF hi this] obtain m' where m': "produceHeaderSome M m ?k =
        Inr ((Error_none, False, take ?k (hdr m)), m')" "hinv m'" "hdr m' = drop ?k (hdr m)"
        "bod m' = bod m" by blast
    have "length (take ?k (hdr m)) \<le> ?k" by simp
    from fill_ok [OF inv this] True obtain b where b: "fill ?b (take ?k (hdr m)) = Inr b" "sb_inv b"
        "content b = content ?b @ take ?k (hdr m)" "room b = 0"
        "length (sb_buffer b) = length (sb_buffer ?b)" by auto
    then show ?thesis
      using st m' inv unfolding write_pass_def write_header_part_def write_body_part_def filled_def
      by (auto simp: writableSpan_room Let_def pending_def producing_def
          intro!: exI [of _ b] exI [of _ WRITE_HEADER] exI [of _ "take ?k (hdr m)"])
  next
    case False
    then have le: "length (hdr m) \<le> ?k" by simp
    from header_done [OF hi le] obtain m1 where m1: "produceHeaderSome M m ?k =
        Inr ((Error_none, True, hdr m), m1)" "binv m1" "bod m1 = bod m" by blast
    from fill_ok [OF inv le] obtain b where b: "fill ?b (hdr m) = Inr b" "sb_inv b"
        "content b = content ?b @ hdr m" "length (sb_buffer b) = length (sb_buffer ?b)" by auto
    let ?c1 = "c\<lparr>cn_writeBuffer := b, cn_writeState := WRITE_BODY\<rparr>"
    from body_part [of ?c1 m1] b(2) m1(2) obtain c' m' p where
      r: "write_body_part M ?c1 m1 = Inr (c', m', p)" "filled ?c1 m1 c' m' p" by auto
    have "write_pass M c m = Inr (c', m', p)"
      using st m1 b(1) inv r(1) by (simp add: write_pass_def write_header_part_def writableSpan_room Let_def)
    moreover from r(2) obtain b' st' out where f: "c' = ?c1\<lparr>cn_writeBuffer := b', cn_writeState := st'\<rparr>"
        "sb_inv b'" "length (sb_buffer b') = length (sb_buffer b)" "content b' = content b @ out"
        "p = Complete \<and> out = bod m \<and> st' = WRITE_START \<or>
         p = Continue \<and> bod m = out @ pending c' m' \<and> producing c' m' \<and> room b' = 0"
      using m1(3) by (auto simp: filled_def pending_def)
    then have "filled c m c' m' p"
      unfolding filled_def
      by (intro exI [of _ b'] exI [of _ st'] exI [of _ "hdr m @ out"])
         (use st b f in \<open>auto simp: pending_def\<close>)
    ultimately show ?thesis by blast
  qed
qed

text \<open>One pass settles a filling: two units of fuel are enough.\<close>

lemma fill_two:
  assumes inv: "sb_inv (cn_writeBuffer c)" and prod: "producing c m"
    and room: "0 < room (cn_writeBuffer c)"
  shows "\<exists>c' m' p. write_fill (Suc (Suc n)) M c m = Some (Inr (c', m', p)) \<and> filled c m c' m' p"
proof -
  from pass_ok [OF inv prod] obtain c' m' p where p: "write_pass M c m = Inr (c', m', p)"
      "filled c m c' m' p" by blast
  then have "p = Complete \<or> p = Continue \<and> snd (writableSpan (cn_writeBuffer c')) = 0"
    by (auto simp: filled_def writableSpan_room)
  with p room inv show ?thesis by (auto simp: writableSpan_room)
qed

lemma pending_flush [simp]:
  "pending (c\<lparr>cn_socket := s, cn_writeBuffer := b\<rparr>) m = pending c m"
  "producing (c\<lparr>cn_socket := s, cn_writeBuffer := b\<rparr>) m = producing c m"
  by (simp_all add: pending_def producing_def)

lemma delivered_step:
  assumes "delivered S wire c2 (pending c2 m2) c' e"
    and "wire (cn_socket c2) = wire (cn_socket c) @ out" and "pending c m = out @ pending c2 m2"
    and "length (sb_buffer (cn_writeBuffer c2)) = length (sb_buffer (cn_writeBuffer c))"
  shows "delivered S wire c (pending c m) c' e"
proof -
  from assms(1) obtain sent rest where d: "wire (cn_socket c') = wire (cn_socket c2) @ sent"
      "pending c2 m2 = sent @ rest"
      "sb_inv (cn_writeBuffer c')"
      "length (sb_buffer (cn_writeBuffer c')) = length (sb_buffer (cn_writeBuffer c2))"
      "e = Error_none \<and> rest = [] \<and> content (cn_writeBuffer c') = [] \<and>
         cn_writeState c' = WRITE_START \<or> socket_error S e"
    by (auto simp: delivered_def)
  show ?thesis
    unfolding delivered_def by (intro exI [of _ "out @ sent"] exI [of _ rest]) (use d assms in auto)
qed

lemma write_outer_ok:
  assumes contract: "write_contract S wire"
    and "sb_inv (cn_writeBuffer c)" and "content (cn_writeBuffer c) = []"
    and "0 < length (sb_buffer (cn_writeBuffer c))" and "producing c m"
    and "length (pending c m) + length (sb_buffer (cn_writeBuffer c)) + 2 < fuel"
  shows "\<exists>c' m' e. write_outer fuel S M c m = Some (Inr (c', m', e)) \<and>
           delivered S wire c (pending c m) c' e"
  using assms(2-)
proof (induction fuel arbitrary: c m)
  case (Suc fuel)
  let ?b = "cn_writeBuffer c" and ?cap = "length (sb_buffer (cn_writeBuffer c))"
  from Suc.prems have room: "0 < room ?b" by (simp add: room_empty)
  from Suc.prems(5) obtain n where n: "fuel = Suc (Suc n)"
    by (cases fuel; cases "fuel - 1") auto
  from fill_two [OF Suc.prems(1,4) room, of n] obtain c1 m1 p where
    f: "write_fill fuel M c m = Some (Inr (c1, m1, p))" "filled c m c1 m1 p"
    unfolding n by blast
  from f(2) Suc.prems(2) obtain b st out where out: "c1 = c\<lparr>cn_writeBuffer := b, cn_writeState := st\<rparr>"
      "sb_inv b" "length (sb_buffer b) = ?cap" "content b = out"
      "p = Complete \<and> out = pending c m \<and> st = WRITE_START \<or>
       p = Continue \<and> pending c m = out @ pending c1 m1 \<and> producing c1 m1 \<and> room b = 0"
    by (auto simp: filled_def)
  have "length (content (cn_writeBuffer c1)) < fuel"
    using content_bound [OF out(2)] out(1,3) Suc.prems(5) by simp
  with write_flush_ok [OF contract, of c1 fuel] out obtain c2 q where
    g: "write_flush fuel S c1 = Some (Inr (c2, q))" "flushed S wire c1 c2 q" by auto
  then obtain s b2 sent rest where fl: "c2 = c1\<lparr>cn_socket := s, cn_writeBuffer := b2\<rparr>" "sb_inv b2"
      "length (sb_buffer b2) = ?cap" "wire s = wire (cn_socket c) @ sent" "out = sent @ rest"
      "q = Continue \<and> rest = [] \<and> content b2 = [] \<or> (\<exists>e. q = Return e \<and> socket_error S e)"
    using out by (auto simp: flushed_def)
  have pre: "\<exists>more. pending c m = out @ more" using out(5) by auto
  consider (fail) e where "q = Return e" "socket_error S e"
    | (finish) "q = Continue" "rest = []" "content b2 = []" "p = Complete"
    | (more) "q = Continue" "rest = []" "content b2 = []" "p = Continue"
    using fl(6) out(5) by auto
  then show ?case
  proof cases
    case fail
    then have "delivered S wire c (pending c m) c2 e"
      using pre fl by (auto simp: delivered_def)
    with f(1) g(1) fail out(5) show ?thesis by auto
  next
    case finish
    then have "delivered S wire c (pending c m) c2 Error_none"
      using fl out by (auto simp: delivered_def)
    with f(1) g(1) finish show ?thesis by auto
  next
    case more
    from more(4) out(5) have cont: "pending c m = out @ pending c1 m1" "producing c1 m1" "room b = 0"
      by auto
    have "0 < length out" using full_content [OF out(2) cont(3)] out(3,4) Suc.prems(3) by simp
    then have "length (pending c2 m1) + ?cap + 2 < fuel"
      using Suc.prems(5) cont(1) fl(1) by (simp del: length_greater_0_conv)
    with Suc.IH [of c2 m1] fl more(3) cont(2) Suc.prems(3) obtain c' m' e where
      r: "write_outer fuel S M c2 m1 = Some (Inr (c', m', e))" "delivered S wire c2 (pending c2 m1) c' e"
      by auto
    have "delivered S wire c (pending c m) c' e"
      by (rule delivered_step [OF r(2)]) (use fl more cont in auto)
    with f(1) g(1) more r(1) show ?thesis by auto
  qed
qed simp

text \<open>The whole call, from a connection that is not writing.\<close>

lemma connection_write_ok:
  assumes contract: "write_contract S wire"
    and "sb_inv (cn_writeBuffer c)" and "content (cn_writeBuffer c) = []"
    and "0 < length (sb_buffer (cn_writeBuffer c))" and "cn_writeState c = WRITE_START" and "hinv m"
    and "length (hdr m @ bod m) + length (sb_buffer (cn_writeBuffer c)) + 2 < fuel"
  shows "\<exists>c' m' e. connection_write fuel S M c m = Some (Inr (c', m', e)) \<and>
           delivered S wire c (hdr m @ bod m) c' e"
proof -
  let ?c = "c\<lparr>cn_writeState := WRITE_HEADER\<rparr>"
  have p: "pending ?c m = hdr m @ bod m" "producing ?c m"
    using assms(6) by (simp_all add: pending_def producing_def)
  obtain c' m' e where "write_outer fuel S M ?c m = Some (Inr (c', m', e))"
      "delivered S wire ?c (hdr m @ bod m) c' e"
    using write_outer_ok [OF contract, of ?c m fuel] assms p by auto
  then show ?thesis
    using assms(5) by (auto simp: connection_write_def delivered_def)
qed

end

subsection \<open>What a write leaves alone\<close>

definition read_side :: "'s connection \<Rightarrow> static_buffer \<times> ReadState" where
  "read_side c = (cn_readBuffer c, cn_readState c)"

lemma read_side_simps [simp]:
  "read_side (c\<lparr>cn_writeBuffer := b\<rparr>) = read_side c"
  "read_side (c\<lparr>cn_writeState := st\<rparr>) = read_side c"
  "read_side (c\<lparr>cn_socket := s\<rparr>) = read_side c"
  by (simp_all add: read_side_def)

text \<open>\<open>kept\<close> is a part of the socket's state that writing does not change.\<close>

definition write_keeps :: "'s socket_ops \<Rightarrow> ('s \<Rightarrow> 'k) \<Rightarrow> bool" where
  "write_keeps S kept \<longleftrightarrow> (\<forall>s ds r s'. async_write_some S s ds = (r, s') \<longrightarrow> kept s' = kept s)"

lemma write_pass_frame:
  "write_pass M c m = Inr (c', m', p) \<Longrightarrow> read_side c' = read_side c \<and> cn_socket c' = cn_socket c"
  by (auto simp: write_pass_def write_header_part_def write_body_part_def bind_result_Inr_iff Let_def
      split: if_splits pass.splits prod.splits)

lemma write_fill_frame:
  "write_fill fuel M c m = Some (Inr (c', m', p)) \<Longrightarrow>
     read_side c' = read_side c \<and> cn_socket c' = cn_socket c"
  by (induction fuel arbitrary: c m)
     (auto dest: write_pass_frame split: if_splits sum.splits pass.splits)

lemma write_flush_frame:
  assumes "write_keeps S kept"
  shows "write_flush fuel S c = Some (Inr (c', p)) \<Longrightarrow>
     read_side c' = read_side c \<and> kept (cn_socket c') = kept (cn_socket c)"
proof (induction fuel arbitrary: c)
  case (Suc fuel)
  have k: "kept s' = kept s" if "async_write_some S s ds = (r, s')" for s ds r s'
    using assms that unfolding write_keeps_def by blast
  from Suc.prems show ?case
    by (auto split: if_splits sum.splits prod.splits dest!: Suc.IH dest: k)
qed simp

lemma write_outer_frame:
  assumes "write_keeps S kept"
  shows "write_outer fuel S M c m = Some (Inr (c', m', e)) \<Longrightarrow>
     read_side c' = read_side c \<and> kept (cn_socket c') = kept (cn_socket c)"
proof (induction fuel arbitrary: c m)
  case (Suc fuel)
  from Suc.prems show ?case
    by (auto split: if_splits sum.splits option.splits pass.splits
        dest!: Suc.IH write_fill_frame write_flush_frame [OF assms])
qed simp

lemma connection_write_frame:
  assumes "write_keeps S kept" and "connection_write fuel S M c m = Some (Inr (c', m', e))"
  shows "read_side c' = read_side c" and "kept (cn_socket c') = kept (cn_socket c)"
  using assms(2) write_outer_frame [OF assms(1), of fuel M "c\<lparr>cn_writeState := WRITE_HEADER\<rparr>" m c' m' e]
  by (auto simp: connection_write_def split: if_splits)

end
