(* ===== verification/HttpResponse.thy ===== *)
theory HttpResponse
  imports HttpTables ConnectionWrite
begin

section \<open>Responses (\<open>Http::Response\<close> in \<open>src/message/http.cpp\<close>)\<close>

text \<open>
  A response writes its header into a byte buffer that grows on demand, and hands header
  and body to the connection in pieces. \<open>rs_headerBuffer\<close> is the memory under the span
  \<open>headerBuffer_\<close> (the caller's buffer, or \<open>headerBufferOptionalData_\<close> once \<open>alloc_\<close>
  has moved to its own memory). \<open>isBodyString_\<close> has no initialiser: the constructors
  take its indeterminate initial value as the argument \<open>junk\<close>.
\<close>

record response =
  rs_headerBuffer :: "byte list"
  rs_headerBufferIdx :: nat
  rs_headerSize :: nat
  rs_defaultKeepAlive :: bool
  rs_contentLength :: nat
  rs_hasContentType :: bool
  rs_hasConnection :: bool
  rs_serialized :: bool
  rs_stringBody :: "byte list"
  rs_body :: "byte list"
  rs_bodyIdx :: nat
  rs_isBodyString :: bool

definition rs_blank :: "bool \<Rightarrow> byte list \<Rightarrow> response" where
  "rs_blank junk headerBuffer =
     \<lparr>rs_headerBuffer = headerBuffer, rs_headerBufferIdx = 0, rs_headerSize = 0,
      rs_defaultKeepAlive = True, rs_contentLength = 0, rs_hasContentType = False,
      rs_hasConnection = False, rs_serialized = False, rs_stringBody = [], rs_body = [],
      rs_bodyIdx = 0, rs_isBodyString = junk\<rparr>"

text \<open>
  \<open>alloc_\<close>. The new memory is \<open>reserve\<close>d, not initialised; its bytes past the copied
  prefix are 0 here, and no operation reads them before writing them.
\<close>

definition alloc :: "response \<Rightarrow> nat \<Rightarrow> response result" where
  "alloc r num =
     (let size = length (rs_headerBuffer r); need = sz_add (rs_headerBufferIdx r) num
      in if size \<le> need then
           let newSize = max (sz_add (sz_add size (size div 2)) 1) need
           in bind_result (mem_load (rs_headerBuffer r) 0 (rs_headerBufferIdx r)) (\<lambda>old.
              bind_result (mem_store (replicate newSize 0) 0 old) (\<lambda>newBuf.
                Inr (r\<lparr>rs_headerBuffer := newBuf\<rparr>)))
         else Inr r)"

text \<open>One \<open>memcpy\<close> at the index, and the index moved past it.\<close>

definition put_bytes :: "response \<Rightarrow> byte list \<Rightarrow> response result" where
  "put_bytes r ds =
     bind_result (mem_store (rs_headerBuffer r) (rs_headerBufferIdx r) ds) (\<lambda>hb.
       Inr (r\<lparr>rs_headerBuffer := hb,
              rs_headerBufferIdx := sz_add (rs_headerBufferIdx r) (length ds)\<rparr>))"

fun put_all :: "response \<Rightarrow> byte list list \<Rightarrow> response result" where
  "put_all r [] = Inr r"
| "put_all r (ds # dss) = bind_result (put_bytes r ds) (\<lambda>r'. put_all r' dss)"

definition rn :: "byte list" where
  "rn = [13, 10]"

definition rs_init :: "response \<Rightarrow> byte list \<Rightarrow> byte list \<Rightarrow> byte list \<Rightarrow> response result" where
  "rs_init r status reason version =
     (let r0 = (if version = bytes ''1.0'' then r\<lparr>rs_defaultKeepAlive := False\<rparr> else r);
          first = bytes ''HTTP/''; space = bytes '' '';
          fieldSize = length first + length version + 1 + length status + 1 + length reason + length rn
      in bind_result (alloc r0 fieldSize) (\<lambda>r1.
           put_all r1 [first, version, space, status, space, reason, rn]))"

definition set_field :: "response \<Rightarrow> Field \<Rightarrow> byte list \<Rightarrow> response result" where
  "set_field r field value =
     (let r0 = (if field = ContentType then r\<lparr>rs_hasContentType := True\<rparr>
                else if field = Connection then r\<lparr>rs_hasConnection := True\<rparr>
                else if field = ContentLength then
                  (case from_chars value of Some v \<Rightarrow> r\<lparr>rs_contentLength := v\<rparr> | None \<Rightarrow> r)
                else r);
          colon = bytes '': ''
      in bind_result (array_at fieldStrArr (Field_index field)) (\<lambda>fieldStr.
           let fieldSize = length fieldStr + length colon + length value + length rn
           in bind_result (alloc r0 fieldSize) (\<lambda>r1.
                put_all r1 [bytes fieldStr, colon, value, rn])))"

definition set_name :: "response \<Rightarrow> byte list \<Rightarrow> byte list \<Rightarrow> response result" where
  "set_name r field value =
     (let r0 = (if field = bytes ''Content-Type'' \<or> field = bytes ''content-type''
                then r\<lparr>rs_hasContentType := True\<rparr>
                else if field = bytes ''Connection'' \<or> field = bytes ''connection''
                then r\<lparr>rs_hasConnection := True\<rparr>
                else if field = bytes ''Content-Length'' \<or> field = bytes ''content-length''
                then (case from_chars value of Some v \<Rightarrow> r\<lparr>rs_contentLength := v\<rparr> | None \<Rightarrow> r)
                else r);
          colon = bytes '': '';
          fieldSize = length field + length colon + length value + length rn
      in bind_result (alloc r0 fieldSize) (\<lambda>r1. put_all r1 [field, colon, value, rn]))"

definition serialize :: "response \<Rightarrow> response result" where
  "serialize r =
     (let r0 = r\<lparr>rs_serialized := True\<rparr>;
          hasBody = 0 < sz_add (length (rs_body r0)) (length (rs_stringBody r0))
      in bind_result
           (if \<not> rs_hasContentType r0 \<and> hasBody then
              (if rs_isBodyString r0 then set_field r0 ContentType (bytes ''text/plain'')
               else set_field r0 ContentType (bytes ''application/octet-stream''))
            else Inr r0) (\<lambda>r1.
         bind_result
           (if \<not> rs_hasConnection r1 then
              (if rs_defaultKeepAlive r1 then set_field r1 Connection (bytes ''keep-alive'')
               else set_field r1 Connection (bytes ''close''))
            else Inr r1) (\<lambda>r2.
         bind_result
           (if rs_contentLength r2 = 0 then
              (let r3 = (if rs_isBodyString r2
                         then r2\<lparr>rs_contentLength := length (rs_stringBody r2)\<rparr>
                         else r2\<lparr>rs_contentLength := length (rs_body r2)\<rparr>)
               in set_field r3 ContentLength (to_chars (rs_contentLength r3)))
            else Inr r2) (\<lambda>r4.
         bind_result (alloc r4 (length rn)) (\<lambda>r5. put_bytes r5 rn)))))"

text \<open>The constructors: with the caller's buffer, or with memory of their own.\<close>

definition response_status :: "bool \<Rightarrow> Status \<Rightarrow> byte list \<Rightarrow> byte list \<Rightarrow> response result" where
  "response_status junk status version headerBuffer =
     bind_result (array_at statusStrArr (Status_index status)) (\<lambda>(_, strStatus, reason).
       rs_init (rs_blank junk headerBuffer) (bytes strStatus) (bytes reason) version)"

definition response_pair :: "bool \<Rightarrow> int \<times> byte list \<Rightarrow> byte list \<Rightarrow> byte list \<Rightarrow> response result" where
  "response_pair junk status version headerBuffer =
     (case to_chars_int 10 (fst status) of
        Some str \<Rightarrow> rs_init (rs_blank junk headerBuffer) str (snd status) version
      | None \<Rightarrow> Inl Undefined_behaviour)"

definition response_status_owned :: "bool \<Rightarrow> Status \<Rightarrow> byte list \<Rightarrow> response result" where
  "response_status_owned junk status version =
     bind_result (alloc (rs_blank junk []) 4096) (\<lambda>r0.
     bind_result (array_at statusStrArr (Status_index status)) (\<lambda>(_, strStatus, reason).
       rs_init r0 (bytes strStatus) (bytes reason) version))"

definition response_pair_owned :: "bool \<Rightarrow> int \<times> byte list \<Rightarrow> byte list \<Rightarrow> response result" where
  "response_pair_owned junk status version =
     bind_result (alloc (rs_blank junk []) 4096) (\<lambda>r0.
       (case to_chars_int 10 (fst status) of
          Some str \<Rightarrow> rs_init r0 str (snd status) version
        | None \<Rightarrow> Inl Undefined_behaviour))"

definition setBody_bytes :: "response \<Rightarrow> byte list \<Rightarrow> response" where
  "setBody_bytes r data = r\<lparr>rs_stringBody := [], rs_body := data, rs_isBodyString := False\<rparr>"

definition setBody_string :: "response \<Rightarrow> byte list \<Rightarrow> response" where
  "setBody_string r data = r\<lparr>rs_body := [], rs_stringBody := data, rs_isBodyString := True\<rparr>"

text \<open>The four operations of a message; a response is not consumed.\<close>

definition rs_consumeHeaderSome :: "response consume_op" where
  "rs_consumeHeaderSome r data = Inr ((Error_of INVALID_MESSAGE, True, 0), r)"

definition rs_consumeBodySome :: "response consume_op" where
  "rs_consumeBodySome r data = Inr ((Error_of INVALID_MESSAGE, True, 0), r)"

definition rs_produceHeaderSome :: "response produce_op" where
  "rs_produceHeaderSome r out =
     bind_result
       (if \<not> rs_serialized r then
          bind_result (serialize r) (\<lambda>r1.
            Inr (r1\<lparr>rs_headerSize := rs_headerBufferIdx r1, rs_headerBufferIdx := 0\<rparr>))
        else Inr r) (\<lambda>r2.
     let remaining = sz_sub (rs_headerSize r2) (rs_headerBufferIdx r2);
         numCopy = min out remaining
     in bind_result (mem_load (rs_headerBuffer r2) (rs_headerBufferIdx r2) numCopy) (\<lambda>copied.
        let r3 = r2\<lparr>rs_headerBufferIdx := sz_add (rs_headerBufferIdx r2) numCopy\<rparr>;
            finished = rs_headerSize r3 \<le> rs_headerBufferIdx r3;
            r4 = (if finished then r3\<lparr>rs_headerBufferIdx := 0\<rparr> else r3)
        in Inr ((Error_none, finished, copied), r4)))"

definition rs_produceBodySome :: "response produce_op" where
  "rs_produceBodySome r out =
     (if rs_isBodyString r then
        bind_result
          (if 0 < rs_contentLength r \<and> rs_contentLength r \<noteq> length (rs_stringBody r)
           then bind_result (vec_resize (rs_contentLength r) (rs_stringBody r)) (\<lambda>b.
                  Inr (r\<lparr>rs_stringBody := b\<rparr>))
           else Inr r) (\<lambda>r1.
        if length (rs_stringBody r1) = 0 then Inr ((Error_none, True, []), r1)
        else
          let remaining = sz_sub (length (rs_stringBody r1)) (rs_bodyIdx r1);
              numCopy = min out remaining
          in bind_result (mem_load (rs_stringBody r1) (rs_bodyIdx r1) numCopy) (\<lambda>copied.
             let r2 = r1\<lparr>rs_bodyIdx := sz_add (rs_bodyIdx r1) numCopy\<rparr>;
                 finished = length (rs_stringBody r2) \<le> rs_bodyIdx r2;
                 r3 = (if finished then r2\<lparr>rs_bodyIdx := 0\<rparr> else r2)
             in Inr ((Error_none, finished, copied), r3)))
      else
        bind_result
          (if 0 < rs_contentLength r \<and> rs_contentLength r \<noteq> length (rs_body r)
           then bind_result (vec_resize (rs_contentLength r) (rs_body r)) (\<lambda>b.
                  Inr (r\<lparr>rs_body := b\<rparr>))
           else Inr r) (\<lambda>r1.
        if length (rs_body r1) = 0 then Inr ((Error_none, True, []), r1)
        else
          let remaining = sz_sub (length (rs_body r1)) (rs_bodyIdx r1);
              numCopy = min out remaining
          in bind_result (mem_load (rs_body r1) (rs_bodyIdx r1) numCopy) (\<lambda>copied.
             let r2 = r1\<lparr>rs_bodyIdx := sz_add (rs_bodyIdx r1) numCopy\<rparr>;
                 finished = length (rs_body r2) \<le> rs_bodyIdx r2;
                 r3 = (if finished then r2\<lparr>rs_bodyIdx := 0\<rparr> else r2)
             in Inr ((Error_none, finished, copied), r3))))"


subsection \<open>What a response will send\<close>

text \<open>
  \<open>rs_text\<close> is the header written so far. \<open>rs_full_header\<close> adds the lines \<open>serialize_\<close>
  supplies for what the application left out. \<open>rs_declared\<close> is the body length the
  header declares and \<open>rs_full_body\<close> the body that follows it.
\<close>

named_theorems rs_defs "the parts of a response's text"

definition rs_text :: "response \<Rightarrow> byte list" where
  "rs_text r = take (rs_headerBufferIdx r) (rs_headerBuffer r)"

definition rs_payload :: "response \<Rightarrow> byte list" where
  "rs_payload r = (if rs_isBodyString r then rs_stringBody r else rs_body r)"

definition rs_declared :: "response \<Rightarrow> nat" where
  "rs_declared r = (if rs_contentLength r = 0 then length (rs_payload r) else rs_contentLength r)"

definition rs_full_body :: "response \<Rightarrow> byte list" where
  "rs_full_body r = resize (rs_declared r) (rs_payload r)"

definition field_line :: "byte list \<Rightarrow> byte list \<Rightarrow> byte list" where
  "field_line name value = name @ bytes '': '' @ value @ rn"

definition status_line :: "byte list \<Rightarrow> byte list \<Rightarrow> byte list \<Rightarrow> byte list" where
  "status_line version status reason =
     bytes ''HTTP/'' @ version @ bytes '' '' @ status @ bytes '' '' @ reason @ rn"

definition type_default :: "response \<Rightarrow> byte list" where
  "type_default r =
     (if \<not> rs_hasContentType r \<and> rs_body r @ rs_stringBody r \<noteq> []
      then field_line (bytes ''Content-Type'')
             (bytes (if rs_isBodyString r then ''text/plain'' else ''application/octet-stream''))
      else [])"

definition connection_default :: "response \<Rightarrow> byte list" where
  "connection_default r =
     (if rs_hasConnection r then []
      else field_line (bytes ''Connection'')
             (bytes (if rs_defaultKeepAlive r then ''keep-alive'' else ''close'')))"

definition length_default :: "response \<Rightarrow> byte list" where
  "length_default r =
     (if rs_contentLength r = 0
      then field_line (bytes ''Content-Length'') (to_chars (length (rs_payload r)))
      else [])"

definition rs_full_header :: "response \<Rightarrow> byte list" where
  "rs_full_header r =
     rs_text r @ type_default r @ connection_default r @ length_default r @ rn"

lemmas rs_default_defs = type_default_def connection_default_def length_default_def

text \<open>The invariant of the buffer while the header is being written.\<close>

definition rs_limit :: nat where
  "rs_limit = 2 ^ 61"

definition rs_inv :: "response \<Rightarrow> bool" where
  "rs_inv r \<longleftrightarrow> rs_headerBufferIdx r \<le> length (rs_headerBuffer r) \<and>
     length (rs_headerBuffer r) < 2 * rs_limit"

lemma length_rn [simp]: "length rn = 2"
  by (simp add: rn_def)

lemma length_rs_text: "rs_inv r \<Longrightarrow> length (rs_text r) = rs_headerBufferIdx r"
  by (simp add: rs_inv_def rs_text_def)

lemma rs_inv_blank: "length hb < 2 * rs_limit \<Longrightarrow> rs_inv (rs_blank junk hb)"
  by (simp add: rs_inv_def rs_blank_def)

lemma rs_text_blank [simp]: "rs_text (rs_blank junk hb) = []"
  by (simp add: rs_text_def rs_blank_def)

text \<open>\<open>r'\<close> is \<open>r\<close> with \<open>ds\<close> appended to its header.\<close>

definition appended :: "response \<Rightarrow> byte list \<Rightarrow> response \<Rightarrow> bool" where
  "appended r ds r' \<longleftrightarrow>
     rs_inv r' \<and> rs_text r' = rs_text r @ ds \<and>
     (\<exists>hb. r' = r\<lparr>rs_headerBuffer := hb, rs_headerBufferIdx := rs_headerBufferIdx r + length ds\<rparr>)"

lemma alloc_ok:
  assumes inv: "rs_inv r" and small: "rs_headerBufferIdx r + num < rs_limit"
  shows "\<exists>hb. alloc r num = Inr (r\<lparr>rs_headerBuffer := hb\<rparr>) \<and>
           take (rs_headerBufferIdx r) hb = rs_text r \<and>
           rs_headerBufferIdx r + num \<le> length hb \<and> length hb < 2 * rs_limit"
proof -
  let ?i = "rs_headerBufferIdx r" and ?s = "length (rs_headerBuffer r)"
  have need: "sz_add ?i num = ?i + num"
    using small by (simp add: sz_simps sz_modulus_def rs_limit_def)
  show ?thesis
  proof (cases "?s \<le> ?i + num")
    case False
    with inv show ?thesis
      by (intro exI [of _ "rs_headerBuffer r"]) (simp add: alloc_def need rs_text_def rs_inv_def)
  next
    case True
    let ?new = "max (?s + ?s div 2 + 1) (?i + num)"
    have grow: "sz_add (sz_add ?s (?s div 2)) (Suc 0) = ?s + ?s div 2 + 1"
      using True small by (simp add: sz_simps sz_modulus_def rs_limit_def)
    have "mem_store (replicate ?new 0) 0 (rs_text r) =
        Inr (rs_text r @ replicate (?new - ?i) 0)"
      using inv by (simp add: mem_store_def length_rs_text max_def)
    then have "alloc r num = Inr (r\<lparr>rs_headerBuffer := rs_text r @ replicate (?new - ?i) 0\<rparr>)"
      using True inv
      by (simp add: alloc_def need grow mem_load_def rs_inv_def Let_def flip: rs_text_def)
    moreover have "?new < 2 * rs_limit" "?i + num \<le> ?new"
      using True small by (auto simp: rs_limit_def)
    ultimately show ?thesis
      using inv by (intro exI) (auto simp: length_rs_text rs_inv_def)
  qed
qed

lemma put_bytes_ok:
  assumes "rs_headerBufferIdx r + length ds \<le> length (rs_headerBuffer r)"
    and "length (rs_headerBuffer r) < 2 * rs_limit"
  shows "\<exists>r'. put_bytes r ds = Inr r' \<and> appended r ds r' \<and>
           length (rs_headerBuffer r') = length (rs_headerBuffer r)"
proof -
  have "sz_add (rs_headerBufferIdx r) (length ds) = rs_headerBufferIdx r + length ds"
    using assms by (simp add: sz_simps sz_modulus_def rs_limit_def)
  then show ?thesis
    using assms
    by (auto simp: put_bytes_def mem_store_def appended_def rs_inv_def rs_text_def min_absorb2)
qed

lemma appended_trans: "appended r a r1 \<Longrightarrow> appended r1 b r2 \<Longrightarrow> appended r (a @ b) r2"
  unfolding appended_def
  by (elim conjE exE, intro conjI) (simp_all add: add.assoc, blast)

lemma appended_refl: "rs_inv r \<Longrightarrow> appended r [] r"
  by (auto simp: appended_def intro!: exI [of _ "rs_headerBuffer r"])

lemma put_all_ok:
  assumes "rs_headerBufferIdx r + length (concat dss) \<le> length (rs_headerBuffer r)"
    and "length (rs_headerBuffer r) < 2 * rs_limit"
  shows "\<exists>r'. put_all r dss = Inr r' \<and> appended r (concat dss) r'"
  using assms
proof (induction dss arbitrary: r)
  case Nil
  then show ?case by (auto simp: rs_inv_def intro!: appended_refl)
next
  case (Cons ds dss)
  then obtain r1 where r1: "put_bytes r ds = Inr r1" "appended r ds r1"
      "length (rs_headerBuffer r1) = length (rs_headerBuffer r)"
    using put_bytes_ok [of r ds] by auto
  then have "rs_headerBufferIdx r1 = rs_headerBufferIdx r + length ds"
    by (auto simp: appended_def)
  with r1 Cons.prems obtain r2 where "put_all r1 dss = Inr r2" "appended r1 (concat dss) r2"
    using Cons.IH [of r1] by auto
  with r1 show ?case by (auto intro: appended_trans)
qed

text \<open>The pattern of every writer: room first, then the pieces.\<close>

lemma alloc_put_ok:
  assumes inv: "rs_inv r" and small: "rs_headerBufferIdx r + num < rs_limit"
    and line: "concat dss = line" and num: "num = length line"
  shows "\<exists>r'. bind_result (alloc r num) (\<lambda>r1. put_all r1 dss) = Inr r' \<and> appended r line r'"
proof -
  from alloc_ok [OF inv small] obtain hb where
    a: "alloc r num = Inr (r\<lparr>rs_headerBuffer := hb\<rparr>)" (is "_ = Inr ?r1") and
    t: "take (rs_headerBufferIdx r) hb = rs_text r" and
    l: "rs_headerBufferIdx r + num \<le> length hb" "length hb < 2 * rs_limit"
    by blast
  from put_all_ok [of ?r1 dss] l num line obtain r' where
    "put_all ?r1 dss = Inr r'" "appended ?r1 line r'" by auto
  moreover from this(2) t have "appended r line r'"
    by (auto simp: appended_def rs_text_def)
  ultimately show ?thesis using a by auto
qed

subsection \<open>The writers append exactly their line\<close>

text \<open>The flags a setter records before it writes.\<close>

definition note_field :: "response \<Rightarrow> Field \<Rightarrow> byte list \<Rightarrow> response" where
  "note_field r field value =
     (if field = ContentType then r\<lparr>rs_hasContentType := True\<rparr>
      else if field = Connection then r\<lparr>rs_hasConnection := True\<rparr>
      else if field = ContentLength then
        (case from_chars value of Some v \<Rightarrow> r\<lparr>rs_contentLength := v\<rparr> | None \<Rightarrow> r)
      else r)"

definition note_name :: "response \<Rightarrow> byte list \<Rightarrow> byte list \<Rightarrow> response" where
  "note_name r field value =
     (if field = bytes ''Content-Type'' \<or> field = bytes ''content-type''
      then r\<lparr>rs_hasContentType := True\<rparr>
      else if field = bytes ''Connection'' \<or> field = bytes ''connection''
      then r\<lparr>rs_hasConnection := True\<rparr>
      else if field = bytes ''Content-Length'' \<or> field = bytes ''content-length''
      then (case from_chars value of Some v \<Rightarrow> r\<lparr>rs_contentLength := v\<rparr> | None \<Rightarrow> r)
      else r)"

definition note_version :: "response \<Rightarrow> byte list \<Rightarrow> response" where
  "note_version r version =
     (if version = bytes ''1.0'' then r\<lparr>rs_defaultKeepAlive := False\<rparr> else r)"

definition field_name :: "Field \<Rightarrow> byte list" where
  "field_name f = bytes (fieldStrArr ! Field_index f)"

lemma note_field_frame [simp]:
  "rs_headerBuffer (note_field r f v) = rs_headerBuffer r"
  "rs_headerBufferIdx (note_field r f v) = rs_headerBufferIdx r"
  "rs_headerSize (note_field r f v) = rs_headerSize r"
  "rs_serialized (note_field r f v) = rs_serialized r"
  "rs_stringBody (note_field r f v) = rs_stringBody r"
  "rs_body (note_field r f v) = rs_body r"
  "rs_bodyIdx (note_field r f v) = rs_bodyIdx r"
  "rs_isBodyString (note_field r f v) = rs_isBodyString r"
  "rs_defaultKeepAlive (note_field r f v) = rs_defaultKeepAlive r"
  by (auto simp: note_field_def split: option.splits)

lemma note_name_frame [simp]:
  "rs_headerBuffer (note_name r f v) = rs_headerBuffer r"
  "rs_headerBufferIdx (note_name r f v) = rs_headerBufferIdx r"
  by (auto simp: note_name_def split: option.splits)

lemma note_version_frame [simp]:
  "rs_headerBuffer (note_version r v) = rs_headerBuffer r"
  "rs_headerBufferIdx (note_version r v) = rs_headerBufferIdx r"
  by (auto simp: note_version_def)

text \<open>The three writers in one form: note the flags, make room, append the line.\<close>

lemma set_name_eq:
  "set_name r name v =
     bind_result (alloc (note_name r name v) (length (field_line name v)))
       (\<lambda>r1. put_all r1 [name, bytes '': '', v, rn])"
  unfolding set_name_def note_name_def Let_def field_line_def by simp

lemma rs_init_eq:
  "rs_init r status reason version =
     bind_result (alloc (note_version r version) (length (status_line version status reason)))
       (\<lambda>r1. put_all r1 [bytes ''HTTP/'', version, bytes '' '', status, bytes '' '', reason, rn])"
  unfolding rs_init_def note_version_def Let_def status_line_def by (simp add: add.assoc)

lemma set_field_eq:
  assumes "f \<noteq> Field_Count"
  shows "set_field r f v =
     bind_result (alloc (note_field r f v) (length (field_line (field_name f) v)))
       (\<lambda>r1. put_all r1 [field_name f, bytes '': '', v, rn])"
proof -
  have "array_at fieldStrArr (Field_index f) = Inr (fieldStrArr ! Field_index f)"
    using assms by (simp add: array_at_def Field_index_bound)
  then show ?thesis
    unfolding set_field_def note_field_def Let_def field_line_def field_name_def by simp
qed

lemma concat_lines:
  "concat [name, bytes '': '', v, rn] = field_line name v"
  "concat [bytes ''HTTP/'', version, bytes '' '', status, bytes '' '', reason, rn] =
     status_line version status reason"
  by (simp_all add: field_line_def status_line_def)

lemma set_field_ok:
  assumes "rs_inv r" and "f \<noteq> Field_Count"
    and "rs_headerBufferIdx r + length (field_line (field_name f) v) < rs_limit"
  shows "\<exists>r'. set_field r f v = Inr r' \<and>
           appended (note_field r f v) (field_line (field_name f) v) r'"
  unfolding set_field_eq [OF assms(2)]
  by (rule alloc_put_ok [OF _ _ concat_lines(1) refl])
     (use assms in \<open>simp_all add: rs_inv_def\<close>)

lemma set_name_ok:
  assumes "rs_inv r" and "rs_headerBufferIdx r + length (field_line name v) < rs_limit"
  shows "\<exists>r'. set_name r name v = Inr r' \<and> appended (note_name r name v) (field_line name v) r'"
  unfolding set_name_eq
  by (rule alloc_put_ok [OF _ _ concat_lines(1) refl])
     (use assms in \<open>simp_all add: rs_inv_def\<close>)

lemma rs_init_ok:
  assumes "rs_inv r"
    and "rs_headerBufferIdx r + length (status_line version status reason) < rs_limit"
  shows "\<exists>r'. rs_init r status reason version = Inr r' \<and>
           appended (note_version r version) (status_line version status reason) r'"
  unfolding rs_init_eq
  by (rule alloc_put_ok [OF _ _ concat_lines(2) refl])
     (use assms in \<open>simp_all add: rs_inv_def\<close>)


subsection \<open>Serialisation\<close>

text \<open>
  A response that has not been sent yet, small enough that no size wraps around:
  256 bytes are more than the three default lines and the final line end.
\<close>

definition rs_open :: "response \<Rightarrow> bool" where
  "rs_open r \<longleftrightarrow> rs_inv r \<and> \<not> rs_serialized r \<and> rs_bodyIdx r = 0 \<and>
     rs_headerBufferIdx r + 256 < rs_limit \<and>
     length (rs_body r) + length (rs_stringBody r) \<le> max_size \<and> rs_contentLength r \<le> max_size"

lemma length_type_default: "length (type_default r) \<le> 64"
  by (simp add: type_default_def field_line_def)

lemma length_connection_default: "length (connection_default r) \<le> 32"
  by (simp add: connection_default_def field_line_def)

lemma length_length_default:
  assumes "length (rs_payload r) < sz_modulus"
  shows "length (length_default r) \<le> 64"
  using length_to_chars_size [OF assms] by (simp add: length_default_def field_line_def)

text \<open>Each default line of \<open>serialize_\<close> is one of the setters, or nothing.\<close>

lemma field_names:
  "field_name ContentType = bytes ''Content-Type''"
  "field_name Connection = bytes ''Connection''"
  "field_name ContentLength = bytes ''Content-Length''"
  by (simp_all add: field_name_def fieldStrArr_def)

lemma default_field_ok:
  assumes "rs_inv r" and "f \<noteq> Field_Count"
    and "line = (if need then field_line (field_name f) v else [])"
    and "rs_headerBufferIdx r + length line < rs_limit"
  shows "\<exists>r'. (if need then set_field r f v else Inr r) = Inr r' \<and>
           appended (if need then note_field r f v else r) line r'"
  using set_field_ok [OF assms(1,2)] appended_refl [OF assms(1)] assms(3,4) by (cases need) auto

text \<open>What appending keeps.\<close>

lemma appended_frame:
  assumes "appended r ds r'"
  shows "rs_inv r'" and "rs_text r' = rs_text r @ ds"
    and "rs_headerBufferIdx r' = rs_headerBufferIdx r + length ds"
    and "rs_serialized r' = rs_serialized r" and "rs_headerSize r' = rs_headerSize r"
    and "rs_contentLength r' = rs_contentLength r"
    and "rs_hasContentType r' = rs_hasContentType r"
    and "rs_hasConnection r' = rs_hasConnection r"
    and "rs_defaultKeepAlive r' = rs_defaultKeepAlive r"
    and "rs_stringBody r' = rs_stringBody r" and "rs_body r' = rs_body r"
    and "rs_bodyIdx r' = rs_bodyIdx r" and "rs_isBodyString r' = rs_isBodyString r"
  using assms by (auto simp: appended_def)

lemma note_field_flags [simp]:
  "rs_hasContentType (note_field r f v) = (f = ContentType \<or> rs_hasContentType r)"
  "rs_hasConnection (note_field r f v) = (f = Connection \<or> rs_hasConnection r)"
  "rs_contentLength (note_field r f v) =
     (if f = ContentLength then (case from_chars v of Some n \<Rightarrow> n | None \<Rightarrow> rs_contentLength r)
      else rs_contentLength r)"
  by (auto simp: note_field_def split: option.splits)

lemma rs_text_note_field [simp]: "rs_text (note_field r f v) = rs_text r"
  by (simp add: rs_text_def)

definition same_body :: "response \<Rightarrow> response \<Rightarrow> bool" where
  "same_body r r' \<longleftrightarrow> rs_stringBody r' = rs_stringBody r \<and> rs_body r' = rs_body r \<and>
     rs_bodyIdx r' = rs_bodyIdx r \<and> rs_isBodyString r' = rs_isBodyString r \<and>
     rs_serialized r' = rs_serialized r \<and> rs_defaultKeepAlive r' = rs_defaultKeepAlive r"

text \<open>\<open>r'\<close> is \<open>r\<close> with a line appended and its body untouched.\<close>

definition extended :: "response \<Rightarrow> byte list \<Rightarrow> response \<Rightarrow> bool" where
  "extended r line r' \<longleftrightarrow> rs_inv r' \<and> rs_text r' = rs_text r @ line \<and>
     rs_headerBufferIdx r' = rs_headerBufferIdx r + length line \<and> same_body r r'"

lemma extended_refl: "rs_inv r \<Longrightarrow> extended r [] r"
  by (simp add: extended_def same_body_def)

lemma set_field_extended:
  assumes "rs_inv r" and "f \<noteq> Field_Count"
    and "rs_headerBufferIdx r + length (field_line (field_name f) v) < rs_limit"
  obtains r' where "set_field r f v = Inr r'" and "extended r (field_line (field_name f) v) r'"
    and "rs_hasConnection r' = (f = Connection \<or> rs_hasConnection r)"
    and "rs_contentLength r' =
      (if f = ContentLength then (case from_chars v of Some n \<Rightarrow> n | None \<Rightarrow> rs_contentLength r)
       else rs_contentLength r)"
proof -
  from set_field_ok [OF assms] obtain r' where r': "set_field r f v = Inr r'"
    and app: "appended (note_field r f v) (field_line (field_name f) v) r'" by blast
  from appended_frame [OF app] show ?thesis
    by (intro that [OF r']) (auto simp: extended_def same_body_def)
qed

lemma type_step:
  assumes "rs_inv r" and "rs_headerBufferIdx r + 64 < rs_limit"
  obtains r' where
    "(if \<not> rs_hasContentType r \<and> rs_body r @ rs_stringBody r \<noteq> []
      then set_field r ContentType
        (bytes (if rs_isBodyString r then ''text/plain'' else ''application/octet-stream''))
      else Inr r) = Inr r'"
    and "extended r (type_default r) r'" and "rs_hasConnection r' = rs_hasConnection r"
    and "rs_contentLength r' = rs_contentLength r"
proof (cases "\<not> rs_hasContentType r \<and> rs_body r @ rs_stringBody r \<noteq> []")
  case True
  then have line: "type_default r = field_line (field_name ContentType)
      (bytes (if rs_isBodyString r then ''text/plain'' else ''application/octet-stream''))"
    unfolding type_default_def field_names by simp
  have fits: "rs_headerBufferIdx r + length (type_default r) < rs_limit"
    using assms(2) length_type_default [of r] by simp
  obtain r' where "set_field r ContentType (bytes (if rs_isBodyString r then ''text/plain''
      else ''application/octet-stream'')) = Inr r'" "extended r (type_default r) r'"
      "rs_hasConnection r' = rs_hasConnection r" "rs_contentLength r' = rs_contentLength r"
    by (rule set_field_extended [OF assms(1) _ fits [unfolded line]]) (simp_all add: line)
  with True show ?thesis by (intro that [of r']) (simp_all only: if_True HOL.simp_thms)
next
  case False
  then have "type_default r = []" by (auto simp: type_default_def)
  with False extended_refl [OF assms(1)] show ?thesis
    by (intro that [of r]) (simp_all only: if_False HOL.simp_thms)
qed

lemma connection_step:
  assumes "rs_inv r" and "rs_headerBufferIdx r + 32 < rs_limit"
  obtains r' where
    "(if \<not> rs_hasConnection r
      then set_field r Connection
        (bytes (if rs_defaultKeepAlive r then ''keep-alive'' else ''close''))
      else Inr r) = Inr r'"
    and "extended r (connection_default r) r'" and "rs_contentLength r' = rs_contentLength r"
proof (cases "rs_hasConnection r")
  case False
  then have line: "connection_default r = field_line (field_name Connection)
      (bytes (if rs_defaultKeepAlive r then ''keep-alive'' else ''close''))"
    unfolding connection_default_def field_names by simp
  have fits: "rs_headerBufferIdx r + length (connection_default r) < rs_limit"
    using assms(2) length_connection_default [of r] by simp
  obtain r' where "set_field r Connection (bytes (if rs_defaultKeepAlive r then ''keep-alive''
      else ''close'')) = Inr r'" "extended r (connection_default r) r'"
      "rs_contentLength r' = rs_contentLength r"
    by (rule set_field_extended [OF assms(1) _ fits [unfolded line]]) (simp_all add: line)
  with False show ?thesis by (intro that [of r']) (simp_all only: if_True HOL.simp_thms)
next
  case True
  show ?thesis
    by (rule that [of r])
       (use True extended_refl [OF assms(1)] in \<open>simp_all add: connection_default_def\<close>)
qed

lemma length_step:
  assumes "rs_inv r" and "rs_headerBufferIdx r + 64 < rs_limit"
    and pay: "length (rs_payload r) < sz_modulus"
  obtains r' where
    "(if rs_contentLength r = 0
      then set_field (r\<lparr>rs_contentLength := length (rs_payload r)\<rparr>) ContentLength
        (to_chars (length (rs_payload r)))
      else Inr r) = Inr r'"
    and "extended r (length_default r) r'" and "rs_contentLength r' = rs_declared r"
proof (cases "rs_contentLength r = 0")
  case True
  let ?r = "r\<lparr>rs_contentLength := length (rs_payload r)\<rparr>"
  from True have line: "length_default r = field_line (field_name ContentLength)
      (to_chars (length (rs_payload r)))"
    unfolding length_default_def field_names by simp
  have fits: "rs_headerBufferIdx ?r + length (length_default r) < rs_limit"
    using assms(2) length_length_default [OF pay] by simp
  have inv: "rs_inv ?r" using assms(1) by (simp add: rs_inv_def)
  obtain r' where r': "set_field ?r ContentLength (to_chars (length (rs_payload r))) = Inr r'"
      "extended ?r (length_default r) r'" "rs_contentLength r' = length (rs_payload r)"
    using set_field_extended [OF inv _ fits [unfolded line]] line pay
    by (auto simp: from_chars_to_chars)
  have "rs_text ?r = rs_text r" "same_body ?r = same_body r"
    "rs_headerBufferIdx ?r = rs_headerBufferIdx r"
    by (simp_all add: rs_text_def same_body_def fun_eq_iff)
  with r'(2) have ext: "extended r (length_default r) r'"
    by (simp only: extended_def)
  show ?thesis
    by (rule that [of r']) (use r'(1,3) ext True in \<open>simp_all add: rs_declared_def\<close>)
next
  case False
  show ?thesis
    by (rule that [of r])
       (use False extended_refl [OF assms(1)] in \<open>simp_all add: length_default_def rs_declared_def\<close>)
qed

lemma serialize_eq:
  assumes "length (rs_body r) + length (rs_stringBody r) < sz_modulus"
  shows "serialize r =
    (let r0 = r\<lparr>rs_serialized := True\<rparr>
     in bind_result
          (if \<not> rs_hasContentType r0 \<and> rs_body r0 @ rs_stringBody r0 \<noteq> []
           then set_field r0 ContentType
             (bytes (if rs_isBodyString r0 then ''text/plain'' else ''application/octet-stream''))
           else Inr r0) (\<lambda>r1.
        bind_result
          (if \<not> rs_hasConnection r1
           then set_field r1 Connection
             (bytes (if rs_defaultKeepAlive r1 then ''keep-alive'' else ''close''))
           else Inr r1) (\<lambda>r2.
        bind_result
          (if rs_contentLength r2 = 0
           then set_field (r2\<lparr>rs_contentLength := length (rs_payload r2)\<rparr>) ContentLength
             (to_chars (length (rs_payload r2)))
           else Inr r2) (\<lambda>r4.
        bind_result (alloc r4 (length rn)) (\<lambda>r5. put_all r5 [rn])))))"
proof -
  have "0 < sz_add (length (rs_body r)) (length (rs_stringBody r)) \<longleftrightarrow> rs_body r @ rs_stringBody r \<noteq> []"
    using assms by (auto simp: sz_simps)
  moreover have "bind_result (put_bytes r5 rn) (\<lambda>r'. Inr r') = put_bytes r5 rn" for r5
    by (cases "put_bytes r5 rn") auto
  ultimately show ?thesis
    unfolding serialize_def Let_def rs_payload_def
    by (intro arg_cong2 [where f = bind_result] ext) (auto simp del: bytes_Cons bytes_Nil)
qed

lemma serialize_ok:
  assumes "rs_open r"
  shows "\<exists>r'. serialize r = Inr r' \<and> rs_inv r' \<and> rs_text r' = rs_full_header r \<and>
           rs_contentLength r' = rs_declared r \<and> same_body (r\<lparr>rs_serialized := True\<rparr>) r'"
proof -
  let ?r0 = "r\<lparr>rs_serialized := True\<rparr>"
  from assms have inv: "rs_inv ?r0" and idx: "rs_headerBufferIdx ?r0 + 256 < rs_limit"
    and size: "length (rs_body r) + length (rs_stringBody r) < sz_modulus"
    by (auto simp: rs_open_def rs_inv_def dest: max_size_less)
  have pay: "length (rs_payload r) < sz_modulus" using size by (auto simp: rs_payload_def)
  note lens = length_type_default [of ?r0] length_connection_default [of r]
    length_length_default [OF pay]
  obtain r1 where r1: "(if \<not> rs_hasContentType ?r0 \<and> rs_body ?r0 @ rs_stringBody ?r0 \<noteq> []
      then set_field ?r0 ContentType
        (bytes (if rs_isBodyString ?r0 then ''text/plain'' else ''application/octet-stream''))
      else Inr ?r0) = Inr r1" "extended ?r0 (type_default ?r0) r1"
      "rs_hasConnection r1 = rs_hasConnection ?r0" "rs_contentLength r1 = rs_contentLength ?r0"
    by (rule type_step [OF inv]) (use idx in linarith)
  from r1(2,3) have d1: "connection_default r1 = connection_default r"
    by (simp add: connection_default_def extended_def same_body_def)
  obtain r2 where r2: "(if \<not> rs_hasConnection r1 then set_field r1 Connection
      (bytes (if rs_defaultKeepAlive r1 then ''keep-alive'' else ''close'')) else Inr r1) = Inr r2"
      "extended r1 (connection_default r) r2" "rs_contentLength r2 = rs_contentLength r"
    by (rule connection_step [of r1]) (use idx lens r1 d1 in \<open>auto simp: extended_def\<close>)
  from r1(2) r2(2) have p2: "rs_payload r2 = rs_payload r"
    by (simp add: rs_payload_def extended_def same_body_def)
  with r2(3) have d2: "length_default r2 = length_default r" "rs_declared r2 = rs_declared r"
    by (simp_all add: length_default_def rs_declared_def)
  obtain r4 where r4: "(if rs_contentLength r2 = 0
      then set_field (r2\<lparr>rs_contentLength := length (rs_payload r2)\<rparr>) ContentLength
        (to_chars (length (rs_payload r2))) else Inr r2) = Inr r4"
      "extended r2 (length_default r) r4" "rs_contentLength r4 = rs_declared r"
    by (rule length_step [of r2]) (use idx lens r1 r2 d2 p2 pay in \<open>auto simp: extended_def\<close>)
  have "rs_inv r4" "rs_headerBufferIdx r4 + length rn < rs_limit"
    using idx lens r1(2) r2(2) r4(2) by (auto simp: extended_def)
  from alloc_put_ok [OF this _ refl, of "[rn]"] obtain r5 where
    r5: "bind_result (alloc r4 (length rn)) (\<lambda>r1. put_all r1 [rn]) = Inr r5" "appended r4 rn r5"
    by auto
  have "serialize r = Inr r5"
    unfolding serialize_eq [OF size] Let_def r1(1) bind_result_simps r2(1) r4(1) by (rule r5(1))
  moreover have "type_default ?r0 = type_default r" "rs_text ?r0 = rs_text r"
    by (simp_all add: type_default_def rs_text_def)
  ultimately show ?thesis
    using appended_frame [OF r5(2)] r1(2) r2(2) r4(2,3)
    by (auto simp: rs_full_header_def same_body_def extended_def)
qed

subsection \<open>A response is a producer of its header and its body\<close>

text \<open>
  \<open>rs_hdr\<close> and \<open>rs_bod\<close> are the bytes still to be sent. A response is ready to send
  (\<open>rs_hready\<close>) before its first call and while its header goes out, and its body is
  ready (\<open>rs_bready\<close>) from the last header byte on.
\<close>

definition rs_hdr :: "response \<Rightarrow> byte list" where
  "rs_hdr r =
     (if rs_serialized r
      then drop (rs_headerBufferIdx r) (take (rs_headerSize r) (rs_headerBuffer r))
      else rs_full_header r)"

definition rs_bod :: "response \<Rightarrow> byte list" where
  "rs_bod r = drop (rs_bodyIdx r) (rs_full_body r)"

definition rs_bready :: "response \<Rightarrow> bool" where
  "rs_bready r \<longleftrightarrow> rs_bodyIdx r \<le> rs_declared r \<and> rs_declared r \<le> max_size"

definition rs_sending :: "response \<Rightarrow> bool" where
  "rs_sending r \<longleftrightarrow> rs_serialized r \<and> rs_headerBufferIdx r \<le> rs_headerSize r \<and>
     rs_headerSize r \<le> length (rs_headerBuffer r) \<and> length (rs_headerBuffer r) < 2 * rs_limit"

definition rs_hready :: "response \<Rightarrow> bool" where
  "rs_hready r \<longleftrightarrow> rs_bready r \<and> (rs_open r \<or> rs_sending r)"

definition ready_to_send :: "response \<Rightarrow> response result" where
  "ready_to_send r =
     (if \<not> rs_serialized r then
        bind_result (serialize r) (\<lambda>r1.
          Inr (r1\<lparr>rs_headerSize := rs_headerBufferIdx r1, rs_headerBufferIdx := 0\<rparr>))
      else Inr r)"

lemma ready_to_send_ok:
  assumes "rs_hready r"
  obtains r' where "ready_to_send r = Inr r'" and "rs_sending r'" and "rs_bready r'"
    and "rs_hdr r' = rs_hdr r" and "rs_bod r' = rs_bod r"
proof (cases "rs_serialized r")
  case True
  with assms that show ?thesis by (auto simp: ready_to_send_def rs_hready_def rs_open_def)
next
  case False
  with assms have op: "rs_open r" and br: "rs_bready r" by (auto simp: rs_hready_def rs_sending_def)
  from serialize_ok [OF op] obtain r1 where r1: "serialize r = Inr r1" "rs_inv r1"
      "rs_text r1 = rs_full_header r" "rs_contentLength r1 = rs_declared r"
      "same_body (r\<lparr>rs_serialized := True\<rparr>) r1" by blast
  let ?r2 = "r1\<lparr>rs_headerSize := rs_headerBufferIdx r1, rs_headerBufferIdx := 0\<rparr>"
  have pay: "rs_payload ?r2 = rs_payload r" using r1(5) by (simp add: rs_payload_def same_body_def)
  then have dec: "rs_declared ?r2 = rs_declared r"
    using r1(4) by (auto simp: rs_declared_def)
  show ?thesis
  proof (rule that)
    show "ready_to_send r = Inr ?r2" using False r1(1) by (simp add: ready_to_send_def)
    show "rs_sending ?r2" using r1(2,5) by (simp add: rs_sending_def rs_inv_def same_body_def)
    show "rs_bready ?r2" using br dec r1(5) by (simp add: rs_bready_def same_body_def)
    show "rs_hdr ?r2 = rs_hdr r"
      using False r1(3,5) by (simp add: rs_hdr_def same_body_def rs_text_def)
    show "rs_bod ?r2 = rs_bod r"
      using r1(5) pay dec by (simp add: rs_bod_def rs_full_body_def same_body_def)
  qed
qed

lemma rs_body_frame [simp]:
  "rs_bod (r\<lparr>rs_headerBufferIdx := i\<rparr>) = rs_bod r"
  "rs_bready (r\<lparr>rs_headerBufferIdx := i\<rparr>) = rs_bready r"
  by (simp_all add: rs_bod_def rs_bready_def rs_full_body_def rs_declared_def rs_payload_def)

lemma rs_produceHeader_sending:
  fixes out :: nat
  assumes "rs_sending r" and "rs_bready r"
  defines "r1 \<equiv> r\<lparr>rs_headerBufferIdx := rs_headerBufferIdx r + min out (length (rs_hdr r))\<rparr>"
  shows "rs_produceHeaderSome r out =
    Inr ((Error_none, length (rs_hdr r) \<le> out, take out (rs_hdr r)),
      if length (rs_hdr r) \<le> out then r1\<lparr>rs_headerBufferIdx := 0\<rparr> else r1)"
proof -
  let ?i = "rs_headerBufferIdx r" and ?n = "rs_headerSize r"
  from assms(1) have s: "rs_serialized r" "?i \<le> ?n" "?n \<le> length (rs_headerBuffer r)"
      "?n < sz_modulus"
    by (auto simp: rs_sending_def rs_limit_def sz_modulus_def)
  then have hdr: "rs_hdr r = take (?n - ?i) (drop ?i (rs_headerBuffer r))"
      and len: "length (rs_hdr r) = ?n - ?i"
    by (simp_all add: rs_hdr_def drop_take)
  have sub: "sz_sub ?n ?i = length (rs_hdr r)" using s len by (simp add: sz_simps)
  have add: "sz_add ?i (min out (length (rs_hdr r))) = ?i + min out (length (rs_hdr r))"
    using s len by (simp add: sz_simps min_def)
  have load: "mem_load (rs_headerBuffer r) ?i (min out (length (rs_hdr r))) = Inr (take out (rs_hdr r))"
    using s len by (auto simp: mem_load_def hdr min_def)
  have fin: "?n \<le> ?i + min out (length (rs_hdr r)) \<longleftrightarrow> length (rs_hdr r) \<le> out"
    using s len by auto
  show ?thesis
    using add by (simp add: rs_produceHeaderSome_def s(1) sub load Let_def r1_def fin)
qed

lemma rs_produceHeader_ready:
  "ready_to_send r = Inr r' \<Longrightarrow> rs_sending r' \<Longrightarrow>
     rs_produceHeaderSome r out = rs_produceHeaderSome r' out"
  by (auto simp: rs_produceHeaderSome_def ready_to_send_def rs_sending_def split: if_splits)

lemma rs_header_more:
  assumes "rs_hready r" and "k < length (rs_hdr r)"
  shows "\<exists>r'. rs_produceHeaderSome r k = Inr ((Error_none, False, take k (rs_hdr r)), r') \<and>
           rs_hready r' \<and> rs_hdr r' = drop k (rs_hdr r) \<and> rs_bod r' = rs_bod r"
proof -
  from ready_to_send_ok [OF assms(1)] obtain r1 where r1: "ready_to_send r = Inr r1"
    "rs_sending r1" "rs_bready r1" "rs_hdr r1 = rs_hdr r" "rs_bod r1 = rs_bod r" .
  let ?r' = "r1\<lparr>rs_headerBufferIdx := rs_headerBufferIdx r1 + k\<rparr>"
  have "rs_produceHeaderSome r k = Inr ((Error_none, False, take k (rs_hdr r)), ?r')"
    using rs_produceHeader_sending [OF r1(2,3), of k] assms(2) r1(4)
    by (simp add: rs_produceHeader_ready [OF r1(1,2)])
  moreover have "rs_hdr ?r' = drop k (rs_hdr r1)"
    using r1(2) by (simp add: rs_hdr_def rs_sending_def add.commute)
  moreover have "rs_headerBufferIdx r1 + k \<le> rs_headerSize r1"
    using r1(2) assms(2) unfolding r1(4) [symmetric] by (simp add: rs_hdr_def rs_sending_def)
  then have "rs_hready ?r'"
    using r1(2,3) by (simp add: rs_hready_def rs_sending_def)
  ultimately show ?thesis using r1(4,5) by auto
qed

lemma rs_header_done:
  assumes "rs_hready r" and "length (rs_hdr r) \<le> k"
  shows "\<exists>r'. rs_produceHeaderSome r k = Inr ((Error_none, True, rs_hdr r), r') \<and>
           rs_bready r' \<and> rs_bod r' = rs_bod r"
proof -
  from ready_to_send_ok [OF assms(1)] obtain r1 where r1: "ready_to_send r = Inr r1"
    "rs_sending r1" "rs_bready r1" "rs_hdr r1 = rs_hdr r" "rs_bod r1 = rs_bod r" .
  let ?r' = "r1\<lparr>rs_headerBufferIdx := 0\<rparr>"
  have "rs_produceHeaderSome r k = Inr ((Error_none, True, rs_hdr r), ?r')"
    using rs_produceHeader_sending [OF r1(2,3), of k] assms(2) r1(4)
    by (simp add: rs_produceHeader_ready [OF r1(1,2)])
  moreover have "rs_bready ?r'" "rs_bod ?r' = rs_bod r"
    using r1(3,5) by simp_all
  ultimately show ?thesis by blast
qed

lemma length_rs_full_body [simp]: "length (rs_full_body r) = rs_declared r"
  by (simp add: rs_full_body_def)

text \<open>One piece out of a body of which \<open>i\<close> bytes have gone.\<close>

lemma body_piece:
  assumes "i \<le> length b" and "length b \<le> max_size"
  shows "sz_sub (length b) i = length (drop i b)"
    and "mem_load b i (min out (length (drop i b))) = Inr (take out (drop i b))"
    and "sz_add i (min out (length (drop i b))) = i + min out (length (drop i b))"
    and "length b \<le> i + min out (length (drop i b)) \<longleftrightarrow> length (drop i b) \<le> out"
  using assms max_size_less [of "length b"]
  by (auto simp: sz_simps mem_load_def min_def)

lemma rs_string_prep:
  assumes "rs_isBodyString r" and "rs_declared r \<le> max_size"
  shows "(if 0 < rs_contentLength r \<and> rs_contentLength r \<noteq> length (rs_stringBody r)
      then bind_result (vec_resize (rs_contentLength r) (rs_stringBody r)) (\<lambda>b.
        Inr (r\<lparr>rs_stringBody := b\<rparr>))
      else Inr r) = Inr (r\<lparr>rs_stringBody := rs_full_body r\<rparr>)"
  using assms by (auto simp: rs_full_body_def rs_declared_def rs_payload_def)

lemma rs_bytes_prep:
  assumes "\<not> rs_isBodyString r" and "rs_declared r \<le> max_size"
  shows "(if 0 < rs_contentLength r \<and> rs_contentLength r \<noteq> length (rs_body r)
      then bind_result (vec_resize (rs_contentLength r) (rs_body r)) (\<lambda>b.
        Inr (r\<lparr>rs_body := b\<rparr>))
      else Inr r) = Inr (r\<lparr>rs_body := rs_full_body r\<rparr>)"
  using assms by (auto simp: rs_full_body_def rs_declared_def rs_payload_def)

lemma rs_full_body_set:
  "rs_isBodyString r \<Longrightarrow>
     rs_full_body (r\<lparr>rs_stringBody := rs_full_body r, rs_bodyIdx := i\<rparr>) = rs_full_body r"
  "\<not> rs_isBodyString r \<Longrightarrow>
     rs_full_body (r\<lparr>rs_body := rs_full_body r, rs_bodyIdx := i\<rparr>) = rs_full_body r"
  by (auto simp: rs_full_body_def rs_declared_def rs_payload_def)

lemma rs_declared_set:
  "rs_isBodyString r \<Longrightarrow>
     rs_declared (r\<lparr>rs_stringBody := rs_full_body r, rs_bodyIdx := i\<rparr>) = rs_declared r"
  "\<not> rs_isBodyString r \<Longrightarrow>
     rs_declared (r\<lparr>rs_body := rs_full_body r, rs_bodyIdx := i\<rparr>) = rs_declared r"
  by (auto simp: rs_full_body_def rs_declared_def rs_payload_def)

definition rs_with_body :: "response \<Rightarrow> nat \<Rightarrow> response" where
  "rs_with_body r i =
     (if rs_isBodyString r then r\<lparr>rs_stringBody := rs_full_body r, rs_bodyIdx := i\<rparr>
      else r\<lparr>rs_body := rs_full_body r, rs_bodyIdx := i\<rparr>)"

lemma rs_with_body_parts [simp]:
  "rs_full_body (rs_with_body r i) = rs_full_body r"
  "rs_declared (rs_with_body r i) = rs_declared r"
  "rs_bodyIdx (rs_with_body r i) = i"
  by (simp_all add: rs_with_body_def rs_full_body_set rs_declared_set)

lemma rs_produceBody_eq:
  assumes "rs_bready r"
  shows "rs_produceBodySome r out =
    Inr ((Error_none, length (rs_bod r) \<le> out, take out (rs_bod r)),
      rs_with_body r (if rs_declared r = 0 then rs_bodyIdx r
        else if length (rs_bod r) \<le> out then 0
        else rs_bodyIdx r + min out (length (rs_bod r))))"
proof -
  have i: "rs_bodyIdx r \<le> length (rs_full_body r)" "length (rs_full_body r) \<le> max_size"
    "rs_declared r \<le> max_size"
    using assms by (simp_all add: rs_bready_def)
  note piece = body_piece [OF i(1,2), folded rs_bod_def]
  have zero: "rs_full_body r = [] \<longleftrightarrow> rs_declared r = 0"
    by (metis length_0_conv length_rs_full_body)
  have empty: "rs_declared r = 0 \<Longrightarrow> rs_bod r = []"
    using zero by (simp add: rs_bod_def)
  show ?thesis
  proof (cases "rs_isBodyString r")
    case True
    show ?thesis
      unfolding rs_produceBodySome_def if_P [OF True] rs_string_prep [OF True i(3)] bind_result_simps
      using piece(1) piece(2-4) [of out] empty zero
      by (auto simp: Let_def rs_with_body_def True)
  next
    case False
    show ?thesis
      unfolding rs_produceBodySome_def if_not_P [OF False] rs_bytes_prep [OF False i(3)] bind_result_simps
      using piece(1) piece(2-4) [of out] empty zero
      by (auto simp: Let_def rs_with_body_def False)
  qed
qed

definition Response_message :: "response MessageLike" where
  "Response_message =
     \<lparr>consumeHeaderSome = rs_consumeHeaderSome, consumeBodySome = rs_consumeBodySome,
      produceHeaderSome = rs_produceHeaderSome, produceBodySome = rs_produceBodySome\<rparr>"

lemma Response_message_ops [simp]:
  "consumeHeaderSome Response_message = rs_consumeHeaderSome"
  "consumeBodySome Response_message = rs_consumeBodySome"
  "produceHeaderSome Response_message = rs_produceHeaderSome"
  "produceBodySome Response_message = rs_produceBodySome"
  by (simp_all add: Response_message_def)

interpretation response_producer: message_producer Response_message rs_hready rs_bready rs_hdr rs_bod
proof unfold_locales
  fix m :: response and k :: nat
  assume "rs_bready m" and k: "k < length (rs_bod m)"
  then have "rs_bready (rs_with_body m (rs_bodyIdx m + k))"
    by (auto simp: rs_bready_def rs_bod_def)
  moreover have "rs_bod (rs_with_body m (rs_bodyIdx m + k)) = drop k (rs_bod m)"
    by (simp add: rs_bod_def add.commute)
  moreover have "rs_declared m \<noteq> 0" using k by (auto simp: rs_bod_def)
  ultimately show "\<exists>m'. produceBodySome Response_message m k = Inr ((Error_none, False, take k (rs_bod m)), m') \<and>
      rs_bready m' \<and> rs_bod m' = drop k (rs_bod m)"
    using k by (simp add: rs_produceBody_eq [OF \<open>rs_bready m\<close>] min_absorb1)
qed (use rs_header_more rs_header_done in \<open>auto simp: rs_produceBody_eq\<close>)

end
