(* ===== verification/Session.thy ===== *)
theory Session
  imports RequestEnds HttpResponse
begin

section \<open>A session of the server (\<open>TestServer\<close> in \<open>src/main.cpp\<close>)\<close>

text \<open>
  The routes of the server and the loop that serves one connection. A handler gets the
  request and the span the response writes its header to, which is the memory of the
  request's header. Two things the code leaves uninitialised are arguments of the model,
  one value for each turn of the loop: the initial value of \<open>isBodyString_\<close>, and the
  contents of the array \<open>headBuff\<close> (at first indeterminate, later what the previous
  turn left there).
\<close>

type_synonym handler_args = "bool \<times> request \<times> byte list"
type_synonym http_handler = "handler_args \<Rightarrow> response result"

definition handle_one :: http_handler where
  "handle_one = (\<lambda>(junk, req, resBuffer).
     bind_result (response_status junk OK (rq_version req) resBuffer) (\<lambda>res.
       set_field (setBody_string res (bytes ''Hello twooo2234567!'')) Connection (bytes ''keep-alive'')))"

definition handle_three :: http_handler where
  "handle_three = (\<lambda>(junk, req, resBuffer).
     bind_result (response_status junk OK (rq_version req) resBuffer) (\<lambda>res.
       set_field (setBody_string res (bytes ''Hello three!'')) Connection (bytes ''keep-alive'')))"

definition handle_not_found :: http_handler where
  "handle_not_found = (\<lambda>(junk, req, resBuffer).
     bind_result (response_status junk NotFound (rq_version req) resBuffer) (\<lambda>res.
       set_field res Connection (bytes ''keep-alive'')))"

definition test_server :: "http_handler router result" where
  "test_server =
     bind_result (router_add router_new (bytes ''/abc/one/:z/:x/:y'') handle_one) (\<lambda>r1.
     bind_result (router_add r1 (bytes ''/*/three/*/a/b'') handle_three) (\<lambda>r2.
       Inr (router_notFound r2 handle_not_found)))"

definition add_cors :: "response \<Rightarrow> response result" where
  "add_cors res = set_name res (bytes ''Access-Control-Allow-Origin'') (bytes ''*'')"

text \<open>
  \<open>connect_once\<close> is one pass of the loop of \<open>connect\<close>: read a request, have the router
  answer it, write the response. It ends the loop (\<open>Some err\<close>) when a step reports an
  error or no handler answers, and otherwise goes on (\<open>None\<close>).
\<close>

definition connect_once ::
  "nat \<Rightarrow> 's socket_ops \<Rightarrow> http_handler router \<Rightarrow> bool \<times> byte list \<Rightarrow> 's connection \<Rightarrow>
     ('s connection \<times> Error option) result option" where
  "connect_once fuel S router stale conn =
     (case connection_read fuel S Request_message conn (request_span (snd stale)) of
        None \<Rightarrow> None
      | Some (Inl f) \<Rightarrow> Some (Inl f)
      | Some (Inr (conn1, req, err)) \<Rightarrow>
          if is_error err then Some (Inr (conn1, Some err))
          else
            (case router_handle router (rq_path req) (fst stale, req, rq_headerBuffer req) of
               None \<Rightarrow> Some (Inr (conn1, Some err))
             | Some (Inl f) \<Rightarrow> Some (Inl f)
             | Some (Inr res) \<Rightarrow>
                 (case connection_write fuel S Response_message conn1 res of
                    None \<Rightarrow> None
                  | Some (Inl f) \<Rightarrow> Some (Inl f)
                  | Some (Inr (conn2, res1, err1)) \<Rightarrow>
                      if is_error err1 then Some (Inr (conn2, Some err1))
                      else Some (Inr (conn2, None)))))"

text \<open>\<open>connect\<close>: the loop; its result is the error it ended with.\<close>

fun connect ::
  "nat \<Rightarrow> 's socket_ops \<Rightarrow> http_handler router \<Rightarrow> (nat \<Rightarrow> bool \<times> byte list) \<Rightarrow> nat \<Rightarrow> 's connection \<Rightarrow>
     ('s connection \<times> Error) result option" where
  "connect 0 S router stale i conn = None"
| "connect (Suc fuel) S router stale i conn =
     (case connect_once fuel S router (stale i) conn of
        None \<Rightarrow> None
      | Some (Inl f) \<Rightarrow> Some (Inl f)
      | Some (Inr (conn1, Some err)) \<Rightarrow> Some (Inr (conn1, err))
      | Some (Inr (conn1, None)) \<Rightarrow> connect fuel S router stale (i + 1) conn1)"


subsection \<open>The answers\<close>

definition page :: "byte list \<Rightarrow> byte list \<Rightarrow> byte list" where
  "page version body =
     status_line version (bytes ''200'') (bytes ''OK'') @
     field_line (bytes ''Connection'') (bytes ''keep-alive'') @
     field_line (bytes ''Content-Type'') (bytes ''text/plain'') @
     field_line (bytes ''Content-Length'') (to_chars (length body)) @ rn @ body"

definition not_found_page :: "byte list \<Rightarrow> byte list" where
  "not_found_page version =
     status_line version (bytes ''404'') (bytes ''Not Found'') @
     field_line (bytes ''Connection'') (bytes ''keep-alive'') @
     field_line (bytes ''Content-Length'') (bytes ''0'') @ rn"

definition route_one :: "pattern list" where
  "route_one = [Lit (bytes ''abc''), Lit (bytes ''one''), Param, Param, Param]"

definition route_three :: "pattern list" where
  "route_three = [Wild, Lit (bytes ''three''), Wild, Lit (bytes ''a''), Lit (bytes ''b'')]"

definition answer :: "byte list \<Rightarrow> byte list list \<Rightarrow> byte list" where
  "answer version path =
     (if matches route_one path then page version (bytes ''Hello twooo2234567!'')
      else if matches route_three path then page version (bytes ''Hello three!'')
      else not_found_page version)"

text \<open>A response that is ready to go out with this text.\<close>

definition responds :: "response result \<Rightarrow> byte list \<Rightarrow> bool" where
  "responds r txt \<longleftrightarrow> (\<exists>res. r = Inr res \<and> rs_hready res \<and> rs_hdr res @ rs_bod res = txt)"

lemma response_status_start:
  assumes "st \<noteq> Status_Count" and "statusStrArr ! Status_index st = (n, num, reason)"
    and "length version + length num + length reason \<le> 1000" and "length buf < 2 * rs_limit"
  obtains r where "response_status junk st version buf = Inr r"
    and "appended (note_version (rs_blank junk buf) version) (status_line version (bytes num) (bytes reason)) r"
proof -
  have "array_at statusStrArr (Status_index st) = Inr (n, num, reason)"
    using assms(1,2) by (simp add: array_at_def Status_index_bound)
  moreover have "length (status_line version (bytes num) (bytes reason)) < rs_limit"
    using assms(3) by (simp add: status_line_def rs_limit_def)
  ultimately show ?thesis
    using that rs_init_ok [OF rs_inv_blank [OF assms(4)],
        where version = version and status = "bytes num" and reason = "bytes reason"]
    by (auto simp: response_status_def rs_blank_def)
qed

text \<open>A response that was just set up: only its first line is there.\<close>

definition started :: "response \<Rightarrow> byte list \<Rightarrow> bool" where
  "started r line \<longleftrightarrow>
     rs_inv r \<and> rs_text r = line \<and> length line \<le> 2000 \<and> rs_contentLength r = 0 \<and>
     \<not> rs_hasContentType r \<and> \<not> rs_serialized r \<and> rs_bodyIdx r = 0 \<and>
     rs_headerBufferIdx r = length line"

lemma started_status:
  assumes "appended (note_version (rs_blank junk buf) version) line r" and "length line \<le> 2000"
  shows "started r line \<and> rs_body r = [] \<and> rs_stringBody r = []"
  using appended_frame [OF assms(1)] assms(2)
  by (auto simp: started_def note_version_def rs_blank_def rs_text_def)

lemma started_set_body:
  "started r line \<Longrightarrow> started (setBody_string r b) line"
  by (auto simp: started_def setBody_string_def rs_inv_def rs_text_def)

lemma keep_alive_reply:
  assumes st: "started r line" and size: "length (rs_stringBody r) \<le> 1000"
    and same: "rs_body r = []" "rs_stringBody r = [] \<or> rs_isBodyString r"
  shows "responds (set_field r Connection (bytes ''keep-alive''))
    (line @ field_line (bytes ''Connection'') (bytes ''keep-alive'') @
     (if rs_stringBody r = [] then [] else field_line (bytes ''Content-Type'') (bytes ''text/plain'')) @
     field_line (bytes ''Content-Length'') (to_chars (length (rs_stringBody r))) @ rn @ rs_stringBody r)"
proof -
  let ?v = "bytes ''keep-alive''"
  let ?line = "field_line (field_name Connection) ?v"
  have inv: "rs_inv r" and idx: "rs_headerBufferIdx r + length ?line + 256 < rs_limit"
    using st by (auto simp: started_def rs_limit_def field_line_def field_names)
  then obtain r' where r': "set_field r Connection ?v = Inr r'"
      "appended (note_field r Connection ?v) ?line r'"
    using set_field_ok [OF inv, of Connection ?v] by auto
  note frame = appended_frame [OF r'(2)]
  have pay: "rs_payload r' = rs_stringBody r" "rs_body r' @ rs_stringBody r' = rs_stringBody r"
    using same frame by (auto simp: rs_payload_def)
  have cl: "rs_contentLength r' = 0" using st frame by (simp add: started_def)
  have op: "rs_open r'"
    using st size idx frame same by (simp add: rs_open_def started_def max_size_def)
  have hdr: "rs_hdr r' = line @ field_line (bytes ''Connection'') ?v @
      (if rs_stringBody r = [] then [] else field_line (bytes ''Content-Type'') (bytes ''text/plain'')) @
      field_line (bytes ''Content-Length'') (to_chars (length (rs_stringBody r))) @ rn"
    unfolding rs_hdr_def rs_full_header_def rs_default_defs pay cl
    using st frame same by (auto simp: started_def field_names simp del: bytes_Cons)
  moreover have "rs_bod r' = rs_stringBody r"
    using st frame pay cl by (simp add: rs_bod_def rs_full_body_def rs_declared_def started_def)
  moreover have "rs_hready r'"
    using op st frame pay cl size
    by (simp add: rs_hready_def rs_bready_def rs_declared_def started_def max_size_def)
  ultimately show ?thesis using r'(1) by (simp add: responds_def)
qed

lemma short_version_length: "short_version v \<Longrightarrow> length v = 3"
  by (auto simp: short_version_def)

lemma page_reply:
  assumes "short_version version" and "length buf < 2 * rs_limit" and "b \<noteq> []" and "length b \<le> 1000"
  shows "responds (bind_result (response_status junk OK version buf) (\<lambda>res.
      set_field (setBody_string res b) Connection (bytes ''keep-alive''))) (page version b)"
proof -
  obtain r where r: "response_status junk OK version buf = Inr r"
      "appended (note_version (rs_blank junk buf) version)
         (status_line version (bytes ''200'') (bytes ''OK'')) r"
    by (rule response_status_start [of OK 200 "''200''" "''OK''" version buf junk])
       (use short_version_length [OF assms(1)] assms(2) in \<open>simp_all add: statusStrArr_def\<close>)
  have "started r (status_line version (bytes ''200'') (bytes ''OK''))"
    using started_status [OF r(2)] short_version_length [OF assms(1)] by (simp add: status_line_def)
  from keep_alive_reply [OF started_set_body [OF this, of b]] assms(3,4) show ?thesis
    by (simp add: r(1) setBody_string_def page_def del: bytes_Cons)
qed

lemma not_found_reply:
  assumes "short_version version" and "length buf < 2 * rs_limit"
  shows "responds (bind_result (response_status junk NotFound version buf) (\<lambda>res.
      set_field res Connection (bytes ''keep-alive''))) (not_found_page version)"
proof -
  obtain r where r: "response_status junk NotFound version buf = Inr r"
      "appended (note_version (rs_blank junk buf) version)
         (status_line version (bytes ''404'') (bytes ''Not Found'')) r"
    by (rule response_status_start [of NotFound 404 "''404''" "''Not Found''" version buf junk])
       (use short_version_length [OF assms(1)] assms(2) in \<open>simp_all add: statusStrArr_def\<close>)
  have "started r (status_line version (bytes ''404'') (bytes ''Not Found'')) \<and> rs_body r = [] \<and> rs_stringBody r = []"
    using started_status [OF r(2)] short_version_length [OF assms(1)] by (simp add: status_line_def)
  moreover have "to_chars 0 = bytes ''0''" by (simp add: to_chars.simps digit_byte_def)
  ultimately show ?thesis
    using keep_alive_reply [of r "status_line version (bytes ''404'') (bytes ''Not Found'')"]
    by (simp add: r(1) not_found_page_def del: bytes_Cons)
qed

subsection \<open>Which page answers a path\<close>

definition one_segs :: "byte list list" where
  "one_segs = map bytes [''abc'', ''one'', '':z'', '':x'', '':y'']"

definition three_segs :: "byte list list" where
  "three_segs = map bytes [''*'', ''three'', ''*'', ''a'', ''b'']"

lemma route_segments_test_server:
  "route_segments (bytes ''/abc/one/:z/:x/:y'') = Inr one_segs"
  "route_segments (bytes ''/*/three/*/a/b'') = Inr three_segs"
  by (simp_all add: route_segments_eq segments_of_def one_segs_def three_segs_def)

lemma patterns_test_server:
  "map pattern_of one_segs = route_one" "map pattern_of three_segs = route_three"
  by (simp_all add: one_segs_def three_segs_def route_one_def route_three_def pattern_of_def)

definition test_server_root :: "http_handler node" where
  "test_server_root = insert_route handle_three three_segs (insert_route handle_one one_segs node_new)"

lemma test_server_parts:
  obtains R where "test_server = Inr R" and "root R = test_server_root"
    and "notFoundHandler R = Some handle_not_found"
proof (rule that)
  show "test_server = Inr \<lparr>notFoundHandler = Some handle_not_found, root = test_server_root,
      segmentsList = [one_segs, three_segs]\<rparr>"
    by (simp add: test_server_def router_add_def route_segments_test_server router_notFound_def
        test_server_root_def router_new_def del: bytes_Cons)
qed simp_all

lemma routes_test_server:
  "route_at test_server_root = (\<lambda>_. None)(route_one \<mapsto> handle_one, route_three \<mapsto> handle_three)"
  unfolding test_server_root_def route_at_insert patterns_test_server
  by (rule ext) simp

lemma matches_one_length: "matches route_one path \<Longrightarrow> length path = 5"
  by (auto simp: route_one_def split: list.splits)

lemma routes_disjoint: "matches route_one path \<Longrightarrow> \<not> matches route_three path"
proof -
  assume one: "matches route_one path"
  then obtain x y z where path: "path = [bytes ''abc'', bytes ''one'', x, y, z]"
    by (auto simp: route_one_def split: list.splits)
  have five: "{1..length path} = {1, 2, 3, 4, 5}" by (auto simp: path)
  show ?thesis
    unfolding route_three_def matches.simps(4) five
    by (auto simp: path split: list.splits) (drule arg_cong [of _ _ length], simp)
qed

lemma search_test_server:
  "search_handler test_server_root path =
     (if matches route_one path then Some handle_one
      else if matches route_three path then Some handle_three else None)"
proof (cases "search_handler test_server_root path")
  case (Some f)
  from rt.search_sound [OF this] obtain ps where
    "route_at test_server_root ps = Some f" "matches ps path" by blast
  with Some routes_disjoint [of path] show ?thesis
    by (auto simp: routes_test_server split: if_splits)
next
  case None
  have r: "route_at test_server_root route_one = Some handle_one"
    "route_at test_server_root route_three = Some handle_three"
    by (auto simp: routes_test_server route_one_def route_three_def)
  from None rt.search_complete [OF r(1), of path] rt.search_complete [OF r(2), of path]
  show ?thesis by auto
qed

lemma test_server_answers:
  assumes "test_server = Inr R" and "short_version (rq_version req)" and "length buf < 2 * rs_limit"
  obtains r where "router_handle R path (junk, req, buf) = Some r"
    and "responds r (answer (rq_version req) path)"
proof -
  from assms(1) have R: "root R = test_server_root" "notFoundHandler R = Some handle_not_found"
    using test_server_parts by (metis sum.inject(2))+
  have handled: "router_handle R path (junk, req, buf) = Some
      ((if matches route_one path then handle_one
        else if matches route_three path then handle_three else handle_not_found) (junk, req, buf))"
    by (simp add: router_handle_search R search_test_server)
  have "responds ((if matches route_one path then handle_one
        else if matches route_three path then handle_three else handle_not_found) (junk, req, buf))
      (answer (rq_version req) path)"
    using page_reply [OF assms(2,3), of "bytes ''Hello twooo2234567!''" junk]
      page_reply [OF assms(2,3), of "bytes ''Hello three!''" junk]
      not_found_reply [OF assms(2,3), of junk]
    by (simp add: answer_def handle_one_def handle_three_def handle_not_found_def)
  with handled show ?thesis by (rule that)
qed

subsection \<open>Serving a peer\<close>

text \<open>
  A peer that sends these segments and then closes its side, and takes every byte it is
  sent: \<open>script\<close> is what it will still send, \<open>wire\<close> what it has been sent.
\<close>

definition reads_script :: "'s socket_ops \<Rightarrow> ('s \<Rightarrow> byte list list) \<Rightarrow> ('s \<Rightarrow> byte list) \<Rightarrow> bool" where
  "reads_script S script wire \<longleftrightarrow>
     (\<forall>s seg segs. script s = seg # segs \<longrightarrow>
        (\<exists>s'. script s' = segs \<and> wire s' = wire s \<and>
           (\<forall>n. length seg \<le> n \<longrightarrow> async_read_some S s n = ((False, seg), s')))) \<and>
     (\<forall>s n. script s = [] \<longrightarrow> (\<exists>ec s'. async_read_some S s n = ((ec, []), s') \<and> wire s' = wire s))"

definition peer :: "'s socket_ops \<Rightarrow> ('s \<Rightarrow> byte list list) \<Rightarrow> ('s \<Rightarrow> byte list) \<Rightarrow> bool" where
  "peer S script wire \<longleftrightarrow>
     reads_script S script wire \<and> write_contract S wire \<and> write_reliable S \<and> write_keeps S script"

lemma script_delivers:
  assumes "reads_script S script wire" and "script s = segs @ rest"
  shows "\<exists>t. delivers S s segs t \<and> script t = rest \<and> wire t = wire s"
  using assms(2)
proof (induction segs arbitrary: s)
  case (Cons seg segs)
  then have "script s = seg # (segs @ rest)" by simp
  with assms(1) obtain s' where s': "script s' = segs @ rest" "wire s' = wire s"
      "\<forall>n. length seg \<le> n \<longrightarrow> async_read_some S s n = ((False, seg), s')"
    unfolding reads_script_def by blast
  from Cons.IH [OF s'(1)] s' show ?case by (metis delivers.simps(2))
qed simp

text \<open>A request and the segments in which it comes; the header ends with a segment.\<close>

record exchange =
  ex_method :: "byte list"
  ex_target :: "byte list"
  ex_minor :: nat
  ex_fields :: "(byte list \<times> byte list) list"
  ex_body :: "byte list"
  ex_hsegs :: "byte list list"
  ex_bsegs :: "byte list list"

definition exchange_ok :: "exchange \<Rightarrow> bool" where
  "exchange_ok ex \<longleftrightarrow>
     request_ok (replicate 4096 0) (ex_method ex) (ex_target ex) (ex_minor ex) (ex_fields ex) (ex_body ex) \<and>
     concat (ex_hsegs ex) = request_text (ex_method ex) (ex_target ex) (ex_minor ex) (ex_fields ex) \<and>
     concat (ex_bsegs ex) = ex_body ex \<and>
     list_all (\<lambda>seg. seg \<noteq> [] \<and> length seg \<le> 4096) (ex_hsegs ex @ ex_bsegs ex)"

definition ex_segs :: "exchange \<Rightarrow> byte list list" where
  "ex_segs ex = ex_hsegs ex @ ex_bsegs ex"

definition ex_reply :: "exchange \<Rightarrow> byte list" where
  "ex_reply ex =
     answer (if ex_minor ex = 0 then bytes ''1.0'' else bytes ''1.1'') (path_of (ex_target ex))"

text \<open>A connection between two messages.\<close>

definition idle :: "'s connection \<Rightarrow> bool" where
  "idle c \<longleftrightarrow> holds c READ_START [] 4096 (write_side c) \<and>
     sb_inv (cn_writeBuffer c) \<and> content (cn_writeBuffer c) = [] \<and>
     length (sb_buffer (cn_writeBuffer c)) = 4096 \<and> cn_writeState c = WRITE_START"

lemma idle_new: "idle (connection_new s)"
  by (auto simp: idle_def connection_new_def holds_def static_buffer_new_def sb_inv_def content_def
      sz_modulus_def)

lemma idle_read: "idle c \<Longrightarrow> holds c READ_START [] 4096 (write_side c)"
  by (simp add: idle_def)

lemma request_ok_length:
  "length hb = length hb' \<Longrightarrow> request_ok hb m t k hs b = request_ok hb' m t k hs b"
  by (simp add: request_ok_def)

lemma concat_butlast_less:
  assumes "concat segs \<noteq> []" and "list_all (\<lambda>seg. seg \<noteq> []) segs"
  shows "length (concat (butlast segs)) < length (concat segs)"
  using assms by (cases segs rule: rev_cases) auto

lemma request_read_parts [simp]:
  "rq_path (request_read hb m t k hs b) = path_of t"
  "rq_version (request_read hb m t k hs b) = (if k = 0 then bytes ''1.0'' else bytes ''1.1'')"
  by (simp_all add: request_read_def set_body_def header_read_def parsed_def parsed_lines_def)

lemma request_read_buffer:
  "length (request_text m t k hs) \<le> length hb \<Longrightarrow>
     length (rq_headerBuffer (request_read hb m t k hs b)) = length hb"
  by (simp add: request_read_def set_body_def header_read_def parsed_def parsed_lines_def)

text \<open>Reading the request of an exchange.\<close>

lemma exchange_read:
  assumes S: "reads_script S script wire" and c: "idle c" and ok: "exchange_ok ex"
    and script: "script (cn_socket c) = ex_segs ex @ rest" and hb: "length hb = 4096"
    and fuel: "length (ex_segs ex) + 2 < fuel"
  obtains c1 where
    "connection_read fuel S Request_message c (request_span hb) =
      Some (Inr (c1, request_read hb (ex_method ex) (ex_target ex) (ex_minor ex) (ex_fields ex) (ex_body ex),
                 Error_none))"
    and "idle c1" and "script (cn_socket c1) = rest" and "wire (cn_socket c1) = wire (cn_socket c)"
proof -
  let ?txt = "request_text (ex_method ex) (ex_target ex) (ex_minor ex) (ex_fields ex)"
  obtain t where t: "delivers S (cn_socket c) (ex_segs ex) t" "script t = rest" "wire t = wire (cn_socket c)"
    using script_delivers [OF S script] by blast
  have rq: "request_ok hb (ex_method ex) (ex_target ex) (ex_minor ex) (ex_fields ex) (ex_body ex)"
    using ok request_ok_length [of hb "replicate 4096 0"] hb by (simp add: exchange_ok_def)
  have parts: "concat (ex_hsegs ex) = ?txt" "concat (ex_bsegs ex) = ex_body ex @ []"
    using ok by (simp_all add: exchange_ok_def)
  have segs: "\<forall>seg \<in> set (ex_hsegs ex @ ex_bsegs ex). seg \<noteq> [] \<and> length seg \<le> 4096"
    using ok by (simp add: exchange_ok_def list_all_iff)
  have ne: "ex_hsegs ex \<noteq> []" using parts by (auto simp: request_text_def)
  have exp: "expects_header hb (ex_method ex) (ex_target ex) (ex_minor ex) (ex_fields ex) (ex_body ex)
      (request_span hb) (concat (ex_hsegs ex))"
    using rq parts by (auto simp: expects_header_def intro!: exI [of _ "[]"])
  have bsegs: "if ex_body ex = [] then ex_bsegs ex = []
      else length (concat (butlast (ex_bsegs ex))) < length (ex_body ex)"
  proof (cases "ex_body ex = []")
    case True
    with segs parts(2) show ?thesis by (cases "ex_bsegs ex") auto
  next
    case False
    with segs parts(2) concat_butlast_less [of "ex_bsegs ex"] show ?thesis by (simp add: list_all_iff)
  qed
  obtain c1 m1 where
    "connection_read fuel S Request_message c (request_span hb) = Some (Inr (c1, m1, Error_none))"
    "holds c1 READ_START [] 4096 (write_side c)" "cn_socket c1 = t"
    "m1 = request_read hb (ex_method ex) (ex_target ex) (ex_minor ex) (ex_fields ex) (ex_body ex)"
    using http.connection_read_ok [OF idle_read [OF c] _ segs ne exp parts(2) bsegs, of S t fuel] t(1) fuel
    by (auto simp: ex_segs_def)
  with that t(2,3) c show ?thesis by (auto simp: idle_def holds_def write_side_def)
qed

text \<open>Writing a response that is ready.\<close>

lemma exchange_write:
  assumes S: "peer S script wire" and c: "idle c" and r: "responds (Inr res) txt"
    and fuel: "length txt + 4096 + 2 < fuel"
  obtains c1 res1 where "connection_write fuel S Response_message c res = Some (Inr (c1, res1, Error_none))"
    and "idle c1" and "script (cn_socket c1) = script (cn_socket c)"
    and "wire (cn_socket c1) = wire (cn_socket c) @ txt"
proof -
  from r have res: "rs_hready res" "rs_hdr res @ rs_bod res = txt" by (simp_all add: responds_def)
  from S have w: "write_contract S wire" "write_reliable S" "write_keeps S script"
    by (simp_all add: peer_def)
  obtain c1 res1 e where wr: "connection_write fuel S Response_message c res = Some (Inr (c1, res1, e))"
      "delivered S wire c txt c1 e"
  proof -
    have i: "sb_inv (cn_writeBuffer c)" "content (cn_writeBuffer c) = []"
        "0 < length (sb_buffer (cn_writeBuffer c))" "cn_writeState c = WRITE_START"
        "length (rs_hdr res @ rs_bod res) + length (sb_buffer (cn_writeBuffer c)) + 2 < fuel"
      using c fuel unfolding res(2) by (simp_all add: idle_def)
    from response_producer.connection_write_ok [OF w(1) i(1-4) res(1) i(5)] that
    show ?thesis unfolding res(2) by blast
  qed
  note frame = connection_write_frame [OF w(3) wr(1)]
  have d: "e = Error_none" "wire (cn_socket c1) = wire (cn_socket c) @ txt" "sb_inv (cn_writeBuffer c1)"
      "content (cn_writeBuffer c1) = []" "cn_writeState c1 = WRITE_START"
      "length (sb_buffer (cn_writeBuffer c1)) = length (sb_buffer (cn_writeBuffer c))"
    using wr(2) w(2) by (auto simp: delivered_def socket_error_def)
  have "idle c1"
    using d frame(1) c by (simp add: idle_def holds_def read_side_def)
  with that wr(1) d frame(2) show ?thesis by blast
qed

text \<open>One turn of the loop answers one request.\<close>

definition turn_fuel :: "exchange \<Rightarrow> nat" where
  "turn_fuel ex = length (ex_segs ex) + length (ex_reply ex) + 4096 + 3"

lemma connect_once_answers:
  assumes S: "peer S script wire" and R: "test_server = Inr R" and c: "idle c" and ok: "exchange_ok ex"
    and script: "script (cn_socket c) = ex_segs ex @ rest"
    and hb: "length (snd stale) = 4096" and fuel: "turn_fuel ex \<le> fuel"
  obtains c' where "connect_once fuel S R stale c = Some (Inr (c', None))"
    and "idle c'" and "script (cn_socket c') = rest"
    and "wire (cn_socket c') = wire (cn_socket c) @ ex_reply ex"
proof -
  let ?hb = "snd stale"
  let ?req = "request_read ?hb (ex_method ex) (ex_target ex) (ex_minor ex) (ex_fields ex) (ex_body ex)"
  have rd: "reads_script S script wire" using S by (simp add: peer_def)
  have f: "length (ex_segs ex) + 2 < fuel" "length (ex_reply ex) + 4096 + 2 < fuel"
    using fuel by (simp_all add: turn_fuel_def)
  obtain c1 where c1: "connection_read fuel S Request_message c (request_span ?hb) = Some (Inr (c1, ?req, Error_none))"
      "idle c1" "script (cn_socket c1) = rest" "wire (cn_socket c1) = wire (cn_socket c)"
    using exchange_read [OF rd c ok script hb f(1)] by blast
  have fits: "length (request_text (ex_method ex) (ex_target ex) (ex_minor ex) (ex_fields ex)) \<le> length ?hb"
    using ok hb by (simp add: exchange_ok_def request_ok_def)
  have buf: "length (rq_headerBuffer ?req) < 2 * rs_limit"
    using request_read_buffer [OF fits] hb by (simp add: rs_limit_def)
  have ver: "short_version (rq_version ?req)" by (simp add: short_version_def)
  obtain r where r: "router_handle R (rq_path ?req) (fst stale, ?req, rq_headerBuffer ?req) = Some r"
      "responds r (ex_reply ex)"
    using test_server_answers [OF R ver buf, of "rq_path ?req" "fst stale"]
    by (auto simp: ex_reply_def)
  then obtain res where res: "r = Inr res" by (auto simp: responds_def)
  obtain c2 res1 where c2: "connection_write fuel S Response_message c1 res = Some (Inr (c2, res1, Error_none))"
      "idle c2" "script (cn_socket c2) = script (cn_socket c1)"
      "wire (cn_socket c2) = wire (cn_socket c1) @ ex_reply ex"
    using exchange_write [OF S c1(2) r(2) [unfolded res] f(2)] by blast
  have "connect_once fuel S R stale c = Some (Inr (c2, None))"
    using c1(1) r(1) res c2(1) by (simp add: connect_once_def)
  with that c1 c2 show ?thesis by simp
qed

text \<open>The turn that finds the peer gone.\<close>

lemma connect_once_ends:
  assumes S: "reads_script S script wire" and c: "idle c" and script: "script (cn_socket c) = []"
  obtains c' where "connect_once (Suc fuel) S R stale c = Some (Inr (c', Some (Error_of CONNECTION_ENDED)))"
    and "wire (cn_socket c') = wire (cn_socket c)"
proof -
  let ?c = "c\<lparr>cn_readState := READ_HEADER\<rparr>"
  have h: "sb_inv (cn_readBuffer c)" "content (cn_readBuffer c) = []" "cn_readState c = READ_START"
    using c by (simp_all add: idle_def holds_def)
  obtain ec s' where s': "async_read_some S (cn_socket c) (snd (writableSpan (cn_readBuffer c))) = ((ec, []), s')"
      "wire s' = wire (cn_socket c)"
    using S script unfolding reads_script_def by metis
  have "span_write (cn_readBuffer c) (writableSpan (cn_readBuffer c)) [] = Inr (cn_readBuffer c)"
    using h(1) by (auto simp: span_write_def writableSpan_room mem_store_def sb_inv_def)
  then have "read_more S ?c = Inr (?c\<lparr>cn_socket := s'\<rparr>, Return (Error_of CONNECTION_ENDED))"
    using h s'(1) by (simp add: read_more_def sb_empty_content)
  then have "connect_once (Suc fuel) S R stale c =
      Some (Inr (?c\<lparr>cn_socket := s'\<rparr>, Some (Error_of CONNECTION_ENDED)))"
    using h(3) by (simp add: connect_once_def connection_read_def)
  with that s'(2) show ?thesis by simp
qed

lemma connect_serves:
  assumes S: "peer S script wire" and R: "test_server = Inr R" and "idle c"
    and "list_all exchange_ok exs" and "script (cn_socket c) = concat (map ex_segs exs)"
    and hb: "\<And>i. length (snd (stale i)) = 4096" and "\<forall>ex \<in> set exs. turn_fuel ex \<le> K"
    and "K + length exs + 2 \<le> fuel"
  shows "\<exists>c'. connect fuel S R stale i c = Some (Inr (c', Error_of CONNECTION_ENDED)) \<and>
    wire (cn_socket c') = wire (cn_socket c) @ concat (map ex_reply exs)"
  using assms(3-5,7,8)
proof (induction exs arbitrary: c i fuel)
  case Nil
  from Nil.prems(5) have "2 \<le> fuel" by simp
  then obtain f where f: "fuel = Suc (Suc f)" by (auto dest!: le_Suc_ex)
  have rd: "reads_script S script wire" and none: "script (cn_socket c) = []"
    using S Nil by (simp_all add: peer_def)
  obtain c' where "connect_once (Suc f) S R (stale i) c = Some (Inr (c', Some (Error_of CONNECTION_ENDED)))"
      "wire (cn_socket c') = wire (cn_socket c)"
    by (rule connect_once_ends [OF rd Nil.prems(1) none, of f R "stale i"])
  then show ?case by (simp add: f)
next
  case (Cons ex exs)
  then obtain f where f: "fuel = Suc f" by (cases fuel) auto
  have fuel: "turn_fuel ex \<le> f" using Cons.prems(4,5) f by auto
  have ok: "exchange_ok ex" and script: "script (cn_socket c) = ex_segs ex @ concat (map ex_segs exs)"
    using Cons.prems(2,3) by simp_all
  obtain c' where c': "connect_once f S R (stale i) c = Some (Inr (c', None))" "idle c'"
      "script (cn_socket c') = concat (map ex_segs exs)"
      "wire (cn_socket c') = wire (cn_socket c) @ ex_reply ex"
    using connect_once_answers [OF S R Cons.prems(1) ok script hb fuel] by blast
  then have "connect fuel S R stale i c = connect f S R stale (i + 1) c'" using f by simp
  with Cons.IH [OF c'(2) _ c'(3), of f "i + 1"] c'(4) Cons.prems(2,4,5) f show ?case by simp
qed

end
