(* ===== verification/ExampleSocket.thy ===== *)
theory ExampleSocket
  imports Session
begin

section \<open>A socket for the examples\<close>

text \<open>The socket is a list of segments to read, and the bytes written.\<close>

definition list_socket :: "(byte list list \<times> byte list) socket_ops" where
  "list_socket =
     \<lparr>async_read_some = (\<lambda>(script, wire) n.
        (case script of
           [] \<Rightarrow> ((False, []), (script, wire))
         | seg # segs \<Rightarrow>
             if length seg \<le> n then ((False, seg), (segs, wire))
             else ((False, take n seg), (drop n seg # segs, wire)))),
      async_write_some = (\<lambda>(script, wire) ds. ((False, length ds), (script, wire @ ds)))\<rparr>"

lemma peer_list_socket: "peer list_socket fst snd"
proof -
  have "\<exists>s'. fst s' = segs \<and> snd s' = snd s \<and>
      (\<forall>n. length seg \<le> n \<longrightarrow> async_read_some list_socket s n = ((False, seg), s'))"
    if "fst s = seg # segs" for s :: "byte list list \<times> byte list" and seg segs
    using that by (cases s) (auto simp: list_socket_def)
  moreover have "\<exists>ec s'. async_read_some list_socket s n = ((ec, []), s') \<and> snd s' = snd s"
    if "fst s = []" for s :: "byte list list \<times> byte list" and n
    using that by (cases s) (auto simp: list_socket_def)
  ultimately have "reads_script list_socket fst snd"
    unfolding reads_script_def by blast
  moreover have "write_contract list_socket snd" "write_reliable list_socket" "write_keeps list_socket fst"
    by (auto simp: write_contract_def write_reliable_def write_keeps_def list_socket_def)
  ultimately show ?thesis by (simp add: peer_def)
qed

text \<open>A request for the first route, its header in two segments.\<close>

definition example_exchange :: exchange where
  "example_exchange =
     \<lparr>ex_method = bytes ''GET'', ex_target = bytes ''/abc/one/1/2/3'', ex_minor = 1,
      ex_fields = [(bytes ''Host'', bytes ''a'')], ex_body = [],
      ex_hsegs = [bytes ''GET /abc/on'', bytes ''e/1/2/3 HTTP/1.1'' @ [13, 10] @ bytes ''Host: a'' @ [13, 10, 13, 10]],
      ex_bsegs = []\<rparr>"

lemma example_exchange_ok: "exchange_ok example_exchange"
  by (simp add: example_exchange_def exchange_ok_def request_ok_def well_formed_def is_name_def
      is_target_def is_value_def is_token_char_def token_char_map_def is_ctl_def is_blank_def
      maxNumHeaders_def bad_length_def declared_length_def says_chunked_def header_lookup_def
      header_values_def all_fields_def fieldStrArr_def fieldStrArrLower_def target_path_def
      request_text_def header_text_def)

lemma example_reply: "ex_reply example_exchange = page (bytes ''1.1'') (bytes ''Hello twooo2234567!'')"
  by (simp add: ex_reply_def example_exchange_def answer_def path_of_def target_path_def route_one_def)

lemma example_exchange_fuel: "turn_fuel example_exchange \<le> 5000"
proof -
  have "length (ex_segs example_exchange) = 2" by (simp add: ex_segs_def example_exchange_def)
  then show ?thesis
    by (simp add: turn_fuel_def example_reply page_def status_line_def field_line_def to_chars.simps)
qed

end
