(* ===== verification/Server.thy ===== *)
theory Server
  imports Session "HOL-Library.Word"
begin

section \<open>The server (\<open>src/server.h\<close>)\<close>

text \<open>
  A \<open>Server\<close> has a number of threads, each with an \<open>io_context\<close> and an acceptor of its
  own. The coroutine \<open>listen\<close> of a context accepts connections for ever and spawns the
  handler's coroutine \<open>connect\<close> on each; an exception that leaves a coroutine ends it and
  is reported on the console by its completion handler. The handler object is shared by
  all threads: of it, \<open>connect\<close> writes the atomic counter of connections only, and reads
  the router, which nothing changes after its construction.

  What asio and the kernel decide is the sequence of events: a peer is accepted, accepting
  fails, a session is resumed; each accepted peer brings the operations of its own socket.
  A session is resumed at the grain of its operations on what is shared: first it takes its
  number from the counter, then it prints the number, and from then on each resumption is
  one pass of its loop. The operations of a pass touch nothing that another session uses
  until, if it is the last, its error is printed, so how finely passes of different sessions
  are interleaved makes no difference. Events of all threads may come in any order, also
  between taking a number and printing it (of sessions on the same thread, too, which is
  more orders than the program has). \<open>None\<close> is an event that cannot happen in this state
  (or fuel that ran out), \<open>Some (Inl f)\<close> undefined behaviour, with which the run is over.
  The output of a completion handler belongs to the end of its coroutine.
\<close>

datatype session_state = Fresh | Counted "32 word" | Running | Finished Error | Threw fault

record 's session =
  ss_ops :: "'s socket_ops"
  ss_conn :: "'s connection"
  ss_stale :: "nat \<Rightarrow> bool \<times> byte list"
  ss_turn :: nat
  ss_state :: session_state

datatype console_line = Console_text string | Connections int | Error_line Error | Session_failed fault | Listener_failed string

record 's io_context =
  cx_listening :: bool
  cx_sessions :: "'s session list"

record 's server =
  sv_contexts :: "'s io_context list"
  sv_connections :: "32 word"
  sv_console :: "console_line list"

text \<open>
  The constructor: reading the address, and opening, binding and listening of each
  acceptor may throw (\<open>None\<close>).
\<close>

definition server_new ::
  "('a \<Rightarrow> 'ep option) \<Rightarrow> ('ep \<Rightarrow> 16 word \<Rightarrow> nat \<Rightarrow> bool) \<Rightarrow> 'a \<Rightarrow> 16 word \<Rightarrow> nat \<Rightarrow> 's server option" where
  "server_new make_address listens address port numThreads =
     (case make_address address of
        None \<Rightarrow> None
      | Some endpoint \<Rightarrow>
          if list_all (listens endpoint port) [0..<numThreads] then
            Some \<lparr>sv_contexts = replicate numThreads \<lparr>cx_listening = False, cx_sessions = []\<rparr>,
                  sv_connections = 1, sv_console = []\<rparr>
          else None)"

text \<open>\<open>run\<close> spawns a listener on every context; from then on the events decide.\<close>

definition server_run :: "'s server \<Rightarrow> 's server" where
  "server_run sv = sv\<lparr>sv_contexts := map (\<lambda>cx. cx\<lparr>cx_listening := True\<rparr>) (sv_contexts sv)\<rparr>"

definition session_new :: "'s socket_ops \<Rightarrow> 's \<Rightarrow> (nat \<Rightarrow> bool \<times> byte list) \<Rightarrow> 's session" where
  "session_new S s stale =
     \<lparr>ss_ops = S, ss_conn = connection_new s, ss_stale = stale, ss_turn = 0, ss_state = Fresh\<rparr>"

text \<open>
  Resuming a session, where \<open>n\<close> is the counter: \<open>fetch_add\<close>, the line with what it
  returned, then one pass of the loop each time. Faults other than undefined behaviour are
  exceptions.
\<close>

definition session_next ::
  "nat \<Rightarrow> http_handler router \<Rightarrow> 32 word \<Rightarrow> 's session \<Rightarrow> 's session result option" where
  "session_next fuel router n ss =
     (case ss_state ss of
        Fresh \<Rightarrow> Some (Inr (ss\<lparr>ss_state := Counted n\<rparr>))
      | Counted _ \<Rightarrow> Some (Inr (ss\<lparr>ss_state := Running\<rparr>))
      | Running \<Rightarrow>
          (case connect_once fuel (ss_ops ss) router (ss_stale ss (ss_turn ss)) (ss_conn ss) of
             None \<Rightarrow> None
           | Some (Inl f) \<Rightarrow>
               Some (if f = Undefined_behaviour then Inl f else Inr (ss\<lparr>ss_state := Threw f\<rparr>))
           | Some (Inr (c, None)) \<Rightarrow> Some (Inr (ss\<lparr>ss_conn := c, ss_turn := ss_turn ss + 1\<rparr>))
           | Some (Inr (c, Some err)) \<Rightarrow> Some (Inr (ss\<lparr>ss_conn := c, ss_state := Finished err\<rparr>)))
      | _ \<Rightarrow> None)"

definition session_output :: "'s session \<Rightarrow> 's session \<Rightarrow> console_line list" where
  "session_output ss ss' =
     (case ss_state ss of
        Counted n \<Rightarrow> [Connections (sint n)]
      | Running \<Rightarrow>
          (case ss_state ss' of
             Finished err \<Rightarrow> if is_error err then [Error_line err] else []
           | Threw f \<Rightarrow> [Session_failed f]
           | _ \<Rightarrow> [])
      | _ \<Rightarrow> [])"

datatype 's server_event =
    Accepted nat "'s socket_ops" 's "nat \<Rightarrow> bool \<times> byte list"
  | Accept_failed nat string
  | Resumed nat nat

definition listen_accepts ::
  "nat \<Rightarrow> 's socket_ops \<Rightarrow> 's \<Rightarrow> (nat \<Rightarrow> bool \<times> byte list) \<Rightarrow> 's server \<Rightarrow> 's server option" where
  "listen_accepts i S s stale sv =
     (if i < length (sv_contexts sv) \<and> cx_listening (sv_contexts sv ! i) then
        let cx = sv_contexts sv ! i
        in Some (sv\<lparr>sv_contexts := (sv_contexts sv)[i := cx\<lparr>cx_sessions := cx_sessions cx @ [session_new S s stale]\<rparr>]\<rparr>)
      else None)"

definition listen_fails :: "nat \<Rightarrow> string \<Rightarrow> 's server \<Rightarrow> 's server option" where
  "listen_fails i msg sv =
     (if i < length (sv_contexts sv) \<and> cx_listening (sv_contexts sv ! i) then
        Some (sv\<lparr>sv_contexts := (sv_contexts sv)[i := (sv_contexts sv ! i)\<lparr>cx_listening := False\<rparr>],
                 sv_console := sv_console sv @ [Listener_failed msg]\<rparr>)
      else None)"

definition context_resumes ::
  "nat \<Rightarrow> http_handler router \<Rightarrow> nat \<Rightarrow> nat \<Rightarrow> 's server \<Rightarrow> 's server result option" where
  "context_resumes fuel router i k sv =
     (if i < length (sv_contexts sv) \<and> k < length (cx_sessions (sv_contexts sv ! i)) then
        let cx = sv_contexts sv ! i;
            ss = cx_sessions cx ! k
        in (case session_next fuel router (sv_connections sv) ss of
              None \<Rightarrow> None
            | Some (Inl f) \<Rightarrow> Some (Inl f)
            | Some (Inr ss') \<Rightarrow>
                Some (Inr (sv\<lparr>sv_contexts := (sv_contexts sv)[i := cx\<lparr>cx_sessions := (cx_sessions cx)[k := ss']\<rparr>],
                              sv_connections := (if ss_state ss = Fresh then sv_connections sv + 1 else sv_connections sv),
                              sv_console := sv_console sv @ session_output ss ss'\<rparr>)))
      else None)"

fun server_step ::
  "nat \<Rightarrow> http_handler router \<Rightarrow> 's server_event \<Rightarrow> 's server \<Rightarrow> 's server result option" where
  "server_step fuel router (Accepted i S s stale) sv = map_option Inr (listen_accepts i S s stale sv)"
| "server_step fuel router (Accept_failed i msg) sv = map_option Inr (listen_fails i msg sv)"
| "server_step fuel router (Resumed i k) sv = context_resumes fuel router i k sv"

fun serve ::
  "nat \<Rightarrow> http_handler router \<Rightarrow> 's server_event list \<Rightarrow> 's server \<Rightarrow> 's server result option" where
  "serve fuel router [] sv = Some (Inr sv)"
| "serve fuel router (ev # evs) sv =
     (case server_step fuel router ev sv of
        None \<Rightarrow> None
      | Some (Inl f) \<Rightarrow> Some (Inl f)
      | Some (Inr sv1) \<Rightarrow> serve fuel router evs sv1)"

text \<open>
  \<open>main\<close>: two lines on the console, the second a document that glaze writes as JSON
  (\<open>write_json\<close>, a parameter; a double is its 64 bits), then the handler object and the
  server, running. The number of threads is what \<open>hardware_concurrency\<close> says.
\<close>

datatype json_value =
    Json_double "64 word" | Json_int int | Json_bool bool | Json_string string
  | Json_array "json_value list" | Json_object "(string \<times> json_value) list"

definition main_document :: json_value where
  "main_document =
     Json_object [(''pi'', Json_double 0x40091EB851EB851F), (''happy'', Json_bool True), (''name'', Json_string ''Stephen''),
       (''arr'', Json_array [Json_string ''Hello'', Json_string ''World'', Json_int 2])]"

definition server_main ::
  "(json_value \<Rightarrow> string) \<Rightarrow> (string \<Rightarrow> 'ep option) \<Rightarrow> ('ep \<Rightarrow> 16 word \<Rightarrow> nat \<Rightarrow> bool) \<Rightarrow> nat \<Rightarrow>
     (http_handler router \<times> 's server) option" where
  "server_main write_json make_address listens numThread =
     (let console = [Console_text ''starting server...'', Console_text (write_json main_document)]
      in case test_server of
        Inl _ \<Rightarrow> None
      | Inr router \<Rightarrow>
          map_option (\<lambda>sv. (router, (server_run sv)\<lparr>sv_console := console @ sv_console (server_run sv)\<rparr>))
            (server_new make_address listens ''127.0.0.1'' 8000 numThread))"

text \<open>\<open>hardware_concurrency\<close> may say 0; then nothing ever happens.\<close>

lemma server_without_threads:
  assumes "server_main write_json make_address listens 0 = Some (R, sv)" and "serve fuel R evs sv = Some r"
  shows "evs = []"
proof -
  have none: "sv_contexts sv = []"
    using assms(1) by (auto simp: server_main_def server_new_def server_run_def split: sum.splits option.splits)
  show ?thesis
  proof (cases evs)
    case (Cons ev evs')
    have "server_step fuel R ev sv = None"
      using none by (cases ev) (simp_all add: listen_accepts_def listen_fails_def context_resumes_def)
    with assms(2) Cons show ?thesis by simp
  qed
qed


subsection \<open>Sessions do not disturb each other\<close>

definition session_at :: "'s server \<Rightarrow> nat \<Rightarrow> nat \<Rightarrow> 's session option" where
  "session_at sv i k =
     (if i < length (sv_contexts sv) \<and> k < length (cx_sessions (sv_contexts sv ! i))
      then Some (cx_sessions (sv_contexts sv ! i) ! k) else None)"

definition resumptions :: "nat \<Rightarrow> nat \<Rightarrow> 's server_event list \<Rightarrow> nat" where
  "resumptions i k evs = length (filter (\<lambda>ev. case ev of Resumed j l \<Rightarrow> j = i \<and> l = k | _ \<Rightarrow> False) evs)"

lemma resumptions_simps [simp]:
  "resumptions i k [] = 0"
  "resumptions i k (Accepted j S s st # evs) = resumptions i k evs"
  "resumptions i k (Accept_failed j msg # evs) = resumptions i k evs"
  "resumptions i k (Resumed j l # evs) = (if j = i \<and> l = k then Suc (resumptions i k evs) else resumptions i k evs)"
  by (simp_all add: resumptions_def)

text \<open>A session on its own, resumed with the counter at the numbers of a list.\<close>

fun session_alone ::
  "nat \<Rightarrow> http_handler router \<Rightarrow> 32 word list \<Rightarrow> 's session \<Rightarrow> 's session option" where
  "session_alone fuel router [] ss = Some ss"
| "session_alone fuel router (n # ns) ss =
     (case session_next fuel router n ss of Some (Inr ss') \<Rightarrow> session_alone fuel router ns ss' | _ \<Rightarrow> None)"

definition listening_at :: "'s server \<Rightarrow> nat \<Rightarrow> bool" where
  "listening_at sv i \<longleftrightarrow> i < length (sv_contexts sv) \<and> cx_listening (sv_contexts sv ! i)"

lemma nth_update_if: "(xs[i := x]) ! j = (if j = i \<and> i < length xs then x else xs ! j)"
  by (cases "i < length xs") (auto simp: nth_list_update list_update_beyond)

lemma resumed_iff:
  "server_step fuel R (Resumed i k) sv = Some (Inr sv') \<longleftrightarrow>
     (\<exists>ss ss'. session_at sv i k = Some ss \<and> session_next fuel R (sv_connections sv) ss = Some (Inr ss') \<and>
        sv' = sv\<lparr>sv_contexts := (sv_contexts sv)
                   [i := (sv_contexts sv ! i)\<lparr>cx_sessions := (cx_sessions (sv_contexts sv ! i))[k := ss']\<rparr>],
                 sv_connections := (if ss_state ss = Fresh then sv_connections sv + 1 else sv_connections sv),
                 sv_console := sv_console sv @ session_output ss ss'\<rparr>)"
  by (auto simp: context_resumes_def session_at_def Let_def split: option.splits sum.splits)

text \<open>What one event does to the session \<open>k\<close> of context \<open>i\<close>, and to the listeners.\<close>

lemma server_step_session:
  assumes "server_step fuel R ev sv = Some (Inr sv')" and "session_at sv i k = Some ss"
  shows "if ev = Resumed i k then \<exists>ss'. session_next fuel R (sv_connections sv) ss = Some (Inr ss') \<and> session_at sv' i k = Some ss'
    else session_at sv' i k = Some ss"
proof (cases ev)
  case (Resumed j l)
  with assms show ?thesis
    by (auto simp: resumed_iff session_at_def nth_update_if split: if_splits simp del: server_step.simps)
qed (use assms in \<open>auto simp: listen_accepts_def listen_fails_def session_at_def Let_def nth_update_if
    nth_append split: if_splits\<close>)

lemma server_step_listening:
  assumes "server_step fuel R ev sv = Some (Inr sv')"
  shows "listening_at sv' i \<longleftrightarrow> listening_at sv i \<and> (\<forall>msg. ev \<noteq> Accept_failed i msg)"
proof (cases ev)
  case (Resumed j l)
  with assms show ?thesis
    by (auto simp: resumed_iff listening_at_def nth_update_if split: if_splits simp del: server_step.simps)
qed (use assms in \<open>auto simp: listen_accepts_def listen_fails_def listening_at_def Let_def nth_update_if
    split: if_splits\<close>)

lemma serve_session:
  assumes "serve fuel R evs sv = Some (Inr sv')" and "session_at sv i k = Some ss"
  shows "\<exists>ns ss'. length ns = resumptions i k evs \<and> session_alone fuel R ns ss = Some ss' \<and> session_at sv' i k = Some ss'"
  using assms
proof (induction evs arbitrary: sv ss)
  case Nil
  then show ?case by simp
next
  case (Cons ev evs)
  from Cons.prems(1) obtain sv1 where sv1: "server_step fuel R ev sv = Some (Inr sv1)"
      "serve fuel R evs sv1 = Some (Inr sv')"
    by (auto split: option.splits sum.splits)
  show ?case
  proof (cases "ev = Resumed i k")
    case True
    with server_step_session [OF sv1(1) Cons.prems(2)] obtain ss1 where
      ss1: "session_next fuel R (sv_connections sv) ss = Some (Inr ss1)" "session_at sv1 i k = Some ss1" by auto
    from Cons.IH [OF sv1(2) ss1(2)] obtain ns ss' where
      "length ns = resumptions i k evs" "session_alone fuel R ns ss1 = Some ss'" "session_at sv' i k = Some ss'" by blast
    with True ss1(1) show ?thesis by (intro exI [of _ "sv_connections sv # ns"] exI [of _ ss']) simp
  next
    case False
    with server_step_session [OF sv1(1) Cons.prems(2)] have "session_at sv1 i k = Some ss" by simp
    moreover have "resumptions i k (ev # evs) = resumptions i k evs" using False by (cases ev) auto
    ultimately show ?thesis using Cons.IH [OF sv1(2)] by simp
  qed
qed

lemma serve_listening:
  assumes "serve fuel R evs sv = Some (Inr sv')"
  shows "listening_at sv' i \<longleftrightarrow> listening_at sv i \<and> (\<forall>msg. Accept_failed i msg \<notin> set evs)"
  using assms
proof (induction evs arbitrary: sv)
  case (Cons ev evs)
  from Cons.prems obtain sv1 where sv1: "server_step fuel R ev sv = Some (Inr sv1)"
      "serve fuel R evs sv1 = Some (Inr sv')"
    by (auto split: option.splits sum.splits)
  from server_step_listening [OF sv1(1)] Cons.IH [OF sv1(2)] show ?case by auto
qed simp

lemma server_step_sessions:
  assumes "server_step fuel R ev sv = Some (Inr sv')" and "\<not> listening_at sv i"
  shows "length (sv_contexts sv') = length (sv_contexts sv) \<and>
    length (cx_sessions (sv_contexts sv' ! i)) = length (cx_sessions (sv_contexts sv ! i))"
proof (cases ev)
  case (Resumed j l)
  with assms show ?thesis
    by (auto simp: resumed_iff nth_update_if split: if_splits simp del: server_step.simps)
qed (use assms in \<open>auto simp: listen_accepts_def listen_fails_def listening_at_def Let_def nth_update_if
    split: if_splits\<close>)

lemma serve_sessions:
  assumes "serve fuel R evs sv = Some (Inr sv')" and "\<not> listening_at sv i"
  shows "length (cx_sessions (sv_contexts sv' ! i)) = length (cx_sessions (sv_contexts sv ! i))"
  using assms
proof (induction evs arbitrary: sv)
  case (Cons ev evs)
  from Cons.prems(1) obtain sv1 where sv1: "server_step fuel R ev sv = Some (Inr sv1)"
      "serve fuel R evs sv1 = Some (Inr sv')"
    by (auto split: option.splits sum.splits)
  from server_step_sessions [OF sv1(1) Cons.prems(2)] server_step_listening [OF sv1(1), of i]
    Cons.IH [OF sv1(2)] Cons.prems(2)
  show ?case by simp
qed simp

lemma serve_resumed:
  assumes "session_at sv i k = Some ss" and "session_next fuel R (sv_connections sv) ss = Some (Inr ss')"
  shows "\<exists>sv'. serve fuel R [Resumed i k] sv = Some (Inr sv')"
proof -
  from assms obtain sv' where "server_step fuel R (Resumed i k) sv = Some (Inr sv')"
    unfolding resumed_iff by blast
  then show ?thesis by (simp del: server_step.simps)
qed

lemma serve_snoc:
  "serve fuel R evs sv = Some (Inr sv1) \<Longrightarrow> serve fuel R [ev] sv1 = r \<Longrightarrow> serve fuel R (evs @ [ev]) sv = r"
  by (induction evs arbitrary: sv) (auto split: option.splits sum.splits)


subsection \<open>A session with a well-behaved peer\<close>

text \<open>
  Where the session is after \<open>m\<close> resumptions: it has taken its number with the first and
  printed it with the second, \<open>m - 2\<close> exchanges are done, and behind the last of them the
  pass that finds the peer gone has ended the session.
\<close>

definition served ::
  "'s socket_ops \<Rightarrow> ('s \<Rightarrow> byte list list) \<Rightarrow> ('s \<Rightarrow> byte list) \<Rightarrow> exchange list \<Rightarrow> byte list \<Rightarrow> 's session \<Rightarrow> nat \<Rightarrow> bool" where
  "served S script wire exs w ss m \<longleftrightarrow>
     m \<le> length exs + 3 \<and> ss_ops ss = S \<and>
     wire (cn_socket (ss_conn ss)) = w @ concat (map ex_reply (take (m - 2) exs)) \<and>
     (\<forall>i. length (snd (ss_stale ss i)) = 4096) \<and>
     (if m = length exs + 3 then ss_state ss = Finished (Error_of CONNECTION_ENDED)
      else (if m = 0 then ss_state ss = Fresh else if m = 1 then \<exists>n. ss_state ss = Counted n
            else ss_state ss = Running) \<and>
           idle (ss_conn ss) \<and> script (cn_socket (ss_conn ss)) = concat (map ex_segs (drop (m - 2) exs)))"

lemma served_new:
  assumes "script s = concat (map ex_segs exs)" and "\<And>i. length (snd (stale i)) = 4096"
  shows "served S script wire exs (wire s) (session_new S s stale) 0"
  using assms idle_new by (simp add: served_def session_new_def connection_new_def)

lemma served_next:
  assumes S: "peer S script wire" and R: "test_server = Inr R" and ok: "list_all exchange_ok exs"
    and fuel: "\<forall>ex \<in> set exs. turn_fuel ex \<le> fuel" "0 < fuel"
    and ss: "served S script wire exs w ss m" and m: "m < length exs + 3"
  obtains ss' where "session_next fuel R number ss = Some (Inr ss')" and "served S script wire exs w ss' (Suc m)"
proof -
  consider "m = 0" | "m = 1" | n where "m = Suc (Suc n)" by (metis One_nat_def not0_implies_Suc)
  then show thesis
  proof cases
    case 1
    with ss that show thesis by (auto simp: served_def session_next_def)
  next
    case 2
    with ss obtain n where "ss_state ss = Counted n" by (auto simp: served_def)
    then have "session_next fuel R number ss = Some (Inr (ss\<lparr>ss_state := Running\<rparr>))" by (simp add: session_next_def)
    moreover have "served S script wire exs w (ss\<lparr>ss_state := Running\<rparr>) (Suc m)"
      using ss 2 by (simp add: served_def)
    ultimately show thesis by (rule that)
  next
    case (3 n)
    let ?c = "ss_conn ss" and ?st = "ss_stale ss (ss_turn ss)"
    from ss m 3 have run: "ss_state ss = Running" "idle ?c" "length (snd ?st) = 4096"
      "script (cn_socket ?c) = concat (map ex_segs (drop n exs))"
      "wire (cn_socket ?c) = w @ concat (map ex_reply (take n exs))"
      "\<forall>i. length (snd (ss_stale ss i)) = 4096" "ss_ops ss = S"
      by (simp_all add: served_def)
    show thesis
    proof (cases "n < length exs")
      case True
      then have ex: "exchange_ok (exs ! n)" "turn_fuel (exs ! n) \<le> fuel"
        using ok fuel by (simp_all add: list_all_length)
      have "script (cn_socket ?c) = ex_segs (exs ! n) @ concat (map ex_segs (drop (Suc n) exs))"
        using run(4) True by (simp add: Cons_nth_drop_Suc [symmetric])
      then obtain c' where c': "connect_once fuel S R ?st ?c = Some (Inr (c', None))" "idle c'"
          "script (cn_socket c') = concat (map ex_segs (drop (Suc n) exs))"
          "wire (cn_socket c') = wire (cn_socket ?c) @ ex_reply (exs ! n)"
        using connect_once_answers [OF S R run(2) ex(1) _ run(3) ex(2)] by blast
      have "session_next fuel R number ss = Some (Inr (ss\<lparr>ss_conn := c', ss_turn := ss_turn ss + 1\<rparr>))"
        using run(1,7) c'(1) by (simp add: session_next_def)
      moreover have "served S script wire exs w (ss\<lparr>ss_conn := c', ss_turn := ss_turn ss + 1\<rparr>) (Suc m)"
        using run c' True 3 by (simp add: served_def take_Suc_conv_app_nth)
      ultimately show thesis by (rule that)
    next
      case False
      then have none: "script (cn_socket ?c) = []" and n: "n = length exs" using run(4) m 3 by simp_all
      have rd: "reads_script S script wire" using S by (simp add: peer_def)
      obtain f where f: "fuel = Suc f" using fuel(2) by (cases fuel) auto
      obtain c' where c': "connect_once fuel S R ?st ?c = Some (Inr (c', Some (Error_of CONNECTION_ENDED)))"
          "wire (cn_socket c') = wire (cn_socket ?c)"
        unfolding f by (rule connect_once_ends [OF rd run(2) none])
      have "session_next fuel R number ss = Some (Inr (ss\<lparr>ss_conn := c', ss_state := Finished (Error_of CONNECTION_ENDED)\<rparr>))"
        using run(1,7) c'(1) by (simp add: session_next_def)
      moreover have "served S script wire exs w (ss\<lparr>ss_conn := c', ss_state := Finished (Error_of CONNECTION_ENDED)\<rparr>) (Suc m)"
        using run c' n 3 by (simp add: served_def)
      ultimately show thesis by (rule that)
    qed
  qed
qed

lemma served_alone:
  assumes "peer S script wire" and "test_server = Inr R" and "list_all exchange_ok exs"
    and "\<forall>ex \<in> set exs. turn_fuel ex \<le> fuel" and "0 < fuel"
    and "served S script wire exs w ss m" and "session_alone fuel R ns ss = Some ss'"
  shows "served S script wire exs w ss' (m + length ns)"
  using assms(6,7)
proof (induction ns arbitrary: ss m)
  case (Cons n ns)
  show ?case
  proof (cases "m < length exs + 3")
    case True
    obtain s1 where "session_next fuel R n ss = Some (Inr s1)" "served S script wire exs w s1 (Suc m)"
      by (rule served_next [OF assms(1-5) Cons.prems(1) True])
    with Cons.IH [of s1 "Suc m"] Cons.prems(2) show ?thesis by simp
  next
    case False
    with Cons.prems show ?thesis by (simp add: served_def session_next_def)
  qed
qed simp

end
