(* ===== verification/ServerLog.thy ===== *)
theory ServerLog
  imports Server "HOL-Library.Multiset"
begin

section \<open>The console of the server\<close>

text \<open>
  The states that events lead to from the start, as an inductive relation, and what the
  console of such a state shows: the number of each connection once (in any order, as
  taking a number and printing it are two operations), one report of each session that
  ended, and one line for each listener that is gone.
\<close>

inductive server_reachable ::
  "nat \<Rightarrow> http_handler router \<Rightarrow> 's server \<Rightarrow> 's server \<Rightarrow> bool"
  for fuel R sv0 where
  start: "server_reachable fuel R sv0 sv0"
| event: "server_reachable fuel R sv0 sv \<Longrightarrow> server_step fuel R ev sv = Some (Inr sv') \<Longrightarrow>
     server_reachable fuel R sv0 sv'"

inductive_cases server_reachableE: "server_reachable fuel R sv0 sv"

lemma serve_reachable:
  assumes "serve fuel R evs sv = Some (Inr sv')" and "server_reachable fuel R sv0 sv"
  shows "server_reachable fuel R sv0 sv'"
  using assms
proof (induction evs arbitrary: sv)
  case (Cons ev evs)
  from Cons.prems(1) obtain sv1 where sv1: "server_step fuel R ev sv = Some (Inr sv1)"
      "serve fuel R evs sv1 = Some (Inr sv')"
    by (auto split: option.splits sum.splits)
  from Cons.IH [OF sv1(2) server_reachable.event [OF Cons.prems(2) sv1(1)]] show ?case .
qed simp

lemma reachable_serve: "server_reachable fuel R sv0 sv \<Longrightarrow> \<exists>evs. serve fuel R evs sv0 = Some (Inr sv)"
proof (induction rule: server_reachable.induct)
  case start
  show ?case by (rule exI [of _ "[]"]) simp
next
  case (event sv ev sv')
  then obtain evs where "serve fuel R evs sv0 = Some (Inr sv)" by blast
  from serve_snoc [OF this, of ev] event.hyps(2) show ?case
    by (intro exI [of _ "evs @ [ev]"]) (simp del: server_step.simps)
qed

lemma reachable_iff: "server_reachable fuel R sv0 sv \<longleftrightarrow> (\<exists>evs. serve fuel R evs sv0 = Some (Inr sv))"
  using reachable_serve serve_reachable server_reachable.start by blast


subsection \<open>What one event changes\<close>

definition sessions_of :: "'s server \<Rightarrow> 's session list" where
  "sessions_of sv = concat (map cx_sessions (sv_contexts sv))"

definition listeners_down :: "'s server \<Rightarrow> nat" where
  "listeners_down sv = length (filter (\<lambda>cx. \<not> cx_listening cx) (sv_contexts sv))"

lemma split_nth: "i < length xs \<Longrightarrow> xs = take i xs @ xs ! i # drop (Suc i) xs"
  by (rule id_take_nth_drop)

lemma split_update: "i < length xs \<Longrightarrow> xs[i := x] = take i xs @ x # drop (Suc i) xs"
  by (rule upd_conv_take_nth_drop)

lemma context_split:
  assumes "i < length (sv_contexts sv)"
  obtains pre post where "sessions_of sv = pre @ cx_sessions (sv_contexts sv ! i) @ post"
    and "\<And>cx. concat (map cx_sessions ((sv_contexts sv)[i := cx])) = pre @ cx_sessions cx @ post"
proof
  let ?cs = "sv_contexts sv"
  show "sessions_of sv = concat (map cx_sessions (take i ?cs)) @ cx_sessions (?cs ! i) @
      concat (map cx_sessions (drop (Suc i) ?cs))"
    unfolding sessions_of_def by (subst split_nth [OF assms]) simp
  show "concat (map cx_sessions (?cs[i := cx])) = concat (map cx_sessions (take i ?cs)) @ cx_sessions cx @
      concat (map cx_sessions (drop (Suc i) ?cs))" for cx
    by (simp add: split_update [OF assms])
qed

lemma listeners_update:
  assumes "i < length (sv_contexts sv)"
  shows "length (filter (\<lambda>cx. \<not> cx_listening cx) ((sv_contexts sv)[i := cx])) + (if cx_listening (sv_contexts sv ! i) then 0 else 1) =
    listeners_down sv + (if cx_listening cx then 0 else 1)"
proof -
  let ?f = "\<lambda>xs. length (filter (\<lambda>cx. \<not> cx_listening cx) xs)"
  have "listeners_down sv = ?f (take i (sv_contexts sv)) + ((if cx_listening (sv_contexts sv ! i) then 0 else 1) + ?f (drop (Suc i) (sv_contexts sv)))"
    unfolding listeners_down_def by (subst split_nth [OF assms]) simp
  then show ?thesis by (simp add: split_update [OF assms])
qed

lemma accepted_effect:
  assumes "server_step fuel R (Accepted i S s stale) sv = Some (Inr sv')"
  obtains pre post where "sessions_of sv = pre @ post" and "sessions_of sv' = pre @ session_new S s stale # post"
    and "sv_console sv' = sv_console sv" and "sv_connections sv' = sv_connections sv"
    and "listeners_down sv' = listeners_down sv"
proof -
  let ?cx = "sv_contexts sv ! i"
  have i: "i < length (sv_contexts sv)" and sv': "sv' = sv\<lparr>sv_contexts := (sv_contexts sv)
      [i := ?cx\<lparr>cx_sessions := cx_sessions ?cx @ [session_new S s stale]\<rparr>]\<rparr>"
    using assms by (auto simp: listen_accepts_def Let_def split: if_splits)
  obtain pre post where p: "sessions_of sv = pre @ cx_sessions ?cx @ post"
    "\<And>cx. concat (map cx_sessions ((sv_contexts sv)[i := cx])) = pre @ cx_sessions cx @ post"
    by (rule context_split [OF i]) blast
  show thesis
  proof
    show "sessions_of sv = (pre @ cx_sessions ?cx) @ post" using p(1) by simp
    show "sessions_of sv' = (pre @ cx_sessions ?cx) @ session_new S s stale # post"
      by (simp add: sessions_of_def sv' p(2))
    show "listeners_down sv' = listeners_down sv"
      using listeners_update [OF i, of "?cx\<lparr>cx_sessions := cx_sessions ?cx @ [session_new S s stale]\<rparr>"]
      by (simp add: listeners_down_def sv' split: if_splits)
  qed (simp_all add: sv')
qed

lemma failed_effect:
  assumes "server_step fuel R (Accept_failed i msg) sv = Some (Inr sv')"
  shows "sessions_of sv' = sessions_of sv" and "sv_console sv' = sv_console sv @ [Listener_failed msg]"
    and "sv_connections sv' = sv_connections sv" and "listeners_down sv' = Suc (listeners_down sv)"
proof -
  let ?cx = "sv_contexts sv ! i"
  have i: "i < length (sv_contexts sv)" "cx_listening ?cx"
    and sv': "sv' = sv\<lparr>sv_contexts := (sv_contexts sv)[i := ?cx\<lparr>cx_listening := False\<rparr>],
      sv_console := sv_console sv @ [Listener_failed msg]\<rparr>"
    using assms by (auto simp: listen_fails_def split: if_splits)
  obtain pre post where p: "sessions_of sv = pre @ cx_sessions ?cx @ post"
    "\<And>cx. concat (map cx_sessions ((sv_contexts sv)[i := cx])) = pre @ cx_sessions cx @ post"
    by (rule context_split [OF i(1)]) blast
  show "sessions_of sv' = sessions_of sv" by (simp add: p(1)) (simp add: sessions_of_def sv' p(2))
  show "listeners_down sv' = Suc (listeners_down sv)"
    using listeners_update [OF i(1), of "?cx\<lparr>cx_listening := False\<rparr>"] i(2) by (simp add: listeners_down_def sv')
qed (use assms in \<open>auto simp: listen_fails_def split: if_splits\<close>)

lemma resumed_effect:
  assumes "server_step fuel R (Resumed i k) sv = Some (Inr sv')"
  obtains pre post ss ss' where "sessions_of sv = pre @ ss # post" and "sessions_of sv' = pre @ ss' # post"
    and "session_next fuel R (sv_connections sv) ss = Some (Inr ss')"
    and "sv_console sv' = sv_console sv @ session_output ss ss'"
    and "sv_connections sv' = (if ss_state ss = Fresh then sv_connections sv + 1 else sv_connections sv)"
    and "listeners_down sv' = listeners_down sv"
proof -
  let ?cx = "sv_contexts sv ! i"
  obtain ss ss' where at: "session_at sv i k = Some ss" and next1: "session_next fuel R (sv_connections sv) ss = Some (Inr ss')"
    and sv': "sv' = sv\<lparr>sv_contexts := (sv_contexts sv)[i := ?cx\<lparr>cx_sessions := (cx_sessions ?cx)[k := ss']\<rparr>],
       sv_connections := (if ss_state ss = Fresh then sv_connections sv + 1 else sv_connections sv),
       sv_console := sv_console sv @ session_output ss ss'\<rparr>"
    using assms unfolding resumed_iff by blast
  have i: "i < length (sv_contexts sv)" and k: "k < length (cx_sessions ?cx)" and ss: "cx_sessions ?cx ! k = ss"
    using at by (auto simp: session_at_def split: if_splits)
  obtain pre post where p: "sessions_of sv = pre @ cx_sessions ?cx @ post"
    "\<And>cx. concat (map cx_sessions ((sv_contexts sv)[i := cx])) = pre @ cx_sessions cx @ post"
    by (rule context_split [OF i]) blast
  show thesis
  proof
    show "sessions_of sv = (pre @ take k (cx_sessions ?cx)) @ ss # (drop (Suc k) (cx_sessions ?cx) @ post)"
      unfolding p(1) using split_nth [OF k] ss by simp
    show "sessions_of sv' = (pre @ take k (cx_sessions ?cx)) @ ss' # (drop (Suc k) (cx_sessions ?cx) @ post)"
      by (simp add: sessions_of_def sv' p(2) split_update [OF k])
    show "listeners_down sv' = listeners_down sv"
      using listeners_update [OF i, of "?cx\<lparr>cx_sessions := (cx_sessions ?cx)[k := ss']\<rparr>"]
      by (simp add: listeners_down_def sv' split: if_splits)
  qed (use next1 in \<open>simp_all add: sv'\<close>)
qed


subsection \<open>The console accounts for the sessions\<close>

definition is_number :: "console_line \<Rightarrow> bool" where
  "is_number l \<longleftrightarrow> (case l of Connections _ \<Rightarrow> True | _ \<Rightarrow> False)"

definition is_report :: "console_line \<Rightarrow> bool" where
  "is_report l \<longleftrightarrow> (case l of Error_line _ \<Rightarrow> True | Session_failed _ \<Rightarrow> True | _ \<Rightarrow> False)"

definition is_failure :: "console_line \<Rightarrow> bool" where
  "is_failure l \<longleftrightarrow> (case l of Listener_failed _ \<Rightarrow> True | _ \<Rightarrow> False)"

definition started :: "'s server \<Rightarrow> nat" where
  "started sv = length (filter (\<lambda>ss. ss_state ss \<noteq> Fresh) (sessions_of sv))"

text \<open>What a session that has ended has said.\<close>

definition session_report :: "'s session \<Rightarrow> console_line list" where
  "session_report ss =
     (case ss_state ss of
        Finished err \<Rightarrow> if is_error err then [Error_line err] else []
      | Threw f \<Rightarrow> [Session_failed f]
      | _ \<Rightarrow> [])"

text \<open>The number that a session has taken and not printed yet.\<close>

definition number_pending :: "'s session \<Rightarrow> console_line list" where
  "number_pending ss = (case ss_state ss of Counted n \<Rightarrow> [Connections (sint n)] | _ \<Rightarrow> [])"

definition numbers :: "nat \<Rightarrow> console_line list" where
  "numbers n = map (\<lambda>j. Connections (sint (of_nat j :: 32 word))) [1..<Suc n]"

definition log_inv :: "'s server \<Rightarrow> bool" where
  "log_inv sv \<longleftrightarrow>
     sv_connections sv = of_nat (Suc (started sv)) \<and>
     mset (filter is_number (sv_console sv)) + mset (concat (map number_pending (sessions_of sv))) =
       mset (numbers (started sv)) \<and>
     mset (filter is_report (sv_console sv)) = mset (concat (map session_report (sessions_of sv))) \<and>
     length (filter is_failure (sv_console sv)) = listeners_down sv"

lemma numbers_Suc: "numbers (Suc n) = numbers n @ [Connections (sint (of_nat (Suc n) :: 32 word))]"
  by (simp add: numbers_def)

lemma session_next_cases:
  assumes "session_next fuel R n ss = Some (Inr ss')"
  obtains (counts) "ss_state ss = Fresh" "ss_state ss' = Counted n"
  | (prints) m where "ss_state ss = Counted m" "ss_state ss' = Running"
  | (goes_on) "ss_state ss = Running" "ss_state ss' = Running"
  | (ends) err where "ss_state ss = Running" "ss_state ss' = Finished err"
  | (throws) f where "ss_state ss = Running" "ss_state ss' = Threw f"
  using assms by (auto simp: session_next_def split: session_state.splits option.splits sum.splits prod.splits if_splits)

lemmas log_kinds =
  is_number_def is_report_def is_failure_def session_output_def session_report_def number_pending_def

lemma log_inv_event:
  assumes "server_step fuel R ev sv = Some (Inr sv')" and "log_inv sv"
  shows "log_inv sv'"
proof (cases ev)
  case (Accepted i S s stale)
  with assms(1) have "server_step fuel R (Accepted i S s stale) sv = Some (Inr sv')" by simp
  then show ?thesis
    by (rule accepted_effect)
       (use assms(2) in \<open>simp add: log_inv_def started_def session_new_def session_report_def number_pending_def\<close>)
next
  case (Accept_failed i msg)
  with assms(1) have "server_step fuel R (Accept_failed i msg) sv = Some (Inr sv')" by simp
  from failed_effect [OF this] assms(2) show ?thesis
    by (simp add: log_inv_def started_def log_kinds)
next
  case (Resumed i k)
  with assms(1) have "server_step fuel R (Resumed i k) sv = Some (Inr sv')" by simp
  then show ?thesis
  proof (rule resumed_effect)
    fix pre post ss ss'
    assume e: "sessions_of sv = pre @ ss # post" "sessions_of sv' = pre @ ss' # post"
      "sv_console sv' = sv_console sv @ session_output ss ss'"
      "sv_connections sv' = (if ss_state ss = Fresh then sv_connections sv + 1 else sv_connections sv)"
      "listeners_down sv' = listeners_down sv"
      and next1: "session_next fuel R (sv_connections sv) ss = Some (Inr ss')"
    from next1 show "log_inv sv'"
    proof (cases rule: session_next_cases)
      case counts
      then have "started sv' = Suc (started sv)" by (simp add: started_def e)
      with counts e assms(2) show ?thesis by (simp add: log_inv_def log_kinds numbers_Suc)
    next
      case (prints m)
      then have "started sv' = started sv" by (simp add: started_def e)
      with prints e assms(2) show ?thesis by (simp add: log_inv_def log_kinds)
    next
      case goes_on
      then have "started sv' = started sv" by (simp add: started_def e)
      with goes_on e assms(2) show ?thesis by (simp add: log_inv_def log_kinds)
    next
      case (ends err)
      then have "started sv' = started sv" by (simp add: started_def e)
      with ends e assms(2) show ?thesis by (simp add: log_inv_def log_kinds)
    next
      case (throws f)
      then have "started sv' = started sv" by (simp add: started_def e)
      with throws e assms(2) show ?thesis by (simp add: log_inv_def log_kinds)
    qed
  qed
qed

lemma log_inv_main:
  assumes "server_main write_json make_address listens n = Some (R, sv)"
  shows "log_inv sv"
proof -
  have "concat (map cx_sessions (replicate n \<lparr>cx_listening = b, cx_sessions = []\<rparr>)) = []" for b
    by simp
  then show ?thesis
    using assms
    by (auto simp: server_main_def server_new_def server_run_def log_inv_def started_def sessions_of_def listeners_down_def
        numbers_def log_kinds split: sum.splits option.splits if_splits)
qed

lemma log_inv_reachable:
  assumes "server_reachable fuel R sv0 sv" and "log_inv sv0"
  shows "log_inv sv"
  using assms by (induction rule: server_reachable.induct) (auto intro: log_inv_event)

end
