(* ===== verification/ServerProperties.thy ===== *)
theory ServerProperties
  imports ExampleSocket ServerLog
begin

section \<open>Properties of the server\<close>

text \<open>What holds for every order in which peers connect and sessions of all threads run.\<close>

text \<open>
  C26. Clients are served independently: a peer that is accepted on any thread, in any
  state of the server, and that sends well-formed requests, each in segments of its own,
  and then closes its side, is sent the replies to its requests in order, one with each
  resumption of its session behind the two that count and print the connection; until it
  is done, its session can always go on without a fault; and when it was resumed three
  times more than there are requests, it has ended with \<open>CONNECTION_ENDED\<close>. Nothing is
  assumed of the other peers and their sockets, nor of the order in which sessions of all
  threads are resumed. What another session can do to it is to run into undefined
  behaviour (as in C22), or not to return to its thread: the statement is about every run
  up to there.
\<close>

theorem server_serves_each_client:
  assumes "peer S script wire" and "test_server = Inr R" and "list_all exchange_ok exs"
    and "script s = concat (map ex_segs exs)" and "\<forall>j. length (snd (stale j)) = 4096"
    and "\<forall>ex \<in> set exs. turn_fuel ex \<le> fuel" and "0 < fuel"
    and "serve fuel R (Accepted i S s stale # evs) sv = Some (Inr sv')"
    and "k = length (cx_sessions (sv_contexts sv ! i))" and "m = resumptions i k evs"
  shows "\<exists>ss. session_at sv' i k = Some ss \<and> m \<le> length exs + 3 \<and>
    wire (cn_socket (ss_conn ss)) = wire s @ concat (map ex_reply (take (m - 2) exs)) \<and>
    (m < length exs + 3 \<longrightarrow> (\<exists>sv''. serve fuel R [Resumed i k] sv' = Some (Inr sv''))) \<and>
    (ss_state ss = Finished (Error_of CONNECTION_ENDED) \<longleftrightarrow> m = length exs + 3)"
proof -
  obtain sv1 where sv1: "listen_accepts i S s stale sv = Some sv1" "serve fuel R evs sv1 = Some (Inr sv')"
    using assms(8) by (auto split: option.splits)
  have "session_at sv1 i k = Some (session_new S s stale)"
    using sv1(1) assms(9) by (auto simp: listen_accepts_def session_at_def Let_def split: if_splits)
  from serve_session [OF sv1(2) this] obtain ns ss where ss: "length ns = m"
    "session_alone fuel R ns (session_new S s stale) = Some ss" "session_at sv' i k = Some ss"
    using assms(10) by blast
  have "served S script wire exs (wire s) (session_new S s stale) 0"
    using assms(4,5) by (intro served_new) simp_all
  from served_alone [OF assms(1-3,6,7) this ss(2)] ss(1) have sd: "served S script wire exs (wire s) ss m" by simp
  have "\<exists>sv''. serve fuel R [Resumed i k] sv' = Some (Inr sv'')" if more: "m < length exs + 3"
  proof -
    obtain ss' where "session_next fuel R (sv_connections sv') ss = Some (Inr ss')"
      by (rule served_next [OF assms(1-3,6,7) sd more])
    with ss(3) show ?thesis by (rule serve_resumed)
  qed
  with ss(3) sd show ?thesis by (auto simp: served_def split: if_splits)
qed

definition two_threads :: "(byte list list \<times> byte list) server" where
  "two_threads = snd (the (server_main (\<lambda>_. ''{}'') Some (\<lambda>_ _ _. True) 2))"

lemma two_threads_eq:
  "two_threads = \<lparr>sv_contexts = replicate 2 \<lparr>cx_listening = True, cx_sessions = []\<rparr>, sv_connections = 1,
     sv_console = [Console_text ''starting server...'', Console_text ''{}'']\<rparr>"
proof -
  obtain R where R: "test_server = Inr R" using test_server_parts by blast
  show ?thesis
    by (simp add: two_threads_def server_main_def R server_run_def server_new_def list_all_iff)
qed

theorem server_serves_each_client_witness:
  "\<exists>R sv ss. test_server = Inr R \<and>
     serve 6000 R
       [Accepted 0 list_socket (ex_segs example_exchange, []) (\<lambda>_. (True, replicate 4096 7)), Resumed 0 0,
        Accept_failed 1 ''Too many open files'', Resumed 0 0, Resumed 0 0, Resumed 0 0] two_threads = Some (Inr sv) \<and>
     session_at sv 0 0 = Some ss \<and> ss_state ss = Finished (Error_of CONNECTION_ENDED) \<and>
     snd (cn_socket (ss_conn ss)) = page (bytes ''1.1'') (bytes ''Hello twooo2234567!'')"
proof -
  obtain R where R: "test_server = Inr R" using test_server_parts by blast
  let ?st = "\<lambda>_ :: nat. (True, replicate 4096 7 :: byte list)"
  let ?acc = "Accepted 0 list_socket (ex_segs example_exchange, []) ?st"
  have k: "0 = length (cx_sessions (sv_contexts two_threads ! 0))" by (simp add: two_threads_eq)
  have ok: "list_all exchange_ok [example_exchange]" "\<forall>ex \<in> set [example_exchange]. turn_fuel ex \<le> 6000"
    using example_exchange_ok example_exchange_fuel by simp_all
  note each = server_serves_each_client [OF peer_list_socket R ok(1) _ _ ok(2) _ _ k refl, of "(ex_segs example_exchange, [])" ?st]
  obtain sv1 where 1: "serve 6000 R [?acc] two_threads = Some (Inr sv1)"
    by (simp add: two_threads_eq listen_accepts_def Let_def)
  obtain sv2 where 2: "serve 6000 R [?acc, Resumed 0 0] two_threads = Some (Inr sv2)"
    using each [OF _ _ _ 1] serve_snoc [OF 1] by fastforce
  have "listening_at sv2 1" using serve_listening [OF 2, of 1] by (simp add: listening_at_def two_threads_eq)
  then obtain sv3 where 3: "serve 6000 R [?acc, Resumed 0 0, Accept_failed 1 ''Too many open files''] two_threads
      = Some (Inr sv3)"
    using serve_snoc [OF 2] by (fastforce simp: listen_fails_def listening_at_def)
  obtain sv4 where 4: "serve 6000 R [?acc, Resumed 0 0, Accept_failed 1 ''Too many open files'', Resumed 0 0]
      two_threads = Some (Inr sv4)"
    using each [OF _ _ _ 3] serve_snoc [OF 3] by fastforce
  obtain sv5 where 5: "serve 6000 R [?acc, Resumed 0 0, Accept_failed 1 ''Too many open files'', Resumed 0 0,
      Resumed 0 0] two_threads = Some (Inr sv5)"
    using each [OF _ _ _ 4] serve_snoc [OF 4] by fastforce
  obtain sv6 where 6: "serve 6000 R [?acc, Resumed 0 0, Accept_failed 1 ''Too many open files'', Resumed 0 0,
      Resumed 0 0, Resumed 0 0] two_threads = Some (Inr sv6)"
    using each [OF _ _ _ 5] serve_snoc [OF 5] by fastforce
  with each [OF _ _ _ 6] R show ?thesis by (fastforce simp: example_reply)
qed

text \<open>
  C27. A listener whose \<open>async_accept\<close> fails once is gone: its thread keeps running its
  sessions but never accepts a peer again, while the listeners of the other threads go on
  until they fail themselves. The console tells only the failure.
\<close>

theorem failed_listener_stays_down:
  assumes "serve fuel R (Accept_failed i msg # evs) sv = Some (Inr sv')"
  shows "serve fuel R [Accepted i S s stale] sv' = None \<and>
    length (cx_sessions (sv_contexts sv' ! i)) = length (cx_sessions (sv_contexts sv ! i)) \<and>
    (listening_at sv' j \<longleftrightarrow> listening_at sv j \<and> j \<noteq> i \<and> (\<forall>msg'. Accept_failed j msg' \<notin> set evs))"
proof -
  obtain sv1 where sv1: "listen_fails i msg sv = Some sv1" "serve fuel R evs sv1 = Some (Inr sv')"
    using assms by (auto split: option.splits)
  have down: "\<not> listening_at sv1 i"
    and same: "length (cx_sessions (sv_contexts sv1 ! i)) = length (cx_sessions (sv_contexts sv ! i))"
    using sv1(1) by (auto simp: listen_fails_def listening_at_def nth_update_if split: if_splits)
  from serve_listening [OF sv1(2), of i] down have "\<not> listening_at sv' i" by simp
  then have "serve fuel R [Accepted i S s stale] sv' = None"
    by (auto simp: listen_accepts_def listening_at_def)
  with serve_sessions [OF sv1(2) down] same serve_listening [OF assms, of j] show ?thesis by auto
qed

theorem failed_listener_stays_down_witness:
  "\<exists>sv. serve 6000 router_new [Accept_failed 0 ''Too many open files'', Accepted 1 list_socket ([], []) (\<lambda>_. (True, []))] two_threads
      = Some (Inr sv) \<and>
    serve 6000 router_new [Accepted 0 list_socket ([], []) (\<lambda>_. (True, []))] sv = None \<and> listening_at sv 1"
proof -
  obtain sv where sv: "serve 6000 router_new [Accept_failed 0 ''Too many open files'', Accepted 1 list_socket ([], []) (\<lambda>_. (True, []))] two_threads
      = Some (Inr sv)"
    by (simp add: two_threads_eq listen_accepts_def listen_fails_def Let_def nth_Cons' numeral_2_eq_2)
  from failed_listener_stays_down [OF sv, of list_socket "([], [])" "\<lambda>_. (True, [])" 1]
  have "serve 6000 router_new [Accepted 0 list_socket ([], []) (\<lambda>_. (True, []))] sv = None \<and> listening_at sv 1"
    by (simp add: listening_at_def two_threads_eq numeral_2_eq_2)
  with sv show ?thesis by blast
qed

text \<open>
  C28. The console accounts for what the server does: in every state that events lead to
  from \<open>main\<close>, each of the numbers 1, 2, 3 and so on up to the number of sessions that have
  started was printed once, or was taken by a session that is about to print it, whatever
  the threads do; the lines themselves may come in another order, as another thread may
  print between the two (the count is of all connections there have been, in 32 bits). The
  lines with an error, of a session that ended or threw, are, but for their order, exactly
  those of the sessions that have ended; and each listener that is gone has its line.
\<close>

theorem console_accounts:
  assumes "server_main write_json make_address listens n = Some (R, sv0)" and "server_reachable fuel R sv0 sv"
  shows "mset (filter is_number (sv_console sv)) + mset (concat (map number_pending (sessions_of sv))) =
      mset (map (\<lambda>j. Connections (sint (of_nat j :: 32 word))) [1..<Suc (started sv)]) \<and>
    sv_connections sv = of_nat (Suc (started sv)) \<and>
    mset (filter is_report (sv_console sv)) = mset (concat (map session_report (sessions_of sv))) \<and>
    length (filter is_failure (sv_console sv)) = listeners_down sv"
  using log_inv_reachable [OF assms(2) log_inv_main [OF assms(1)]] by (simp add: log_inv_def numbers_def)

text \<open>Two connections on two threads: the second number is printed first.\<close>

theorem console_accounts_witness:
  "\<exists>R sv0 sv. server_main (\<lambda>_. ''{}'') Some (\<lambda>_ _ _. True) 2 = Some (R, sv0) \<and>
     serve 5000 R
       [Accepted 0 list_socket ([], []) (\<lambda>_. (True, [])), Accepted 1 list_socket ([], []) (\<lambda>_. (True, [])),
        Resumed 1 0, Accept_failed 0 ''x'', Resumed 0 0, Resumed 0 0] sv0 = Some (Inr sv) \<and>
     filter is_number (sv_console sv) = [Connections 2] \<and>
     mset (filter is_number (sv_console sv)) + {#Connections 1#} = {#Connections 1, Connections 2#} \<and>
     length (filter is_failure (sv_console sv)) = 1"
proof -
  obtain R where R: "test_server = Inr R" using test_server_parts by blast
  have main: "server_main (\<lambda>_. ''{}'') Some (\<lambda>_ _ _. True) 2 = Some (R, two_threads)"
    by (simp add: two_threads_def server_main_def R server_run_def server_new_def list_all_iff)
  obtain sv where sv: "serve 5000 R
       [Accepted 0 list_socket ([], []) (\<lambda>_. (True, [])), Accepted 1 list_socket ([], []) (\<lambda>_. (True, [])),
        Resumed 1 0, Accept_failed 0 ''x'', Resumed 0 0, Resumed 0 0] two_threads = Some (Inr sv)"
    "started sv = 2" "listeners_down sv = 1" "map number_pending (sessions_of sv) = [[], [Connections 1]]"
    "filter is_number (sv_console sv) = [Connections 2]"
    by (simp add: two_threads_eq listen_accepts_def listen_fails_def context_resumes_def session_next_def session_new_def
        Let_def nth_Cons' numeral_2_eq_2 started_def sessions_of_def listeners_down_def number_pending_def
        session_output_def is_number_def)
  from console_accounts [OF main serve_reachable [OF sv(1) server_reachable.start]] sv(2-4)
  have "mset (filter is_number (sv_console sv)) + {#Connections 1#} = {#Connections 1, Connections 2#}"
    "length (filter is_failure (sv_console sv)) = 1"
    by (simp_all add: upt_rec)
  with main sv(1,5) show ?thesis by blast
qed

end
