(* ===== verification/SessionEnds.thy ===== *)
theory SessionEnds
  imports Session
begin

section \<open>A session ends\<close>

text \<open>
  Whatever bytes a peer sends: once it stops sending, the loop of \<open>connect\<close> ends. A turn
  of the loop either takes bytes from the socket or uses up what an earlier turn left in
  the buffer, and the replies of the server are short.
\<close>

lemma answer_length: "short_version v \<Longrightarrow> length (answer v path) \<le> 200"
  using short_version_length [of v]
  by (auto simp: answer_def page_def not_found_page_def status_line_def field_line_def to_chars.simps)

definition between_turns :: "'s connection \<Rightarrow> bool" where
  "between_turns c \<longleftrightarrow>
     sb_inv (cn_readBuffer c) \<and> length (sb_buffer (cn_readBuffer c)) = 4096 \<and>
     sb_inv (cn_writeBuffer c) \<and> content (cn_writeBuffer c) = [] \<and>
     length (sb_buffer (cn_writeBuffer c)) = 4096 \<and> cn_writeState c = WRITE_START"

definition turns_left :: "('s \<Rightarrow> nat) \<Rightarrow> 's connection \<Rightarrow> nat" where
  "turns_left rounds c = 2 * rounds (cn_socket c) + (if content (cn_readBuffer c) = [] then 0 else 1)"

definition turn_limit :: nat where
  "turn_limit = 4096 + 1024 * 1024 + most_read + 1"

lemma between_turns_new: "between_turns (connection_new s)"
  by (auto simp: between_turns_def connection_new_def static_buffer_new_def sb_inv_def content_def sz_modulus_def)

lemma turn_ends:
  assumes S: "finite_peer S rounds" "write_contract S wire" "write_keeps S rounds"
    and R: "test_server = Inr R" and c: "between_turns c" and hb: "length (snd stale) = 4096"
    and fuel: "turn_limit + rounds (cn_socket c) < fuel"
  shows "\<exists>r. connect_once fuel S R stale c = Some r \<and>
    (\<forall>c' err. r = Inr (c', err) \<longrightarrow>
       (case err of Some e \<Rightarrow> is_error e
        | None \<Rightarrow> between_turns c' \<and> rounds (cn_socket c') \<le> rounds (cn_socket c) \<and>
            turns_left rounds c' < turns_left rounds c))"
proof -
  have rb: "sb_inv (cn_readBuffer c)" "length (sb_buffer (cn_readBuffer c)) = 4096"
    using c by (simp_all add: between_turns_def)
  have f: "4096 + 1024 * 1024 + most_read + rounds (cn_socket c) + 1 < fuel"
    using fuel by (simp add: turn_limit_def)
  obtain rd where rd: "connection_read fuel S Request_message c (request_span (snd stale)) = Some rd"
    "\<And>c' m'. rd = Inr (c', m', Error_none) \<Longrightarrow>
       reads.read_done 4096 (write_side c) c' m' \<and>
       (rounds (cn_socket c') < rounds (cn_socket c) \<or>
        rounds (cn_socket c') = rounds (cn_socket c) \<and> content (cn_readBuffer c) \<noteq> [] \<and>
        content (cn_readBuffer c') = [])"
    using request_read_ends [OF S(1) hb rb f] by blast
  show ?thesis
  proof (cases rd)
    case (Inl f)
    with rd(1) show ?thesis by (simp add: connect_once_def)
  next
    case (Inr x)
    obtain c1 req err where x: "x = (c1, req, err)" by (cases x)
    show ?thesis
    proof (cases "is_error err")
      case True
      with rd(1) Inr x show ?thesis by (simp add: connect_once_def)
    next
      case False
      then have err: "err = Error_none" by (simp add: not_is_error)
      with rd(2) Inr x have dn: "reads.read_done 4096 (write_side c) c1 req"
        "rounds (cn_socket c1) < rounds (cn_socket c) \<or>
         rounds (cn_socket c1) = rounds (cn_socket c) \<and> content (cn_readBuffer c) \<noteq> [] \<and>
         content (cn_readBuffer c1) = []" by auto
      then have turns: "turns_left rounds c1 < turns_left rounds c"
        by (auto simp: turns_left_def)
      have req: "length (rq_headerBuffer req) = 4096" "short_version (rq_version req)"
        and c1: "sb_inv (cn_readBuffer c1)" "length (sb_buffer (cn_readBuffer c1)) = 4096" "write_side c1 = write_side c"
        using dn(1) by (auto simp: reads.read_done_def rq_fin_def)
      have wb: "sb_inv (cn_writeBuffer c1)" "content (cn_writeBuffer c1) = []"
        "length (sb_buffer (cn_writeBuffer c1)) = 4096" "cn_writeState c1 = WRITE_START"
        using c c1(3) by (simp_all add: between_turns_def write_side_def)
      have buf: "length (rq_headerBuffer req) < 2 * rs_limit" using req(1) by (simp add: rs_limit_def)
      obtain r where r: "router_handle R (rq_path req) (fst stale, req, rq_headerBuffer req) = Some r"
        "responds r (answer (rq_version req) (rq_path req))"
        by (rule test_server_answers [OF R req(2) buf])
      then obtain res where res: "r = Inr res" "rs_hready res"
        "rs_hdr res @ rs_bod res = answer (rq_version req) (rq_path req)" by (auto simp: responds_def)
      have wf: "length (rs_hdr res @ rs_bod res) + length (sb_buffer (cn_writeBuffer c1)) + 2 < fuel"
        unfolding res(3) using answer_length [OF req(2), of "rq_path req"] wb(3) f by simp
      have pos: "0 < length (sb_buffer (cn_writeBuffer c1))" using wb(3) by simp
      obtain c2 res1 e where wr: "connection_write fuel S Response_message c1 res = Some (Inr (c2, res1, e))"
        "delivered S wire c1 (rs_hdr res @ rs_bod res) c2 e"
        using response_producer.connection_write_ok [OF S(2) wb(1,2) pos wb(4) res(2) wf] by blast
      show ?thesis
      proof (cases "is_error e")
        case True
        with rd(1) Inr x err r(1) res(1) wr(1) show ?thesis by (simp add: connect_once_def)
      next
        case False
        note frame = connection_write_frame [OF S(3) wr(1)]
        have "between_turns c2"
          using wr(2) False frame(1) c1 wb
          by (auto simp: delivered_def socket_error_def between_turns_def read_side_def)
        moreover have "turns_left rounds c2 = turns_left rounds c1"
          using frame by (simp add: turns_left_def read_side_def)
        ultimately show ?thesis
          using rd(1) Inr x err r(1) res(1) wr(1) False turns dn(2) frame(2) by (auto simp: connect_once_def)
      qed
    qed
  qed
qed

lemma loop_ends:
  assumes S: "finite_peer S rounds" "write_contract S wire" "write_keeps S rounds"
    and R: "test_server = Inr R" and hb: "\<forall>i. length (snd (stale i)) = 4096"
    and "between_turns c" and "turn_limit + rounds (cn_socket c) + turns_left rounds c + 1 < fuel"
  shows "\<exists>r. connect fuel S R stale i c = Some r \<and> (\<forall>c' e. r = Inr (c', e) \<longrightarrow> is_error e)"
  using assms(6,7)
proof (induction fuel arbitrary: c i)
  case (Suc fuel)
  have fuel: "turn_limit + rounds (cn_socket c) < fuel" using Suc.prems(2) by simp
  have stale: "length (snd (stale i)) = 4096" using hb by simp
  obtain r where r: "connect_once fuel S R (stale i) c = Some r"
    "\<And>c' err. r = Inr (c', err) \<Longrightarrow>
       (case err of Some e \<Rightarrow> is_error e
        | None \<Rightarrow> between_turns c' \<and> rounds (cn_socket c') \<le> rounds (cn_socket c) \<and>
            turns_left rounds c' < turns_left rounds c)"
    using turn_ends [OF S R Suc.prems(1) stale fuel] by blast
  show ?case
  proof (cases r)
    case (Inl f)
    with r(1) show ?thesis by simp
  next
    case (Inr x)
    obtain c1 err where x: "x = (c1, err)" by (cases x)
    note post = r(2) [of c1 err, unfolded Inr x, OF refl]
    show ?thesis
    proof (cases err)
      case None
      with post have c1: "between_turns c1" "turn_limit + rounds (cn_socket c1) + turns_left rounds c1 + 1 < fuel"
        using Suc.prems(2) by auto
      from Suc.IH [OF c1, of "i + 1"] r(1) Inr x None show ?thesis by simp
    next
      case (Some e)
      with r(1) Inr x post show ?thesis by simp
    qed
  qed
qed simp

end
