(* ===== verification/MsgpackBytes.thy ===== *)
theory MsgpackBytes
  imports Prelude
begin

section \<open>MessagePack: format constants and bytes of integers\<close>

text \<open>
  \<open>src/libModules/msgpack23.cpp\<close>, first part: the format constants and the conversion of
  integers to big-endian bytes. The machine is little-endian, as the build targets are:
  \<open>memory_bytes\<close> is \<open>std::bit_cast\<close> of an integer to its bytes and \<open>from_memory\<close> the
  \<open>std::memcpy\<close> back. The lemmas show that both are inverse to each other and that an
  integer converted to big endian is written with its most significant byte first.
\<close>

datatype FormatConstants =
    FC_nil | FC_false_bool | FC_true_bool | FC_bin8 | FC_bin16 | FC_bin32
  | FC_ext8 | FC_ext16 | FC_ext32 | FC_float32 | FC_float64
  | FC_uint8 | FC_uint16 | FC_uint32 | FC_uint64
  | FC_int8 | FC_int16 | FC_int32 | FC_int64
  | FC_fixext1 | FC_fixext2 | FC_fixext4 | FC_fixext8 | FC_fixext16
  | FC_str8 | FC_str16 | FC_str32 | FC_array16 | FC_array32 | FC_map16 | FC_map32

fun to_underlying :: "FormatConstants \<Rightarrow> byte" where
  "to_underlying FC_nil = 0xc0"
| "to_underlying FC_false_bool = 0xc2"
| "to_underlying FC_true_bool = 0xc3"
| "to_underlying FC_bin8 = 0xc4"
| "to_underlying FC_bin16 = 0xc5"
| "to_underlying FC_bin32 = 0xc6"
| "to_underlying FC_ext8 = 0xc7"
| "to_underlying FC_ext16 = 0xc8"
| "to_underlying FC_ext32 = 0xc9"
| "to_underlying FC_float32 = 0xca"
| "to_underlying FC_float64 = 0xcb"
| "to_underlying FC_uint8 = 0xcc"
| "to_underlying FC_uint16 = 0xcd"
| "to_underlying FC_uint32 = 0xce"
| "to_underlying FC_uint64 = 0xcf"
| "to_underlying FC_int8 = 0xd0"
| "to_underlying FC_int16 = 0xd1"
| "to_underlying FC_int32 = 0xd2"
| "to_underlying FC_int64 = 0xd3"
| "to_underlying FC_fixext1 = 0xd4"
| "to_underlying FC_fixext2 = 0xd5"
| "to_underlying FC_fixext4 = 0xd6"
| "to_underlying FC_fixext8 = 0xd7"
| "to_underlying FC_fixext16 = 0xd8"
| "to_underlying FC_str8 = 0xd9"
| "to_underlying FC_str16 = 0xda"
| "to_underlying FC_str32 = 0xdb"
| "to_underlying FC_array16 = 0xdc"
| "to_underlying FC_array32 = 0xdd"
| "to_underlying FC_map16 = 0xde"
| "to_underlying FC_map32 = 0xdf"

lemma to_underlying_inj [simp]: "to_underlying a = to_underlying b \<longleftrightarrow> a = b"
  by (cases a; cases b; simp)


subsection \<open>Integers as bytes\<close>

definition size_of :: "'a::len word itself \<Rightarrow> nat" where
  "size_of _ = LENGTH('a) div 8"

text \<open>The signed arithmetic of 64 bits: a result that does not fit is undefined behaviour.\<close>

definition in_int64 :: "int \<Rightarrow> bool" where
  "in_int64 x \<longleftrightarrow> - (2 ^ 63) \<le> x \<and> x < 2 ^ 63"

definition int64_result :: "int \<Rightarrow> int option" where
  "int64_result x = (if in_int64 x then Some x else None)"

definition memory_bytes :: "'a::len word \<Rightarrow> byte list" where
  "memory_bytes w = map (\<lambda>i. ucast (drop_bit (8 * i) w)) [0..<size_of TYPE('a word)]"

fun from_memory :: "byte list \<Rightarrow> 'a::len word" where
  "from_memory [] = 0"
| "from_memory (b # bs) = or (ucast b) (push_bit 8 (from_memory bs))"

definition byteswap :: "'a::len word \<Rightarrow> 'a word" where
  "byteswap w = from_memory (rev (memory_bytes w))"

definition to_big_endian :: "'a::len word \<Rightarrow> 'a word" where
  "to_big_endian w = byteswap w"

definition from_big_endian :: "'a::len word \<Rightarrow> 'a word" where
  "from_big_endian w = to_big_endian w"

definition big_endian :: "'a::len word \<Rightarrow> byte list" where
  "big_endian w = rev (memory_bytes w)"

lemma length_memory_bytes [simp]: "length (memory_bytes (w :: 'a::len word)) = size_of TYPE('a word)"
  by (simp add: memory_bytes_def)

lemma length_big_endian [simp]: "length (big_endian (w :: 'a::len word)) = size_of TYPE('a word)"
  by (simp add: big_endian_def)

lemma size_of_simps [simp]:
  "size_of TYPE(8 word) = 1" "size_of TYPE(16 word) = 2"
  "size_of TYPE(32 word) = 4" "size_of TYPE(64 word) = 8"
  by (simp_all add: size_of_def)

lemma bit_from_memory:
  "bit (from_memory bs :: 'a::len word) i \<longleftrightarrow>
     i < LENGTH('a) \<and> i div 8 < length bs \<and> bit (bs ! (i div 8)) (i mod 8)"
proof (induction bs arbitrary: i)
  case Nil
  then show ?case by simp
next
  case (Cons b bs)
  show ?case
  proof (cases "i < 8")
    case True
    then show ?thesis by (auto simp: bit_simps)
  next
    case False
    then have "i div 8 = Suc ((i - 8) div 8)" "i mod 8 = (i - 8) mod 8"
      by (simp_all add: div_if mod_if)
    with False show ?thesis using Cons.IH [of "i - 8"] bit_word.rep_eq
      by (auto simp: bit_simps dest: bit_imp_le_length)
  qed
qed

lemma bit_byte_bound: "bit (b :: byte) j \<Longrightarrow> j < 8"
  using bit_imp_le_length [of b j] by simp

lemma memory_from_memory:
  assumes "LENGTH('a::len) = 8 * length bs"
  shows "memory_bytes (from_memory bs :: 'a word) = bs"
proof (rule nth_equalityI)
  show "length (memory_bytes (from_memory bs :: 'a word)) = length bs"
    using assms by (simp add: size_of_def)
next
  fix i assume "i < length (memory_bytes (from_memory bs :: 'a word))"
  then have i: "i < length bs" using assms by (simp add: size_of_def)
  show "memory_bytes (from_memory bs :: 'a word) ! i = bs ! i"
  proof (rule bit_eqI)
    fix j assume "possible_bit TYPE(byte) j"
    then have j: "j < 8" by simp
    then have "(8 * i + j) div 8 = i" "(8 * i + j) mod 8 = j" "8 * i + j < 8 * length bs"
      using i by auto
    with i j assms show "bit (memory_bytes (from_memory bs :: 'a word) ! i) j = bit (bs ! i) j"
      by (simp add: memory_bytes_def size_of_def bit_simps bit_from_memory)
  qed
qed

lemma from_memory_bytes:
  assumes "8 dvd LENGTH('a::len)"
  shows "from_memory (memory_bytes w) = (w :: 'a word)"
proof (rule bit_eqI)
  fix i assume "possible_bit TYPE('a word) i"
  then have i: "i < LENGTH('a)" by simp
  then have "i div 8 < LENGTH('a) div 8" using assms by (auto simp: dvd_def)
  moreover have "8 * (i div 8) + i mod 8 = i" by simp
  ultimately show "bit (from_memory (memory_bytes w) :: 'a word) i = bit w i"
    using i by (simp add: bit_from_memory memory_bytes_def size_of_def bit_simps)
qed

lemma memory_big_endian:
  assumes "8 dvd LENGTH('a::len)"
  shows "memory_bytes (to_big_endian w :: 'a word) = big_endian w"
  using assms by (simp add: to_big_endian_def byteswap_def big_endian_def memory_from_memory size_of_def)

lemma from_big_endian_bytes:
  assumes "8 dvd LENGTH('a::len)"
  shows "from_big_endian (from_memory (big_endian w)) = (w :: 'a word)"
  using assms by (simp add: from_big_endian_def to_big_endian_def byteswap_def big_endian_def
      memory_from_memory size_of_def from_memory_bytes)

lemma byteswap_byteswap:
  assumes "8 dvd LENGTH('a::len)"
  shows "byteswap (byteswap w) = (w :: 'a word)"
  using from_big_endian_bytes [OF assms, of w]
  by (simp add: from_big_endian_def to_big_endian_def byteswap_def [of w] big_endian_def)

lemma big_endian_byte [simp]: "big_endian (w :: byte) = [w]"
  by (simp add: big_endian_def memory_bytes_def)



subsection \<open>Narrowing and widening\<close>

lemma unat_ucast_down: "unat (ucast (v::'a::len word) :: 'b::len word) = unat v mod 2 ^ LENGTH('b)"
  by (simp add: unsigned_ucast_eq take_bit_eq_mod)

lemma ucast_down_up:
  fixes v :: "'a::len word"
  assumes "unat v < 2 ^ LENGTH('b::len)"
  shows "ucast (ucast v :: 'b word) = v"
  using assms by (simp add: word_unat_eq_iff unat_ucast_down less_trans)

lemma sint_ucast_fits:
  fixes v :: "'a::len word"
  assumes "- (2 ^ (LENGTH('b::len) - 1)) \<le> sint v" "sint v < 2 ^ (LENGTH('b) - 1)" "LENGTH('b) \<le> LENGTH('a)"
  shows "sint (ucast v :: 'b word) = sint v"
proof -
  have "sint (ucast v :: 'b word) = signed_take_bit (LENGTH('b) - 1) (uint v)"
    by (simp add: signed_ucast_eq)
  also have "\<dots> = signed_take_bit (LENGTH('b) - 1) (sint v)"
    using assms(3) by (simp add: sint_uint signed_take_bit_signed_take_bit min_absorb1)
  also have "\<dots> = sint v" using assms by (simp add: signed_take_bit_int_eq_self)
  finally show ?thesis .
qed

lemma scast_of_sint: "sint (b :: 'b::len word) = sint (v::'a::len word) \<Longrightarrow> scast b = v"
  by (simp add: scast_eq)

lemma ucast_ucast_down:
  "LENGTH('b::len) \<ge> LENGTH('c::len) \<Longrightarrow> (ucast (ucast (v :: 'a::len word) :: 'b word) :: 'c word) = ucast v"
  by (rule bit_word_eqI) (auto simp: bit_ucast_iff)


lemma uint_of_sint:
  fixes v :: "'a::len word"
  shows "uint v = (if 0 \<le> sint v then sint v else sint v + 2 ^ LENGTH('a))"
proof -
  have v: "sint v = uint v - 2 ^ LENGTH('a) * of_bool (bit (uint v) (LENGTH('a) - 1))"
    by (simp add: sint_uint signed_take_bit_eq_take_bit_minus take_bit_int_eq_self)
  then have "sint v = uint v \<or> sint v = uint v - 2 ^ LENGTH('a)"
    by (cases "bit (uint v) (LENGTH('a) - 1)") simp_all
  moreover have "uint v < 2 ^ LENGTH('a)" "0 \<le> uint v" by (rule uint_bounded, rule uint_nonnegative)
  ultimately have "(0 \<le> sint v \<and> sint v = uint v) \<or> (sint v < 0 \<and> sint v = uint v - 2 ^ LENGTH('a))"
    by linarith
  then have "0 \<le> sint v \<longrightarrow> uint v = sint v" "\<not> 0 \<le> sint v \<longrightarrow> uint v = sint v + 2 ^ LENGTH('a)"
    by linarith+
  then show ?thesis by presburger
qed

end
