(* ===== verification/MsgpackPack.thy ===== *)
theory MsgpackPack
  imports MsgpackBytes "HOL-Library.Signed_Division"
begin

section \<open>MessagePack: the packer (\<open>msgpack23::Packer\<close>)\<close>

text \<open>
  A call of \<open>pack_type\<close> hands bytes to the output iterator one after the other and may
  end with an exception; \<open>emission\<close> is that sequence of bytes and the exception, if any.
  Each overload of \<open>pack_type\<close> is a function from the value to its emission; templates
  over other packable types take the function for the element type as an argument.
  \<open>back_insert\<close> and \<open>counting_insert\<close> are the two iterators the code uses: the one
  appends each byte to a vector, the other counts them. Signed integers are words read
  with \<open>sint\<close>, and a \<open>float\<close> or a \<open>double\<close> is the word of its bits, which is all the
  code looks at. A map is the list of its items in the order of iteration.
\<close>

type_synonym emission = "byte list \<times> fault option"

definition emit :: "byte list \<Rightarrow> emission" where
  "emit ds = (ds, None)"

definition throw :: "fault \<Rightarrow> emission" where
  "throw e = ([], Some e)"

definition seq_emit :: "emission \<Rightarrow> emission \<Rightarrow> emission" where
  "seq_emit a b =
     (case snd a of Some e \<Rightarrow> a | None \<Rightarrow> (fst a @ fst b, snd b))"

definition back_insert :: "byte list \<Rightarrow> emission \<Rightarrow> byte list" where
  "back_insert buffer e = buffer @ fst e"

fun counting_insert :: "nat \<Rightarrow> byte list \<Rightarrow> nat" where
  "counting_insert n [] = n"
| "counting_insert n (b # bs) = counting_insert (sz_add n 1) bs"

text \<open>
  \<open>operator()\<close>: the arguments in order, and so for a tuple, of which \<open>elems\<close> has the
  \<open>pack_type\<close> of each element.
\<close>

fun pack_args :: "emission list \<Rightarrow> emission" where
  "pack_args [] = emit []"
| "pack_args (e # es) = seq_emit e (pack_args es)"

definition pack_tuple :: "('t \<Rightarrow> emission) list \<Rightarrow> 't \<Rightarrow> emission" where
  "pack_tuple elems value = pack_args (map (\<lambda>pack_type. pack_type value) elems)"


subsection \<open>Constants, integers and headers\<close>

definition emplace_constant :: "FormatConstants \<Rightarrow> emission" where
  "emplace_constant c = emit [to_underlying c]"

definition emplace_integral :: "'a::len word \<Rightarrow> emission" where
  "emplace_integral v = emit (memory_bytes (to_big_endian v))"

definition emplace_combined :: "FormatConstants \<Rightarrow> 'a::len word \<Rightarrow> emission" where
  "emplace_combined c v = seq_emit (emplace_constant c) (emplace_integral v)"

definition uint8_max :: nat where "uint8_max = 2 ^ 8 - 1"
definition uint16_max :: nat where "uint16_max = 2 ^ 16 - 1"
definition uint32_max :: nat where "uint32_max = 2 ^ 32 - 1"

definition pack_map_header :: "nat \<Rightarrow> bool \<times> emission" where
  "pack_map_header n =
     (if n < 16 then (True, emit [or (of_nat n) 0b10000000])
      else if n < uint16_max then (True, emplace_combined FC_map16 (of_nat n :: 16 word))
      else if n < uint32_max then (True, emplace_combined FC_map32 (of_nat n :: 32 word))
      else (False, emit []))"

definition pack_array_header :: "nat \<Rightarrow> bool \<times> emission" where
  "pack_array_header n =
     (if n < 16 then (True, emit [or (of_nat n) 0b10010000])
      else if n < uint16_max then (True, emplace_combined FC_array16 (of_nat n :: 16 word))
      else if n < uint32_max then (True, emplace_combined FC_array32 (of_nat n :: 32 word))
      else (False, emit []))"


subsection \<open>Scalars\<close>

definition pack_int8 :: "8 word \<Rightarrow> emission" where
  "pack_int8 v =
     (if 31 < sint v \<or> sint v < -32
      then seq_emit (emplace_constant FC_int8) (emit [v]) else emit [v])"

definition pack_int16 :: "16 word \<Rightarrow> emission" where
  "pack_int16 v =
     (if - (2 ^ 7) < sint v \<and> sint v < 2 ^ 7 - 1 then pack_int8 (ucast v)
      else emplace_combined FC_int16 v)"

definition pack_int32 :: "32 word \<Rightarrow> emission" where
  "pack_int32 v =
     (if - (2 ^ 15) < sint v \<and> sint v < 2 ^ 15 - 1 then pack_int16 (ucast v)
      else emplace_combined FC_int32 v)"

definition pack_int64 :: "64 word \<Rightarrow> emission" where
  "pack_int64 v =
     (if - (2 ^ 31) < sint v \<and> sint v < 2 ^ 31 - 1 then pack_int32 (ucast v)
      else emplace_combined FC_int64 v)"

definition pack_uint8 :: "8 word \<Rightarrow> emission" where
  "pack_uint8 v =
     (if v < 0x80 then emit [v] else seq_emit (emplace_constant FC_uint8) (emit [v]))"

definition pack_uint16 :: "16 word \<Rightarrow> emission" where
  "pack_uint16 v =
     (if uint8_max < unat v then emplace_combined FC_uint16 v else pack_uint8 (ucast v))"

definition pack_uint32 :: "32 word \<Rightarrow> emission" where
  "pack_uint32 v =
     (if uint16_max < unat v then emplace_combined FC_uint32 v else pack_uint16 (ucast v))"

definition pack_uint64 :: "64 word \<Rightarrow> emission" where
  "pack_uint64 v =
     (if uint32_max < unat v then emplace_combined FC_uint64 v else pack_uint32 (ucast v))"

definition pack_nil :: "unit \<Rightarrow> emission" where
  "pack_nil v = emplace_constant FC_nil"

definition pack_bool :: "bool \<Rightarrow> emission" where
  "pack_bool v = (if v then emplace_constant FC_true_bool else emplace_constant FC_false_bool)"

definition pack_float :: "32 word \<Rightarrow> emission" where
  "pack_float v = emplace_combined FC_float32 v"

definition pack_double :: "64 word \<Rightarrow> emission" where
  "pack_double v = emplace_combined FC_float64 v"

definition pack_string :: "byte list \<Rightarrow> emission" where
  "pack_string s =
     seq_emit
       (if length s < 32 then emit [or (of_nat (length s)) 0b10100000]
        else if length s < uint8_max
        then seq_emit (emplace_constant FC_str8) (emit [of_nat (length s)])
        else if length s < uint16_max then emplace_combined FC_str16 (of_nat (length s) :: 16 word)
        else if length s < uint32_max then emplace_combined FC_str32 (of_nat (length s) :: 32 word)
        else throw Length_error)
       (emit s)"

definition pack_bin :: "byte list \<Rightarrow> emission" where
  "pack_bin s =
     seq_emit
       (if length s < uint8_max
        then seq_emit (emplace_constant FC_bin8) (emit [of_nat (length s)])
        else if length s < uint16_max then emplace_combined FC_bin16 (of_nat (length s) :: 16 word)
        else if length s < uint32_max then emplace_combined FC_bin32 (of_nat (length s) :: 32 word)
        else throw Length_error)
       (emit s)"


subsection \<open>Containers, pairs, enumerations, variants\<close>

fun pack_each :: "('v \<Rightarrow> emission) \<Rightarrow> 'v list \<Rightarrow> emission" where
  "pack_each p [] = emit []"
| "pack_each p (x # xs) = seq_emit (p x) (pack_each p xs)"

definition pack_pair :: "('a \<Rightarrow> emission) \<Rightarrow> ('b \<Rightarrow> emission) \<Rightarrow> 'a \<times> 'b \<Rightarrow> emission" where
  "pack_pair p q v = seq_emit (p (fst v)) (q (snd v))"

definition pack_collection :: "('v \<Rightarrow> emission) \<Rightarrow> 'v list \<Rightarrow> emission" where
  "pack_collection p vs =
     (case pack_array_header (length vs) of
        (ok, header) \<Rightarrow> if \<not> ok then seq_emit header (throw Length_error)
                        else seq_emit header (pack_each p vs))"

definition pack_map :: "('k \<Rightarrow> emission) \<Rightarrow> ('v \<Rightarrow> emission) \<Rightarrow> ('k \<times> 'v) list \<Rightarrow> emission" where
  "pack_map p q items =
     (case pack_map_header (length items) of
        (ok, header) \<Rightarrow> if \<not> ok then seq_emit header (throw Length_error)
                        else seq_emit header (pack_each (\<lambda>item. seq_emit (p (fst item)) (q (snd item))) items))"

definition pack_enum :: "('u \<Rightarrow> emission) \<Rightarrow> ('e \<Rightarrow> 'u) \<Rightarrow> 'e \<Rightarrow> emission" where
  "pack_enum p underlying v = p (underlying v)"

text \<open>
  A variant is the index of its alternative and the value; \<open>alts\<close> lists the packers of
  the alternatives. The first visit counts the bytes (an exception of the alternative
  ends the call before anything is emitted). The test \<open>index > 127\<close> is on an
  \<open>std::int8_t\<close>.
\<close>

definition pack_variant :: "('v \<Rightarrow> emission) list \<Rightarrow> nat \<times> 'v \<Rightarrow> emission" where
  "pack_variant alts v =
     (let arg = (alts ! fst v) (snd v);
          size = counting_insert 0 (fst arg);
          index = (of_nat (fst v) :: 8 word)
      in case snd arg of
           Some e \<Rightarrow> throw e
         | None \<Rightarrow>
             if 127 < sint index then throw Overflow_error
             else
               seq_emit
                 (if size = 1 then emplace_constant FC_fixext1
                  else if size = 2 then emplace_constant FC_fixext2
                  else if size = 4 then emplace_constant FC_fixext4
                  else if size = 8 then emplace_constant FC_fixext8
                  else if size = 16 then emplace_constant FC_fixext16
                  else if size < uint8_max then emplace_combined FC_ext8 (of_nat size :: 8 word)
                  else if size < uint16_max then emplace_combined FC_ext16 (of_nat size :: 16 word)
                  else if size < uint32_max then emplace_combined FC_ext32 (of_nat size :: 32 word)
                  else throw Length_error)
                 (seq_emit (emplace_integral index) arg))"


subsection \<open>Time points\<close>

text \<open>
  A time point of a clock with the period \<open>num / den\<close> seconds is its count of ticks. The
  division truncates towards zero, as in the code. \<open>None\<close> is undefined behaviour: a period
  coarser than a second divides by zero, and the products may overflow.
\<close>

definition nano_seconds_per_second :: int where "nano_seconds_per_second = 1000000000"
definition nano_seconds_mask :: "64 word" where "nano_seconds_mask = 0xFFFFFFFC00000000"

definition split_time :: "int \<Rightarrow> int \<Rightarrow> int \<Rightarrow> (int \<times> int) option" where
  "split_time num den count =
     (let nano_num = num * (nano_seconds_per_second sdiv den);
          per_tick = nano_seconds_per_second sdiv nano_num
      in if \<not> in_int64 nano_num \<or> per_tick = 0 \<or> \<not> in_int64 (count * num) then None
         else
           let nano_seconds = (count smod per_tick) * nano_num;
               (nano_seconds1, seconds) =
                 (if nano_seconds < 0 then (nano_seconds_per_second + nano_seconds, -1)
                  else (nano_seconds, 0))
           in Some (nano_seconds1, seconds + (count * num) sdiv den))"

definition pack_time :: "int \<Rightarrow> int \<Rightarrow> int \<Rightarrow> emission" where
  "pack_time num den count =
     (case split_time num den count of
        None \<Rightarrow> throw Undefined_behaviour
      | Some (nano_seconds, seconds) \<Rightarrow>
          if drop_bit 34 seconds = 0 then
            (let data64 = or (push_bit 34 (of_int nano_seconds)) (of_int seconds) :: 64 word
             in if and data64 nano_seconds_mask = 0 then
                  pack_args [emplace_constant FC_fixext4, emplace_integral (-1 :: 8 word),
                             emplace_integral (ucast data64 :: 32 word)]
                else
                  pack_args [emplace_constant FC_fixext8, emplace_integral (-1 :: 8 word),
                             emplace_integral data64])
          else
            pack_args [emplace_constant FC_ext8, emplace_integral (12 :: 8 word),
                       emplace_integral (-1 :: 8 word), emplace_integral (of_int nano_seconds :: 32 word),
                       emplace_integral (of_int seconds :: 64 word)])"

end
