(* ===== verification/MsgpackUnpack.thy ===== *)
theory MsgpackUnpack
  imports MsgpackBytes "HOL-Library.AList" "HOL-Library.Signed_Division"
begin

section \<open>MessagePack: the unpacker (\<open>msgpack23::Unpacker\<close>)\<close>

text \<open>
  An unpacker is a view of bytes and a position. Each overload of \<open>unpack_type\<close> is a
  function from the value it is given by reference and the unpacker to the value and the
  unpacker afterwards, or to the exception it ends with; templates over other types take
  the functions for these types and their default values as arguments.
\<close>

record unpacker =
  up_data :: "byte list"
  up_position :: nat

definition unpacker_of :: "byte list \<Rightarrow> unpacker" where
  "unpacker_of data = \<lparr>up_data = data, up_position = 0\<rparr>"

type_synonym 'v reader = "unpacker \<Rightarrow> ('v \<times> unpacker) result"
type_synonym 'v unpack_op = "'v \<Rightarrow> 'v reader"

definition up_return :: "'v \<Rightarrow> 'v reader" where
  "up_return v u = Inr (v, u)"

definition up_throw :: "fault \<Rightarrow> 'v reader" where
  "up_throw e u = Inl e"

definition up_bind :: "'a reader \<Rightarrow> ('a \<Rightarrow> 'b reader) \<Rightarrow> 'b reader" where
  "up_bind f k u = bind_result (f u) (\<lambda>(v, u1). k v u1)"


subsection \<open>Reading bytes and integers\<close>

definition current :: "byte reader" where
  "current u =
     (if up_position u < length (up_data u) then Inr (up_data u ! up_position u, u)
      else Inl Out_of_range)"

definition increment :: "nat \<Rightarrow> unit reader" where
  "increment count u =
     (if length (up_data u) < sz_add (up_position u) count then Inl Out_of_range
      else Inr ((), u\<lparr>up_position := sz_add (up_position u) count\<rparr>))"

definition check_constant :: "FormatConstants \<Rightarrow> bool reader" where
  "check_constant c = up_bind current (\<lambda>b. up_return (b = to_underlying c))"

definition read_integral :: "('t::len word) reader" where
  "read_integral u =
     (if length (up_data u) < sz_add (up_position u) (size_of TYPE('t word)) then Inl Out_of_range
      else
        bind_result (mem_load (up_data u) (up_position u) (size_of TYPE('t word))) (\<lambda>ds.
        bind_result (increment (size_of TYPE('t word)) u) (\<lambda>(_, u1).
          Inr (from_big_endian (from_memory ds), u1))))"

text \<open>\<open>read_conditional\<close>: \<open>Some\<close> is the return value \<open>true\<close> with \<open>out\<close> set.\<close>

definition read_conditional :: "FormatConstants \<Rightarrow> 't::len word itself \<Rightarrow> nat option reader" where
  "read_conditional c t =
     up_bind (check_constant c) (\<lambda>match.
       if match then
         up_bind (increment 1) (\<lambda>_.
         up_bind (read_integral :: 't word reader) (\<lambda>w. up_return (Some (unat w))))
       else up_return None)"

definition or_else :: "nat option reader \<Rightarrow> nat reader \<Rightarrow> nat reader" where
  "or_else f g = up_bind f (\<lambda>r. case r of Some n \<Rightarrow> up_return n | None \<Rightarrow> g)"

definition size_in_format :: "byte \<Rightarrow> nat reader" where
  "size_in_format m =
     up_bind current (\<lambda>b. up_bind (increment 1) (\<lambda>_. up_return (unat (and b m))))"

definition unpack_map_header :: "nat reader" where
  "unpack_map_header =
     or_else (read_conditional FC_map32 TYPE(32 word))
    (or_else (read_conditional FC_map16 TYPE(16 word))
       (size_in_format 0b00001111))"

definition unpack_array_header :: "nat reader" where
  "unpack_array_header =
     or_else (read_conditional FC_array32 TYPE(32 word))
    (or_else (read_conditional FC_array16 TYPE(16 word))
       (size_in_format 0b00001111))"


subsection \<open>Signed integers\<close>

definition take_current :: "byte reader" where
  "take_current = up_bind current (\<lambda>b. up_bind (increment 1) (\<lambda>_. up_return b))"

definition skip_then_read :: "('t::len word) reader" where
  "skip_then_read = up_bind (increment 1) (\<lambda>_. read_integral)"

definition unpack_int8 :: "8 word unpack_op" where
  "unpack_int8 value =
     up_bind current (\<lambda>c.
       if c = to_underlying FC_int8
       then up_bind (increment 1) (\<lambda>_. take_current)
       else take_current)"

definition unpack_int16 :: "16 word unpack_op" where
  "unpack_int16 value =
     up_bind current (\<lambda>c.
       if c = to_underlying FC_int16 then
         up_bind skip_then_read (\<lambda>tmp :: 16 word. up_return tmp)
       else if c = to_underlying FC_int8 then
         up_bind (unpack_int8 0) (\<lambda>val. up_return (scast val))
       else up_bind take_current (\<lambda>b. up_return (scast b)))"

definition unpack_int32 :: "32 word unpack_op" where
  "unpack_int32 value =
     up_bind current (\<lambda>c.
       if c = to_underlying FC_int32 then
         up_bind skip_then_read (\<lambda>tmp :: 32 word. up_return tmp)
       else if c = to_underlying FC_int16 then
         up_bind (unpack_int16 0) (\<lambda>val. up_return (scast val))
       else if c = to_underlying FC_int8 then
         up_bind (unpack_int8 0) (\<lambda>val. up_return (scast val))
       else up_bind take_current (\<lambda>b. up_return (ucast b)))"

definition unpack_int64 :: "64 word unpack_op" where
  "unpack_int64 value =
     up_bind current (\<lambda>c.
       if c = to_underlying FC_int64 then
         up_bind skip_then_read (\<lambda>tmp :: 64 word. up_return tmp)
       else if c = to_underlying FC_int32 then
         up_bind (unpack_int32 0) (\<lambda>val. up_return (scast val))
       else if c = to_underlying FC_int16 then
         up_bind (unpack_int16 0) (\<lambda>val. up_return (scast val))
       else if c = to_underlying FC_int8 then
         up_bind (unpack_int8 0) (\<lambda>val. up_return (scast val))
       else up_bind take_current (\<lambda>b. up_return (ucast b)))"


subsection \<open>Unsigned integers\<close>

definition unpack_uint8 :: "8 word unpack_op" where
  "unpack_uint8 value =
     up_bind current (\<lambda>c.
       if c = to_underlying FC_uint8
       then up_bind (increment 1) (\<lambda>_. take_current)
       else take_current)"

definition unpack_uint16 :: "16 word unpack_op" where
  "unpack_uint16 value =
     up_bind current (\<lambda>c.
       if c = to_underlying FC_uint16 then skip_then_read
       else if c = to_underlying FC_uint8
       then up_bind (increment 1) (\<lambda>_. up_bind take_current (\<lambda>b. up_return (ucast b)))
       else up_bind take_current (\<lambda>b. up_return (ucast b)))"

definition unpack_uint32 :: "32 word unpack_op" where
  "unpack_uint32 value =
     up_bind current (\<lambda>c.
       if c = to_underlying FC_uint32 then skip_then_read
       else if c = to_underlying FC_uint16 then
         up_bind skip_then_read (\<lambda>w :: 16 word. up_return (ucast w))
       else if c = to_underlying FC_uint8
       then up_bind (increment 1) (\<lambda>_. up_bind take_current (\<lambda>b. up_return (ucast b)))
       else up_bind take_current (\<lambda>b. up_return (ucast b)))"

definition unpack_uint64 :: "64 word unpack_op" where
  "unpack_uint64 value =
     up_bind current (\<lambda>c.
       if c = to_underlying FC_uint64 then skip_then_read
       else if c = to_underlying FC_uint32 then
         up_bind skip_then_read (\<lambda>w :: 32 word. up_return (ucast w))
       else if c = to_underlying FC_uint16 then
         up_bind skip_then_read (\<lambda>w :: 16 word. up_return (ucast w))
       else if c = to_underlying FC_uint8
       then up_bind (increment 1) (\<lambda>_. up_bind take_current (\<lambda>b. up_return (ucast b)))
       else up_bind take_current (\<lambda>b. up_return (ucast b)))"


subsection \<open>Other scalars\<close>

definition unpack_nil :: "unit unpack_op" where
  "unpack_nil value =
     up_bind current (\<lambda>c. if c = to_underlying FC_nil then increment 1 else up_throw Logic_error)"

definition unpack_bool :: "bool unpack_op" where
  "unpack_bool value =
     up_bind current (\<lambda>c.
       if c = to_underlying FC_false_bool \<or> c = to_underlying FC_true_bool then
         up_bind (check_constant FC_false_bool) (\<lambda>f.
         up_bind (increment 1) (\<lambda>_. up_return (\<not> f)))
       else up_throw Logic_error)"

definition unpack_float :: "32 word unpack_op" where
  "unpack_float value =
     up_bind current (\<lambda>c.
       if c = to_underlying FC_float32 then skip_then_read else up_throw Logic_error)"

definition unpack_double :: "64 word unpack_op" where
  "unpack_double value =
     up_bind current (\<lambda>c.
       if c = to_underlying FC_float64 then skip_then_read else up_throw Logic_error)"

text \<open>The bytes of a string or a binary: the check, the copy, the increment.\<close>

definition read_bytes :: "nat \<Rightarrow> byte list reader" where
  "read_bytes n u =
     (if length (up_data u) < sz_add (up_position u) n then Inl Out_of_range
      else
        bind_result (mem_load (up_data u) (up_position u) n) (\<lambda>ds.
        bind_result (increment n u) (\<lambda>(_, u1). Inr (ds, u1))))"

definition unpack_string :: "byte list unpack_op" where
  "unpack_string value =
     up_bind
       (or_else (read_conditional FC_str32 TYPE(32 word))
       (or_else (read_conditional FC_str16 TYPE(16 word))
       (or_else (read_conditional FC_str8 TYPE(8 word))
          (size_in_format 0b00011111))))
       read_bytes"

definition unpack_bin :: "byte list unpack_op" where
  "unpack_bin value =
     up_bind
       (or_else (read_conditional FC_bin32 TYPE(32 word))
       (or_else (read_conditional FC_bin16 TYPE(16 word))
       (or_else (read_conditional FC_bin8 TYPE(8 word))
          (up_throw Logic_error))))
       read_bytes"


subsection \<open>Containers, pairs, enumerations, variants\<close>

text \<open>
  The loops \<open>for (auto i = 0; i < size; ++i)\<close> count with an \<open>int\<close>: the increment of its
  largest value is undefined.
\<close>

definition int_max :: nat where "int_max = 2 ^ 31 - 1"

function unpack_loop :: "('s \<Rightarrow> 's reader) \<Rightarrow> nat \<Rightarrow> nat \<Rightarrow> 's \<Rightarrow> 's reader" where
  "unpack_loop step n i s u =
     (if i < n then
        bind_result (step s u) (\<lambda>(s1, u1).
          if i = int_max then Inl Undefined_behaviour else unpack_loop step n (i + 1) s1 u1)
      else Inr (s, u))"
  by pat_completeness auto
termination
  by (relation "measure (\<lambda>(step, n, i, s, u). n - i)") auto

declare unpack_loop.simps [simp del]

definition unpack_map :: "'k unpack_op \<Rightarrow> 'k \<Rightarrow> 'v unpack_op \<Rightarrow> 'v \<Rightarrow> ('k \<times> 'v) list unpack_op" where
  "unpack_map upk key0 upv val0 value =
     up_bind unpack_map_header (\<lambda>map_size.
       unpack_loop
         (\<lambda>m. up_bind (upk key0) (\<lambda>key. up_bind (upv val0) (\<lambda>val. up_return (AList.update key val m))))
         map_size 0 value)"

definition unpack_collection :: "'v unpack_op \<Rightarrow> 'v \<Rightarrow> 'v list unpack_op" where
  "unpack_collection up val0 value =
     up_bind unpack_array_header (\<lambda>array_size.
       unpack_loop (\<lambda>vs. up_bind (up val0) (\<lambda>val. up_return (vs @ [val]))) array_size 0 value)"

text \<open>A container without \<open>emplace_back\<close>, as \<open>std::array\<close>: the elements are copied over its own.\<close>

definition unpack_array :: "'v unpack_op \<Rightarrow> 'v \<Rightarrow> 'v list unpack_op" where
  "unpack_array up val0 value =
     up_bind (unpack_collection up val0 []) (\<lambda>vec u.
       bind_result (mem_store value 0 vec) (\<lambda>value1. Inr (value1, u)))"

definition unpack_enum :: "'u unpack_op \<Rightarrow> ('e \<Rightarrow> 'u) \<Rightarrow> ('u \<Rightarrow> 'e) \<Rightarrow> 'e unpack_op" where
  "unpack_enum up underlying of_underlying value =
     up_bind (up (underlying value)) (\<lambda>x. up_return (of_underlying x))"

definition unpack_pair :: "'a unpack_op \<Rightarrow> 'b unpack_op \<Rightarrow> ('a \<times> 'b) unpack_op" where
  "unpack_pair upa upb value =
     up_bind (upa (fst value)) (\<lambda>a. up_bind (upb (snd value)) (\<lambda>b. up_return (a, b)))"

text \<open>\<open>operator()\<close>, and the elements of a tuple: each step reads one component of \<open>'s\<close>.\<close>

fun unpack_args :: "('s \<Rightarrow> 's reader) list \<Rightarrow> 's \<Rightarrow> 's reader" where
  "unpack_args [] s = up_return s"
| "unpack_args (f # fs) s = up_bind (f s) (\<lambda>s1. unpack_args fs s1)"

definition unpack_tuple :: "('t \<Rightarrow> 't reader) list \<Rightarrow> 't unpack_op" where
  "unpack_tuple elems value = unpack_args elems value"

text \<open>The element of an object that \<open>get\<close> reads and \<open>put\<close> stores, passed by reference.\<close>

definition unpack_elem :: "('t \<Rightarrow> 'v) \<Rightarrow> ('v \<Rightarrow> 't \<Rightarrow> 't) \<Rightarrow> 'v unpack_op \<Rightarrow> 't \<Rightarrow> 't reader" where
  "unpack_elem get put up s = up_bind (up (get s)) (\<lambda>v. up_return (put v s))"

text \<open>
  A variant: \<open>alts\<close> has the unpacker and the default value of each alternative. The
  alternative is read from the bytes of the extension only.
\<close>

definition ext_size :: "nat reader" where
  "ext_size =
     up_bind current (\<lambda>c.
       if c = to_underlying FC_fixext1 then up_bind (increment 1) (\<lambda>_. up_return 1)
       else if c = to_underlying FC_fixext2 then up_bind (increment 1) (\<lambda>_. up_return 2)
       else if c = to_underlying FC_fixext4 then up_bind (increment 1) (\<lambda>_. up_return 4)
       else if c = to_underlying FC_fixext8 then up_bind (increment 1) (\<lambda>_. up_return 8)
       else if c = to_underlying FC_fixext16 then up_bind (increment 1) (\<lambda>_. up_return 16)
       else if c = to_underlying FC_ext8 then
         up_bind skip_then_read (\<lambda>w :: 8 word. up_return (unat w))
       else if c = to_underlying FC_ext16 then
         up_bind skip_then_read (\<lambda>w :: 16 word. up_return (unat w))
       else if c = to_underlying FC_ext32 then
         up_bind skip_then_read (\<lambda>w :: 32 word. up_return (unat w))
       else up_throw Logic_error)"

definition create_variant_by_index :: "('v unpack_op \<times> 'v) list \<Rightarrow> nat \<Rightarrow> (nat \<times> 'v) result" where
  "create_variant_by_index alts i =
     (if i < length alts then Inr (i, snd (alts ! i)) else Inl Logic_error)"

definition subspan :: "nat \<Rightarrow> byte list reader" where
  "subspan n u =
     bind_result (mem_load (up_data u) (up_position u) n) (\<lambda>ds. Inr (ds, u))"

definition unpack_variant :: "('v unpack_op \<times> 'v) list \<Rightarrow> (nat \<times> 'v) unpack_op" where
  "unpack_variant alts value =
     up_bind ext_size (\<lambda>size.
     up_bind read_integral (\<lambda>index :: 8 word.
       if sint index < 0 \<or> sint (of_nat (length alts - 1) :: 8 word) < sint index
       then up_throw Out_of_range
       else
         up_bind (subspan size) (\<lambda>data_start.
         up_bind (increment size) (\<lambda>_ u.
           bind_result (create_variant_by_index alts (unat index)) (\<lambda>(i, v0).
           bind_result (fst (alts ! i) v0 (unpacker_of data_start)) (\<lambda>(v, _).
             Inr ((i, v), u)))))))"


subsection \<open>Time points\<close>

text \<open>
  The ticks of a clock with the period \<open>num / den\<close> seconds, in lowest terms and counted in
  64 bits. \<open>duration_cast\<close> of nanoseconds multiplies by the numerator of the quotient of
  the periods and divides by its denominator; seconds convert by a multiplication (the code
  compiles for \<open>num = 1\<close> only). \<open>None\<close> is a product or a sum that overflows.
\<close>

definition nano_ticks :: "int \<Rightarrow> int \<Rightarrow> nat \<Rightarrow> int option" where
  "nano_ticks num den n =
     (let g = gcd den (num * 1000000000)
      in map_option (\<lambda>t. t sdiv (num * 1000000000 div g)) (int64_result (int n * (den div g))))"

definition second_ticks :: "int \<Rightarrow> int \<Rightarrow> int \<Rightarrow> int option" where
  "second_ticks num den s = map_option (\<lambda>t. t sdiv num) (int64_result (s * den))"

definition tick_sum :: "int option \<Rightarrow> int option \<Rightarrow> int option" where
  "tick_sum a b = Option.bind a (\<lambda>x. Option.bind b (\<lambda>y. int64_result (x + y)))"

definition time_code :: "'v reader \<Rightarrow> 'v reader" where
  "time_code f =
     up_bind current (\<lambda>b. if sint b = -1 then up_bind (increment 1) (\<lambda>_. f) else up_throw Logic_error)"

definition read_ticks :: "int \<Rightarrow> int \<Rightarrow> int option reader" where
  "read_ticks num den =
     up_bind current (\<lambda>c.
       if c = to_underlying FC_fixext4 then
         up_bind (increment 1) (\<lambda>_. time_code (
         up_bind read_integral (\<lambda>seconds :: 32 word.
           up_return (tick_sum (Some 0) (second_ticks num den (uint seconds))))))
       else if c = to_underlying FC_fixext8 then
         up_bind (increment 1) (\<lambda>_. time_code (
         up_bind read_integral (\<lambda>data64 :: 64 word.
           let nano_seconds = (ucast (drop_bit 34 data64) :: 32 word);
               seconds = and data64 0x00000003FFFFFFFF
           in up_return (tick_sum (nano_ticks num den (unat nano_seconds)) (second_ticks num den (uint seconds))))))
       else if c = to_underlying FC_ext8 then
         up_bind (increment 1) (\<lambda>_.
         up_bind read_integral (\<lambda>size :: 8 word. time_code (
         up_bind read_integral (\<lambda>nano_seconds :: 32 word.
         up_bind read_integral (\<lambda>seconds :: 64 word.
           up_return (tick_sum (nano_ticks num den (unat nano_seconds)) (second_ticks num den (sint seconds)))))))
         )
       else up_throw Logic_error)"

definition unpack_time :: "int \<Rightarrow> int \<Rightarrow> int unpack_op" where
  "unpack_time num den value =
     up_bind (read_ticks num den) (\<lambda>ticks.
       case ticks of Some tp \<Rightarrow> up_return tp | None \<Rightarrow> up_throw Undefined_behaviour)"

text \<open>The free function \<open>unpack\<close>: an object read from the front of the data.\<close>

definition unpack_object :: "'v unpack_op \<Rightarrow> 'v \<Rightarrow> byte list \<Rightarrow> 'v result" where
  "unpack_object up obj data =
     bind_result (up obj (unpacker_of data)) (\<lambda>(v, _). Inr v)"

end
