(* ===== verification/MsgpackSpec.thy ===== *)
theory MsgpackSpec
  imports MsgpackPack MsgpackUnpack
begin

section \<open>MessagePack: scalars that are packed are unpacked\<close>

text \<open>
  \<open>reads f w v\<close>: at the bytes \<open>w\<close>, whatever is around them, \<open>f\<close> returns \<open>v\<close> and moves
  behind them. \<open>carries e f v\<close>: the emission \<open>e\<close> ends without an exception and its
  bytes are read by \<open>f\<close> as \<open>v\<close>. This theory shows it of the scalar types, the
  strings and the binaries.
\<close>

definition reads :: "'v reader \<Rightarrow> byte list \<Rightarrow> 'v \<Rightarrow> bool" where
  "reads f w v \<longleftrightarrow>
     (\<forall>pre post. length (pre @ w @ post) < sz_modulus \<longrightarrow>
        f \<lparr>up_data = pre @ w @ post, up_position = length pre\<rparr> =
          Inr (v, \<lparr>up_data = pre @ w @ post, up_position = length pre + length w\<rparr>))"

definition carries :: "emission \<Rightarrow> 'v reader \<Rightarrow> 'v \<Rightarrow> bool" where
  "carries e f v \<longleftrightarrow> snd e = None \<and> reads f (fst e) v"

named_theorems reading "what the readers return on bytes in front of them"

lemma readsI:
  assumes "\<And>pre post. length (pre @ w @ post) < sz_modulus \<Longrightarrow>
     f \<lparr>up_data = pre @ w @ post, up_position = length pre\<rparr> =
       Inr (v, \<lparr>up_data = pre @ w @ post, up_position = length pre + length w\<rparr>)"
  shows "reads f w v"
  using assms by (simp add: reads_def)

lemma readsD:
  "reads f w v \<Longrightarrow> length (pre @ w @ post) < sz_modulus \<Longrightarrow>
     f \<lparr>up_data = pre @ w @ post, up_position = length pre\<rparr> =
       Inr (v, \<lparr>up_data = pre @ w @ post, up_position = length pre + length w\<rparr>)"
  by (simp add: reads_def)

lemma reads_return [reading]: "reads (up_return v) [] v"
  by (simp add: reads_def up_return_def)

lemma reads_bind:
  assumes "reads f w1 a" and "reads (k a) w2 b"
  shows "reads (up_bind f k) (w1 @ w2) b"
proof (rule readsI)
  fix pre post :: "byte list"
  assume len: "length (pre @ (w1 @ w2) @ post) < sz_modulus"
  then have "f \<lparr>up_data = pre @ w1 @ (w2 @ post), up_position = length pre\<rparr> =
      Inr (a, \<lparr>up_data = pre @ w1 @ (w2 @ post), up_position = length pre + length w1\<rparr>)"
    by (intro readsD [OF assms(1)]) simp
  moreover have "k a \<lparr>up_data = (pre @ w1) @ w2 @ post, up_position = length (pre @ w1)\<rparr> =
      Inr (b, \<lparr>up_data = (pre @ w1) @ w2 @ post, up_position = length (pre @ w1) + length w2\<rparr>)"
    using len by (intro readsD [OF assms(2)]) simp
  ultimately show "up_bind f k \<lparr>up_data = pre @ (w1 @ w2) @ post, up_position = length pre\<rparr> =
      Inr (b, \<lparr>up_data = pre @ (w1 @ w2) @ post, up_position = length pre + length (w1 @ w2)\<rparr>)"
    by (simp add: up_bind_def)
qed

lemma reads_last: "reads f w a \<Longrightarrow> reads (up_bind f (\<lambda>x. up_return (g x))) w (g a)"
  using reads_bind [OF _ reads_return, of f w a g] by simp

lemma reads_current [reading]:
  assumes "reads (k c) (c # w) v"
  shows "reads (up_bind current k) (c # w) v"
proof (rule readsI)
  fix pre post :: "byte list"
  assume "length (pre @ (c # w) @ post) < sz_modulus"
  from readsD [OF assms this]
  show "up_bind current k \<lparr>up_data = pre @ (c # w) @ post, up_position = length pre\<rparr> =
      Inr (v, \<lparr>up_data = pre @ (c # w) @ post, up_position = length pre + length (c # w)\<rparr>)"
    by (simp add: up_bind_def current_def)
qed

lemma reads_increment [reading]: "reads (increment 1) [c] ()"
  by (rule readsI) (simp add: increment_def sz_simps)

lemma reads_skip [reading]:
  assumes "reads (k ()) w v"
  shows "reads (up_bind (increment 1) k) (c # w) v"
  using reads_bind [OF reads_increment, of k w v c] assms by simp

lemmas reads_skip_Suc [reading] = reads_skip [simplified]

lemma reads_take_current [reading]: "reads take_current [b] b"
  unfolding take_current_def by (intro reading)

lemma reads_bytes: "reads (read_bytes (length s)) s s"
  by (rule readsI) (simp add: read_bytes_def increment_def sz_simps mem_load_ok)

lemma reads_integral:
  assumes "8 dvd LENGTH('t::len)"
  shows "reads read_integral (big_endian w) (w :: 't word)"
proof (rule readsI)
  fix pre post :: "byte list"
  assume "length (pre @ big_endian w @ post) < sz_modulus"
  then show "read_integral \<lparr>up_data = pre @ big_endian w @ post, up_position = length pre\<rparr> =
      Inr (w, \<lparr>up_data = pre @ big_endian w @ post, up_position = length pre + length (big_endian w)\<rparr>)"
    using assms by (simp add: read_integral_def increment_def sz_simps mem_load_ok from_big_endian_bytes)
qed

lemma reads_skip_integral:
  assumes "8 dvd LENGTH('t::len)"
  shows "reads skip_then_read (c # big_endian w) (w :: 't word)"
  unfolding skip_then_read_def using assms by (intro reads_skip reads_integral)

text \<open>The conditional reads: the constant in front decides.\<close>

lemma reads_check:
  assumes "reads (k (c = to_underlying fc)) (c # w) v"
  shows "reads (up_bind (check_constant fc) k) (c # w) v"
proof (rule readsI)
  fix pre post :: "byte list"
  assume "length (pre @ (c # w) @ post) < sz_modulus"
  from readsD [OF assms this]
  show "up_bind (check_constant fc) k \<lparr>up_data = pre @ (c # w) @ post, up_position = length pre\<rparr> =
      Inr (v, \<lparr>up_data = pre @ (c # w) @ post, up_position = length pre + length (c # w)\<rparr>)"
    by (simp add: up_bind_def check_constant_def current_def up_return_def)
qed

lemma up_bind_assoc: "up_bind (up_bind f g) h = up_bind f (\<lambda>x. up_bind (g x) h)"
  by (rule ext) (simp add: up_bind_def bind_result_assoc split_def)

lemma up_bind_return [simp]: "up_bind (up_return v) k = k v"
  by (rule ext) (simp add: up_bind_def up_return_def)

lemma reads_hit:
  assumes "8 dvd LENGTH('t::len)"
  shows "reads (or_else (read_conditional fc TYPE('t word)) g) (to_underlying fc # big_endian (w :: 't word)) (unat w)"
  unfolding or_else_def read_conditional_def up_bind_assoc
  by (rule reads_check)
     (simp del: One_nat_def add: up_bind_assoc reads_skip reads_last reads_integral assms)

lemma reads_miss:
  assumes "c \<noteq> to_underlying fc" and "reads g (c # w) v"
  shows "reads (or_else (read_conditional fc t) g) (c # w) v"
  unfolding or_else_def read_conditional_def up_bind_assoc
  using assms by (intro reads_check) simp

lemma reads_size: "reads (size_in_format m) [c] (unat (and c m))"
  unfolding size_in_format_def by (intro reading)



subsection \<open>Emissions\<close>

lemma emit_simps [simp]:
  "fst (emit w) = w" "snd (emit w) = None"
  "fst (throw e) = []" "snd (throw e) = Some e"
  by (simp_all add: emit_def throw_def)

lemma seq_emit_ok [simp]:
  "snd (seq_emit a b) = None \<longleftrightarrow> snd a = None \<and> snd b = None"
  "snd a = None \<Longrightarrow> fst (seq_emit a b) = fst a @ fst b"
  by (simp_all add: seq_emit_def split: option.splits)

lemma emplace_ok [simp]:
  "snd (emplace_constant c) = None" "fst (emplace_constant c) = [to_underlying c]"
  "snd (emplace_integral w) = None" "snd (emplace_combined c w) = None"
  by (simp_all add: emplace_constant_def emplace_integral_def emplace_combined_def)

lemma emplaced_bytes:
  fixes w :: "'t::len word"
  assumes "8 dvd LENGTH('t)"
  shows "fst (emplace_integral w) = big_endian w"
    and "fst (emplace_combined c w) = to_underlying c # big_endian w"
  using assms by (simp_all add: emplace_integral_def emplace_combined_def memory_big_endian)

lemma carries_emit: "reads f w v \<Longrightarrow> carries (emit w) f v"
  by (simp add: carries_def)

lemma carries_seq:
  assumes "carries p f a" and "carries q (k a) b"
  shows "carries (seq_emit p q) (up_bind f k) b"
  using assms by (auto simp: carries_def intro: reads_bind)

lemma carriesI: "snd e = None \<Longrightarrow> fst e = w \<Longrightarrow> reads f w v \<Longrightarrow> carries e f v"
  by (simp add: carries_def)


subsection \<open>Unsigned integers\<close>

text \<open>The bytes of an integer are those of the smallest format that holds its value.\<close>

lemma pack_uint8_bytes:
  "pack_uint8 v = emit (if unat v < 0x80 then [v] else [0xcc, v])"
  by (simp add: pack_uint8_def seq_emit_def emplace_constant_def emit_def word_less_nat_alt)

lemma emplace_combined_emit:
  "8 dvd LENGTH('t::len) \<Longrightarrow> emplace_combined c (w :: 't word) = emit (to_underlying c # big_endian w)"
  by (simp add: emplace_combined_def seq_emit_def emplace_constant_def emplace_integral_def emit_def
      memory_big_endian)

lemma pack_uint16_bytes:
  "pack_uint16 v = emit
     (if unat v < 0x80 then [ucast v] else if unat v \<le> 0xff then [0xcc, ucast v]
      else 0xcd # big_endian v)"
  by (auto simp: pack_uint16_def pack_uint8_bytes emplace_combined_emit uint8_max_def unat_ucast_down)

lemma pack_uint32_bytes:
  "pack_uint32 v = emit
     (if unat v < 0x80 then [ucast v] else if unat v \<le> 0xff then [0xcc, ucast v]
      else if unat v \<le> 0xffff then 0xcd # big_endian (ucast v :: 16 word)
      else 0xce # big_endian v)"
  by (auto simp: pack_uint32_def pack_uint16_bytes emplace_combined_emit uint16_max_def unat_ucast_down
      ucast_ucast_down)

lemma pack_uint64_bytes:
  "pack_uint64 v = emit
     (if unat v < 0x80 then [ucast v] else if unat v \<le> 0xff then [0xcc, ucast v]
      else if unat v \<le> 0xffff then 0xcd # big_endian (ucast v :: 16 word)
      else if unat v \<le> 0xffffffff then 0xce # big_endian (ucast v :: 32 word)
      else 0xcf # big_endian v)"
  by (auto simp: pack_uint64_def pack_uint32_bytes emplace_combined_emit uint32_max_def unat_ucast_down
      ucast_ucast_down)

text \<open>A positive fixint is no format constant.\<close>

lemma fixint_ne_nat:
  fixes v :: "'a::len word"
  assumes "unat v < 128" and "128 \<le> n" and "n < 256"
  shows "(ucast v :: byte) \<noteq> of_nat n"
proof
  assume "(ucast v :: byte) = of_nat n"
  then have "unat (ucast v :: byte) = unat (of_nat n :: byte)" by simp
  then have "unat v mod 256 = n mod 256" by (simp add: unat_ucast_down unat_of_nat)
  with assms show False by simp
qed

lemma fixint_ne [simp]:
  fixes v :: "'a::len word"
  assumes "unat v < 128" and "128 \<le> (numeral k :: nat)" and "numeral k < (256 :: nat)"
  shows "(ucast v :: byte) \<noteq> numeral k"
  using fixint_ne_nat [OF assms] by simp

lemmas fixint8_ne [simp] = fixint_ne [where ?'a = 8, unfolded ucast_id]

lemma reads_uconst [reading]:
  fixes w :: "'t::len word" and v :: "'a::len word"
  assumes "8 dvd LENGTH('t)" and "unat v < 2 ^ LENGTH('t)" and "w = ucast v"
  shows "reads (up_bind skip_then_read (\<lambda>w :: 't word. up_return (ucast w))) (c # big_endian w) v"
  using reads_last [OF reads_skip_integral [OF assms(1)], of "ucast :: 't word \<Rightarrow> 'a word" c w] assms(2,3)
  by (simp add: ucast_down_up)

lemma reads_ubyte [reading]:
  fixes v :: "'a::len word"
  assumes "unat v < 256" and "b = ucast v"
  shows "reads (up_bind take_current (\<lambda>b. up_return (ucast b))) [b] v"
  using reads_last [OF reads_take_current, of "ucast :: byte \<Rightarrow> 'a word" b] assms by (simp add: ucast_down_up)

lemma carries_uint8: "carries (pack_uint8 v) (unpack_uint8 v0) v"
  unfolding pack_uint8_bytes unpack_uint8_def
  by (auto intro!: carries_emit reading )

lemma carries_uint16: "carries (pack_uint16 v) (unpack_uint16 v0) v"
  unfolding pack_uint16_bytes unpack_uint16_def
  by (auto intro!: carries_emit reading reads_skip_integral
      simp: unat_ucast_down)

lemma carries_uint32: "carries (pack_uint32 v) (unpack_uint32 v0) v"
  unfolding pack_uint32_bytes unpack_uint32_def
  by (auto intro!: carries_emit reading reads_skip_integral
      simp: unat_ucast_down)

lemma carries_uint64: "carries (pack_uint64 v) (unpack_uint64 v0) v"
  unfolding pack_uint64_bytes unpack_uint64_def
  by (auto intro!: carries_emit reading reads_skip_integral
      simp: unat_ucast_down)



subsection \<open>Signed integers\<close>

lemma pack_int8_bytes:
  "pack_int8 v = emit (if -32 \<le> sint v \<and> sint v \<le> 31 then [v] else [0xd0, v])"
  by (auto simp: pack_int8_def seq_emit_def emplace_constant_def emit_def)

lemma pack_int16_bytes:
  "pack_int16 v = emit
     (if -32 \<le> sint v \<and> sint v \<le> 31 then [ucast v]
      else if -128 < sint v \<and> sint v < 127 then [0xd0, ucast v] else 0xd1 # big_endian v)"
  by (auto simp: pack_int16_def pack_int8_bytes emplace_combined_emit sint_ucast_fits)

lemma pack_int32_bytes:
  "pack_int32 v = emit
     (if -32 \<le> sint v \<and> sint v \<le> 31 then [ucast v]
      else if -128 < sint v \<and> sint v < 127 then [0xd0, ucast v]
      else if -32768 < sint v \<and> sint v < 32767 then 0xd1 # big_endian (ucast v :: 16 word)
      else 0xd2 # big_endian v)"
  by (auto simp: pack_int32_def pack_int16_bytes emplace_combined_emit sint_ucast_fits ucast_ucast_down)

lemma pack_int64_bytes:
  "pack_int64 v = emit
     (if -32 \<le> sint v \<and> sint v \<le> 31 then [ucast v]
      else if -128 < sint v \<and> sint v < 127 then [0xd0, ucast v]
      else if -32768 < sint v \<and> sint v < 32767 then 0xd1 # big_endian (ucast v :: 16 word)
      else if -2147483648 < sint v \<and> sint v < 2147483647 then 0xd2 # big_endian (ucast v :: 32 word)
      else 0xd3 # big_endian v)"
  by (auto simp: pack_int64_def pack_int32_bytes emplace_combined_emit sint_ucast_fits ucast_ucast_down)

lemma sfixint_ne:
  fixes v :: "'a::len word"
  assumes "-32 \<le> sint v" and "sint v \<le> 31" and "8 \<le> LENGTH('a)"
  shows "(ucast v :: byte) \<noteq> 208" "(ucast v :: byte) \<noteq> 209"
    "(ucast v :: byte) \<noteq> 210" "(ucast v :: byte) \<noteq> 211"
proof -
  have "sint (ucast v :: byte) = sint v" using assms by (intro sint_ucast_fits) auto
  with assms(1) show "(ucast v :: byte) \<noteq> 208" "(ucast v :: byte) \<noteq> 209"
    "(ucast v :: byte) \<noteq> 210" "(ucast v :: byte) \<noteq> 211"
    by auto
qed

lemmas sfixint8_ne = sfixint_ne [where ?'a = 8, unfolded ucast_id]

lemma reads_int8_long: "reads (unpack_int8 v0) [0xd0, b] b"
  unfolding unpack_int8_def by (auto intro!: reading)

lemma reads_int16_long: "reads (unpack_int16 v0) (0xd1 # big_endian w) w"
  unfolding unpack_int16_def
  using reads_last [OF reads_skip_integral [where 't = 16], of "\<lambda>w. w"] by (auto intro!: reads_current)

lemma reads_int32_long: "reads (unpack_int32 v0) (0xd2 # big_endian w) w"
  unfolding unpack_int32_def
  using reads_last [OF reads_skip_integral [where 't = 32], of "\<lambda>w. w"] by (auto intro!: reads_current)

lemma reads_int64_long: "reads (unpack_int64 v0) (0xd3 # big_endian w) w"
  unfolding unpack_int64_def
  using reads_last [OF reads_skip_integral [where 't = 64], of "\<lambda>w. w"] by (auto intro!: reads_current)

lemma reads_sext [reading]:
  fixes v :: "'a::len word" and b :: "'b::len word"
  assumes "reads f w b" and "sint b = sint v"
  shows "reads (up_bind f (\<lambda>b. up_return (scast b))) w v"
  using reads_last [OF assms(1), of "scast :: 'b word \<Rightarrow> 'a word"] scast_of_sint [OF assms(2)] by simp

lemma carries_int8: "carries (pack_int8 v) (unpack_int8 v0) v"
  unfolding pack_int8_bytes unpack_int8_def
  by (auto intro!: carries_emit reading simp: sfixint8_ne)

lemma carries_int16: "carries (pack_int16 v) (unpack_int16 v0) v"
proof -
  have "reads (unpack_int16 v0) [ucast v] v" if "-32 \<le> sint v" "sint v \<le> 31"
    using that unfolding unpack_int16_def
    by (auto intro!: reading simp: sfixint_ne sint_ucast_fits)
  moreover have "reads (unpack_int16 v0) [0xd0, ucast v] v" if "-128 < sint v" "sint v < 127"
    using that unfolding unpack_int16_def
    by (auto intro!: reading reads_int8_long simp: sint_ucast_fits)
  ultimately show ?thesis
    unfolding pack_int16_bytes by (auto intro!: carries_emit reads_int16_long)
qed

text \<open>
  The 32-bit and the 64-bit reader take a negative fixint for an unsigned byte, so the
  values from -32 to -1 come back as 224 to 255.
\<close>

lemma reads_fixint_unsigned:
  fixes v :: "'a::len word"
  assumes "-32 \<le> sint v" and "sint v \<le> 31" and "16 \<le> LENGTH('a)"
  shows "\<exists>x. reads (up_bind take_current (\<lambda>b. up_return (ucast b))) [ucast v] (x :: 'a word) \<and>
    sint x = (if 0 \<le> sint v then sint v else sint v + 256)"
proof -
  let ?b = "ucast v :: byte"
  have sint: "sint ?b = sint v" using assms by (intro sint_ucast_fits) auto
  then have "uint ?b = (if 0 \<le> sint v then sint v else sint v + 256)"
    using uint_of_sint [of ?b] by simp
  moreover have "sint (ucast ?b :: 'a word) = uint ?b"
  proof -
    have "(256 :: int) < 2 ^ (LENGTH('a) - 1)"
      using assms(3) power_increasing [of 15 "LENGTH('a) - 1" "2 :: int"] by simp
    moreover have "uint ?b < 256" using uint_bounded [of ?b] by simp
    ultimately have "uint ?b < 2 ^ (LENGTH('a) - 1)" by linarith
    moreover have "- (2 ^ (LENGTH('a) - 1)) \<le> uint ?b"
      using uint_nonnegative [of ?b] zero_le_power [of "2 :: int" "LENGTH('a) - 1"] by linarith
    ultimately have "signed_take_bit (LENGTH('a) - 1) (uint ?b) = uint ?b"
      by (intro signed_take_bit_int_eq_self)
    then show ?thesis by (simp add: signed_ucast_eq)
  qed
  ultimately have "sint (ucast ?b :: 'a word) = (if 0 \<le> sint v then sint v else sint v + 256)"
    by simp
  then show ?thesis
    using reads_last [OF reads_take_current, of "ucast :: byte \<Rightarrow> 'a word" ?b] by blast
qed

lemma word_sint_eqI: "sint v = sint w \<Longrightarrow> v = w"
  by (metis scast_eq scast_id)

lemma reads_fixint:
  fixes v :: "'a::len word"
  assumes "0 \<le> sint v" and "sint v \<le> 31" and "16 \<le> LENGTH('a)"
  shows "reads (up_bind take_current (\<lambda>b. up_return (ucast b))) [ucast v] v"
proof -
  obtain x :: "'a word" where "reads (up_bind take_current (\<lambda>b. up_return (ucast b))) [ucast v] x" "sint x = sint v"
    using reads_fixint_unsigned [of v] assms by auto
  then show ?thesis using word_sint_eqI [of x v] by simp
qed

lemma unpack_int32_fixint:
  "-32 \<le> sint v \<Longrightarrow> sint v \<le> 31 \<Longrightarrow>
     reads (up_bind take_current (\<lambda>b. up_return (ucast b))) [ucast v] x \<Longrightarrow>
     reads (unpack_int32 v0) [ucast (v :: 32 word)] x"
  unfolding unpack_int32_def by (auto intro!: reads_current simp: sfixint_ne)

lemma unpack_int64_fixint:
  "-32 \<le> sint v \<Longrightarrow> sint v \<le> 31 \<Longrightarrow>
     reads (up_bind take_current (\<lambda>b. up_return (ucast b))) [ucast v] x \<Longrightarrow>
     reads (unpack_int64 v0) [ucast (v :: 64 word)] x"
  unfolding unpack_int64_def by (auto intro!: reads_current simp: sfixint_ne)

definition negative_fixint :: "'a::len word \<Rightarrow> bool" where
  "negative_fixint v \<longleftrightarrow> -32 \<le> sint v \<and> sint v < 0"

lemma carries_int32:
  assumes "\<not> negative_fixint v"
  shows "carries (pack_int32 v) (unpack_int32 v0) v"
proof -
  have "reads (unpack_int32 v0) [ucast v] v" if "-32 \<le> sint v" "sint v \<le> 31"
    using that assms by (auto intro!: unpack_int32_fixint reads_fixint simp: negative_fixint_def)
  moreover have "reads (unpack_int32 v0) [0xd0, ucast v] v" if "-128 < sint v" "sint v < 127"
    using that unfolding unpack_int32_def
    by (auto intro!: reading reads_int8_long simp: sint_ucast_fits)
  moreover have "reads (unpack_int32 v0) (0xd1 # big_endian (ucast v :: 16 word)) v"
    if "-32768 < sint v" "sint v < 32767"
    using that unfolding unpack_int32_def
    by (auto intro!: reading reads_int16_long simp: sint_ucast_fits)
  ultimately show ?thesis
    unfolding pack_int32_bytes by (auto intro!: carries_emit reads_int32_long)
qed

lemma carries_int64:
  assumes "\<not> negative_fixint v"
  shows "carries (pack_int64 v) (unpack_int64 v0) v"
proof -
  have "reads (unpack_int64 v0) [ucast v] v" if "-32 \<le> sint v" "sint v \<le> 31"
    using that assms by (auto intro!: unpack_int64_fixint reads_fixint simp: negative_fixint_def)
  moreover have "reads (unpack_int64 v0) [0xd0, ucast v] v" if "-128 < sint v" "sint v < 127"
    using that unfolding unpack_int64_def
    by (auto intro!: reading reads_int8_long simp: sint_ucast_fits)
  moreover have "reads (unpack_int64 v0) (0xd1 # big_endian (ucast v :: 16 word)) v"
    if "-32768 < sint v" "sint v < 32767"
    using that unfolding unpack_int64_def
    by (auto intro!: reading reads_int16_long simp: sint_ucast_fits)
  moreover have "reads (unpack_int64 v0) (0xd2 # big_endian (ucast v :: 32 word)) v"
    if "-2147483648 < sint v" "sint v < 2147483647"
    using that unfolding unpack_int64_def
    by (auto intro!: reading reads_int32_long simp: sint_ucast_fits)
  ultimately show ?thesis
    unfolding pack_int64_bytes by (auto intro!: carries_emit reads_int64_long)
qed

text \<open>What the two readers make of a negative fixint.\<close>

lemma carries_negative_fixint32:
  assumes "negative_fixint v"
  shows "\<exists>x. carries (pack_int32 v) (unpack_int32 v0) x \<and> sint x = sint v + 256"
  using assms reads_fixint_unsigned [of v]
  by (auto simp: pack_int32_bytes negative_fixint_def intro!: carries_emit unpack_int32_fixint)

lemma carries_negative_fixint64:
  assumes "negative_fixint v"
  shows "\<exists>x. carries (pack_int64 v) (unpack_int64 v0) x \<and> sint x = sint v + 256"
  using assms reads_fixint_unsigned [of v]
  by (auto simp: pack_int64_bytes negative_fixint_def intro!: carries_emit unpack_int64_fixint)


subsection \<open>Nil, booleans, floating-point numbers\<close>

lemma carries_nil: "carries (pack_nil v) (unpack_nil v0) v"
  unfolding pack_nil_def unpack_nil_def emplace_constant_def
  by (auto intro!: carries_emit reads_current reads_increment [unfolded One_nat_def])

lemma carries_bool: "carries (pack_bool v) (unpack_bool v0) v"
  unfolding pack_bool_def unpack_bool_def emplace_constant_def
  by (auto intro!: carries_emit reads_current reads_check reads_skip_Suc reads_return)

lemma carries_float: "carries (pack_float v) (unpack_float v0) v"
  unfolding pack_float_def unpack_float_def
  by (auto intro!: carries_emit reads_current reads_skip_integral simp: emplace_combined_emit)

lemma carries_double: "carries (pack_double v) (unpack_double v0) v"
  unfolding pack_double_def unpack_double_def
  by (auto intro!: carries_emit reads_current reads_skip_integral simp: emplace_combined_emit)


subsection \<open>Headers with a length\<close>

lemma reads_length:
  assumes "8 dvd LENGTH('t::len)" and "n < 2 ^ LENGTH('t)"
  shows "reads (or_else (read_conditional fc TYPE('t word)) g) (to_underlying fc # big_endian (of_nat n :: 't word)) n"
  using reads_hit [OF assms(1), of fc g "of_nat n"] assms(2) by (simp add: unat_of_nat)

lemma reads_length8:
  "n < 256 \<Longrightarrow> reads (or_else (read_conditional fc TYPE(8 word)) g) [to_underlying fc, of_nat n] n"
  using reads_length [where 't = 8, of n fc g] by simp

text \<open>The length in a format byte: 4 bits of an array or a map, 5 bits of a string.\<close>

lemma less_32_cases:
  assumes "n < (32 :: nat)"
  shows "n \<in> {0, 1, 2, 3, 4, 5, 6, 7, 8, 9, 10, 11, 12, 13, 14, 15, 16, 17, 18, 19, 20, 21, 22, 23,
    24, 25, 26, 27, 28, 29, 30, 31}"
  using assms by (simp only: insert_iff empty_iff) presburger

lemma format_length4:
  assumes "n < 16"
  shows "unat (and (or (of_nat n) 0x80 :: byte) 0x0f) = n" "unat (and (or (of_nat n) 0x90 :: byte) 0x0f) = n"
    "or (of_nat n) 0x80 < (0xc0 :: byte)" "or (of_nat n) 0x90 < (0xc0 :: byte)"
  using assms less_32_cases [of n] by auto

lemma format_length5:
  assumes "n < 32"
  shows "unat (and (or (of_nat n) 0xa0 :: byte) 0x1f) = n" "or (of_nat n) 0xa0 < (0xc0 :: byte)"
  using less_32_cases [OF assms] by auto

lemma below_constants: "b < 0xc0 \<Longrightarrow> b \<noteq> to_underlying c"
  by (cases c) auto

lemma reads_size_at: "unat (and c m) = n \<Longrightarrow> reads (size_in_format m) [c] n"
  using reads_size [of m c] by simp

lemma carries_array_header:
  assumes "n < uint32_max"
  shows "fst (pack_array_header n) \<and> carries (snd (pack_array_header n)) unpack_array_header n"
  using assms unfolding pack_array_header_def unpack_array_header_def
  by (auto simp: emplace_combined_emit uint16_max_def uint32_max_def format_length4 below_constants
      simp del: to_underlying.simps
      intro!: carries_emit reads_miss reads_size_at reads_length)

lemma carries_map_header:
  assumes "n < uint32_max"
  shows "fst (pack_map_header n) \<and> carries (snd (pack_map_header n)) unpack_map_header n"
  using assms unfolding pack_map_header_def unpack_map_header_def
  by (auto simp: emplace_combined_emit uint16_max_def uint32_max_def format_length4 below_constants
      simp del: to_underlying.simps
      intro!: carries_emit reads_miss reads_size_at reads_length)

lemma seq_emit_emit [simp]: "seq_emit (emit a) (emit b) = emit (a @ b)"
  by (simp add: seq_emit_def emit_def)

lemma carries_string:
  assumes "length s < uint32_max"
  shows "carries (pack_string s) (unpack_string s0) s"
  unfolding pack_string_def unpack_string_def
  by (rule carries_seq [of _ _ "length s"]; use assms in
      \<open>auto simp: emplace_combined_emit emplace_constant_def uint8_max_def uint16_max_def uint32_max_def
        format_length5 below_constants simp del: to_underlying.simps
        intro!: carries_emit reads_miss reads_size_at reads_length reads_length8 reads_bytes\<close>)

lemma carries_bin:
  assumes "length s < uint32_max"
  shows "carries (pack_bin s) (unpack_bin s0) s"
  unfolding pack_bin_def unpack_bin_def
  by (rule carries_seq [of _ _ "length s"]; use assms in
      \<open>auto simp: emplace_combined_emit emplace_constant_def uint8_max_def uint16_max_def uint32_max_def
        simp del: to_underlying.simps
        intro!: carries_emit reads_miss reads_length reads_length8 reads_bytes\<close>)

lemma pack_too_long:
  "uint32_max \<le> length s \<Longrightarrow> pack_string s = throw Length_error"
  "uint32_max \<le> length s \<Longrightarrow> pack_bin s = throw Length_error"
  by (simp_all add: pack_string_def pack_bin_def uint8_max_def uint16_max_def uint32_max_def
      seq_emit_def throw_def)

end
