(* ===== verification/MsgpackTypes.thy ===== *)
theory MsgpackTypes
  imports MsgpackSpec
begin

section \<open>MessagePack: packable types\<close>

text \<open>
  The locale \<open>packable\<close> is the contract of a type with a \<open>pack_type\<close> and an
  \<open>unpack_type\<close>: a valid value is packed without an exception, and unpacking its bytes
  into the default value \<open>initial\<close> gives it back and stops behind them. In the locale,
  collections, enumerations and fixed arrays of a packable type are shown to be packable;
  \<open>packable_two\<close> does the same for pairs and maps. The scalar types are interpretations,
  and containers of them interpretations over these.
\<close>

locale packable =
  fixes pack :: "'v \<Rightarrow> emission" and unpack :: "'v unpack_op" and initial :: 'v
    and valid :: "'v \<Rightarrow> bool"
  assumes roundtrip: "valid v \<Longrightarrow> carries (pack v) (unpack initial) v"

text \<open>The loops over the elements.\<close>

lemma unpack_loop_unfold:
  "unpack_loop step n i s =
     (if i < n
      then up_bind (step s) (\<lambda>s1. if i = int_max then up_throw Undefined_behaviour else unpack_loop step n (i + 1) s1)
      else up_return s)"
proof (rule ext)
  fix u
  show "unpack_loop step n i s u =
     (if i < n
      then up_bind (step s) (\<lambda>s1. if i = int_max then up_throw Undefined_behaviour else unpack_loop step n (i + 1) s1)
      else up_return s) u"
    by (subst unpack_loop.simps)
       (auto simp: up_bind_def up_return_def up_throw_def intro!: arg_cong [where f = "bind_result (step s u)"])
qed

lemma carries_loop:
  assumes "\<And>x s. x \<in> set xs \<Longrightarrow> carries (p x) (step s) (upd x s)"
    and "i + length xs = n" and "n \<le> int_max"
  shows "carries (pack_each p xs) (unpack_loop step n i s) (fold upd xs s)"
  using assms(1,2)
proof (induction xs arbitrary: i s)
  case Nil
  then show ?case by (simp add: unpack_loop_unfold carries_emit reads_return)
next
  case (Cons x xs)
  have "carries (pack_each p xs) (unpack_loop step n (i + 1) (upd x s)) (fold upd xs (upd x s))"
    using Cons.prems by (intro Cons.IH) auto
  moreover have "carries (p x) (step s) (upd x s)" using Cons.prems by simp
  moreover have "i < n" "i \<noteq> int_max" using Cons.prems assms(3) by auto
  ultimately show ?case
    by (subst unpack_loop_unfold) (auto intro: carries_seq)
qed

lemma carries_collection_loop:
  assumes "\<And>x. x \<in> set xs \<Longrightarrow> carries (p x) (up v0) x" and "length xs \<le> int_max"
  shows "carries (pack_collection p xs) (unpack_collection up v0 acc) (acc @ xs)"
proof -
  let ?step = "\<lambda>vs. up_bind (up v0) (\<lambda>val. up_return (vs @ [val]))"
  have "carries (p x) (?step s) (s @ [x])" if "x \<in> set xs" for x s
    using assms(1) [OF that] by (auto simp: carries_def intro: reads_last)
  then have "carries (pack_each p xs) (unpack_loop ?step (length xs) 0 acc) (fold (\<lambda>x s. s @ [x]) xs acc)"
    using assms(2) by (intro carries_loop) auto
  moreover have "fold (\<lambda>x s. s @ [x]) xs acc = acc @ xs"
    by (induction xs arbitrary: acc) auto
  moreover have "length xs < uint32_max" using assms(2) by (simp add: int_max_def uint32_max_def)
  ultimately show ?thesis
    using carries_array_header [of "length xs"]
    by (auto simp: pack_collection_def unpack_collection_def split_def intro: carries_seq)
qed

lemma carries_map_loop:
  assumes "\<And>k v. (k, v) \<in> set items \<Longrightarrow> carries (p k) (upk k0) k \<and> carries (q v) (upv v0) v"
    and "length items \<le> int_max"
  shows "carries (pack_map p q items) (unpack_map upk k0 upv v0 acc)
    (fold (\<lambda>item m. AList.update (fst item) (snd item) m) items acc)"
proof -
  let ?step = "\<lambda>m. up_bind (upk k0) (\<lambda>key. up_bind (upv v0) (\<lambda>val. up_return (AList.update key val m)))"
  have "carries (seq_emit (p (fst item)) (q (snd item))) (?step s) (AList.update (fst item) (snd item) s)"
    if "item \<in> set items" for item s
    using assms(1) [of "fst item" "snd item"] that
    by (auto simp: carries_def intro!: reads_bind reads_last)
  then have "carries (pack_each (\<lambda>item. seq_emit (p (fst item)) (q (snd item))) items)
      (unpack_loop ?step (length items) 0 acc)
      (fold (\<lambda>item m. AList.update (fst item) (snd item) m) items acc)"
    using assms(2) by (intro carries_loop) auto
  moreover have "length items < uint32_max" using assms(2) by (simp add: int_max_def uint32_max_def)
  ultimately show ?thesis
    using carries_map_header [of "length items"]
    by (auto simp: pack_map_def unpack_map_def split_def intro: carries_seq)
qed

text \<open>Inserting the items of a map without its keys appends them.\<close>

lemma update_new: "k \<notin> fst ` set m \<Longrightarrow> AList.update k v m = m @ [(k, v)]"
  by (induction m) auto

lemma fold_update_new:
  "distinct (map fst (acc @ items)) \<Longrightarrow>
     fold (\<lambda>item m. AList.update (fst item) (snd item) m) items acc = acc @ items"
proof (induction items arbitrary: acc)
  case (Cons item items)
  then have "AList.update (fst item) (snd item) acc = acc @ [item]"
    by (subst update_new) auto
  then show ?case using Cons.IH [of "acc @ [item]"] Cons.prems by auto
qed simp


subsection \<open>Types over one packable type\<close>

context packable
begin

lemma collection_roundtrip:
  assumes "list_all valid vs" and "length vs \<le> int_max"
  shows "carries (pack_collection pack vs) (unpack_collection unpack initial acc) (acc @ vs)"
  using assms roundtrip by (intro carries_collection_loop) (auto simp: list_all_iff)

lemma array_roundtrip:
  assumes "list_all valid vs" and "length vs \<le> int_max" and "length value = length vs"
  shows "carries (pack_collection pack vs) (unpack_array unpack initial value) vs"
proof -
  have "reads (\<lambda>u. bind_result (mem_store value 0 vs) (\<lambda>value1. Inr (value1, u))) [] vs"
    using assms(3) by (intro readsI) (simp add: mem_store_ok)
  moreover have "reads (unpack_collection unpack initial []) (fst (pack_collection pack vs)) vs"
    and none: "snd (pack_collection pack vs) = None"
    using collection_roundtrip [OF assms(1,2), of "[]"] by (simp_all add: carries_def)
  ultimately have "reads (unpack_array unpack initial value) (fst (pack_collection pack vs) @ []) vs"
    unfolding unpack_array_def by (intro reads_bind)
  with none show ?thesis by (simp add: carries_def)
qed

lemma array_overflow:
  assumes "list_all valid vs" and "length vs \<le> int_max" and "length value < length vs"
    and "length (fst (pack_collection pack vs)) < sz_modulus"
  shows "unpack_object (unpack_array unpack initial) value (fst (pack_collection pack vs)) = Inl Undefined_behaviour"
proof -
  have "reads (unpack_collection unpack initial []) (fst (pack_collection pack vs)) vs"
    using collection_roundtrip [OF assms(1,2), of "[]"] by (simp add: carries_def)
  from readsD [OF this, of "[]" "[]"] show ?thesis
    using assms(3,4) by (simp add: unpack_object_def unpack_array_def up_bind_def unpacker_of_def mem_store_overflow)
qed

lemma enum_roundtrip:
  assumes "valid (underlying e)" and "of_underlying (underlying e) = e" and "underlying e0 = initial"
  shows "carries (pack_enum pack underlying e) (unpack_enum unpack underlying of_underlying e0) e"
  using roundtrip [OF assms(1)] reads_last [of "unpack initial" _ "underlying e" of_underlying] assms(2,3)
  by (auto simp: pack_enum_def unpack_enum_def carries_def)

lemma object_roundtrip:
  assumes "valid v" and "length (fst (pack v)) < sz_modulus"
  shows "unpack_object unpack initial (fst (pack v)) = Inr v"
  using readsD [of "unpack initial" "fst (pack v)" v "[]" "[]"] roundtrip [OF assms(1)] assms(2)
  by (simp add: carries_def unpack_object_def unpacker_of_def)

end


subsection \<open>Types over two packable types\<close>

locale packable_two =
  fst: packable p up a0 va + snd: packable q uq b0 vb
  for p :: "'a \<Rightarrow> emission" and up :: "'a unpack_op" and a0 :: 'a and va :: "'a \<Rightarrow> bool"
    and q :: "'b \<Rightarrow> emission" and uq :: "'b unpack_op" and b0 :: 'b and vb :: "'b \<Rightarrow> bool"

context packable_two
begin

lemma pair_roundtrip:
  assumes "va (fst v)" and "vb (snd v)"
  shows "carries (pack_pair p q v) (unpack_pair up uq (a0, b0)) v"
  using fst.roundtrip [OF assms(1)] snd.roundtrip [OF assms(2)]
    reads_last [of "uq b0" _ "snd v" "Pair (fst v)"]
  by (auto simp: pack_pair_def unpack_pair_def carries_def intro!: reads_bind)

lemma map_roundtrip:
  assumes "list_all (\<lambda>item. va (fst item) \<and> vb (snd item)) items" and "length items \<le> int_max"
    and "distinct (map fst items)"
  shows "carries (pack_map p q items) (unpack_map up a0 uq b0 []) items"
  using carries_map_loop [of items p up a0 q uq b0 "[]"] assms fst.roundtrip snd.roundtrip
    fold_update_new [of "[]" items]
  by (force simp: list_all_iff)

end

text \<open>A collection of a packable type is packable, and so are pairs and maps.\<close>

locale packable_list = elem: packable pack unpack initial valid
  for pack :: "'v \<Rightarrow> emission" and unpack :: "'v unpack_op" and initial :: 'v and valid :: "'v \<Rightarrow> bool"

sublocale packable_list \<subseteq> list: packable "pack_collection pack" "unpack_collection unpack initial" "[]"
    "\<lambda>vs. list_all valid vs \<and> length vs \<le> int_max"
  using elem.collection_roundtrip [where acc = "[]"] by unfold_locales auto

sublocale packable_two \<subseteq> pair: packable "pack_pair p q" "unpack_pair up uq" "(a0, b0)"
    "\<lambda>v. va (fst v) \<and> vb (snd v)"
  using pair_roundtrip by unfold_locales auto

sublocale packable_two \<subseteq> map: packable "pack_map p q" "unpack_map up a0 uq b0" "[]"
    "\<lambda>items. list_all (\<lambda>item. va (fst item) \<and> vb (snd item)) items \<and> length items \<le> int_max \<and>
       distinct (map fst items)"
  using map_roundtrip by unfold_locales auto


subsection \<open>The scalar types are packable\<close>

interpretation uint8: packable pack_uint8 unpack_uint8 0 "\<lambda>_. True"
  by unfold_locales (rule carries_uint8)

interpretation uint16: packable pack_uint16 unpack_uint16 0 "\<lambda>_. True"
  by unfold_locales (rule carries_uint16)

interpretation uint32: packable pack_uint32 unpack_uint32 0 "\<lambda>_. True"
  by unfold_locales (rule carries_uint32)

interpretation uint64: packable pack_uint64 unpack_uint64 0 "\<lambda>_. True"
  by unfold_locales (rule carries_uint64)

interpretation int8: packable pack_int8 unpack_int8 0 "\<lambda>_. True"
  by unfold_locales (rule carries_int8)

interpretation int16: packable pack_int16 unpack_int16 0 "\<lambda>_. True"
  by unfold_locales (rule carries_int16)

interpretation int32: packable pack_int32 unpack_int32 0 "\<lambda>v. \<not> negative_fixint v"
  by unfold_locales (rule carries_int32)

interpretation int64: packable pack_int64 unpack_int64 0 "\<lambda>v. \<not> negative_fixint v"
  by unfold_locales (rule carries_int64)

interpretation null: packable pack_nil unpack_nil "()" "\<lambda>_. True"
  by unfold_locales (rule carries_nil)

interpretation bool: packable pack_bool unpack_bool False "\<lambda>_. True"
  by unfold_locales (rule carries_bool)

interpretation float: packable pack_float unpack_float 0 "\<lambda>_. True"
  by unfold_locales (rule carries_float)

interpretation double: packable pack_double unpack_double 0 "\<lambda>_. True"
  by unfold_locales (rule carries_double)

interpretation str: packable pack_string unpack_string "[]" "\<lambda>s. length s < uint32_max"
  by unfold_locales (rule carries_string)

interpretation bin: packable pack_bin unpack_bin "[]" "\<lambda>s. length s < uint32_max"
  by unfold_locales (rule carries_bin)

text \<open>Two containers: lists of strings, and maps from strings to integers.\<close>

interpretation strings: packable_list pack_string unpack_string "[]" "\<lambda>s. length s < uint32_max"
  by unfold_locales

interpretation string_uint64: packable_two pack_string unpack_string "[]" "\<lambda>s. length s < uint32_max"
    pack_uint64 unpack_uint64 0 "\<lambda>_. True"
  by unfold_locales

end
