(* ===== verification/MsgpackExt.thy ===== *)
theory MsgpackExt
  imports MsgpackTypes
begin

section \<open>MessagePack: variants and time points\<close>

text \<open>
  The two extension formats. A variant is read back as long as its index fits the signed
  byte it is stored in, which the packer's test cannot tell. A time point is read back
  unless it is a whole second between \<open>2 ^ 32\<close> and \<open>2 ^ 34\<close>, which the packer writes in
  the 32-bit format, or so early that its seconds, rounded down, overflow the ticks.
\<close>

lemma counting_insert_length:
  "n + length bs < sz_modulus \<Longrightarrow> counting_insert n bs = n + length bs"
  by (induction bs arbitrary: n) (simp_all add: sz_simps)

lemma reads_subspan:
  assumes "reads (K w) [] v" and "n = length w"
  shows "reads (up_bind (subspan n) (\<lambda>ds. up_bind (increment n) (\<lambda>_. K ds))) w v"
proof (rule readsI)
  fix pre post :: "byte list"
  assume len: "length (pre @ w @ post) < sz_modulus"
  have "K w \<lparr>up_data = (pre @ w) @ [] @ post, up_position = length (pre @ w)\<rparr> =
      Inr (v, \<lparr>up_data = (pre @ w) @ [] @ post, up_position = length (pre @ w) + length ([] :: byte list)\<rparr>)"
    using len by (intro readsD [OF assms(1)]) simp
  then show "up_bind (subspan n) (\<lambda>ds. up_bind (increment n) (\<lambda>_. K ds))
      \<lparr>up_data = pre @ w @ post, up_position = length pre\<rparr> =
      Inr (v, \<lparr>up_data = pre @ w @ post, up_position = length pre + length w\<rparr>)"
    using len assms(2) by (simp add: up_bind_def subspan_def increment_def mem_load_ok sz_simps)
qed

text \<open>The header of an extension, as the packer writes it in front of a variant.\<close>

definition ext_header :: "nat \<Rightarrow> emission" where
  "ext_header n =
     (if n = 1 then emplace_constant FC_fixext1
      else if n = 2 then emplace_constant FC_fixext2
      else if n = 4 then emplace_constant FC_fixext4
      else if n = 8 then emplace_constant FC_fixext8
      else if n = 16 then emplace_constant FC_fixext16
      else if n < uint8_max then emplace_combined FC_ext8 (of_nat n :: 8 word)
      else if n < uint16_max then emplace_combined FC_ext16 (of_nat n :: 16 word)
      else if n < uint32_max then emplace_combined FC_ext32 (of_nat n :: 32 word)
      else throw Length_error)"

lemma reads_ext_long:
  fixes w :: "'t::len word"
  assumes "8 dvd LENGTH('t)" and "n < 2 ^ LENGTH('t)"
  shows "reads (up_bind skip_then_read (\<lambda>w :: 't word. up_return (unat w))) (c # big_endian (of_nat n :: 't word)) n"
  using reads_last [OF reads_skip_integral [OF assms(1)], of unat c "of_nat n"] assms(2)
  by (simp add: unat_of_nat)

lemma carries_ext_header:
  assumes "n < uint32_max"
  shows "carries (ext_header n) ext_size n"
  using assms reads_ext_long [where 't = 8, of n]
  unfolding ext_header_def ext_size_def
  by (auto simp: emplace_combined_emit emplace_constant_def uint8_max_def uint16_max_def uint32_max_def
      intro!: carries_emit reads_current reads_skip_Suc reads_return reads_ext_long)

lemma pack_variant_eq:
  assumes "snd ((packs ! i) x) = None" and "length (fst ((packs ! i) x)) < sz_modulus"
  shows "pack_variant packs (i, x) =
    seq_emit (ext_header (length (fst ((packs ! i) x))))
      (seq_emit (emplace_integral (of_nat i :: 8 word)) ((packs ! i) x))"
proof -
  have "sint (of_nat i :: 8 word) \<le> 127"
    using sint_lt [of "of_nat i :: 8 word"] by simp
  then show ?thesis
    using assms counting_insert_length [of 0 "fst ((packs ! i) x)"]
    by (simp add: pack_variant_def ext_header_def Let_def)
qed

lemma reads_byte_integral: "reads read_integral [b] (b :: 8 word)"
  using reads_integral [where 't = 8, of b] by simp

lemma sint_small_index: "i < 128 \<Longrightarrow> sint (of_nat i :: 8 word) = int i"
  by (simp add: signed_of_nat signed_take_bit_int_eq_self)

lemma carries_variant:
  assumes "i < length alts" and "length alts \<le> 128"
    and "carries ((packs ! i) x) (fst (alts ! i) (snd (alts ! i))) x"
    and "length (fst ((packs ! i) x)) < uint32_max"
  shows "carries (pack_variant packs (i, x)) (unpack_variant alts v0) (i, x)"
proof -
  let ?w = "fst ((packs ! i) x)"
  let ?index = "of_nat i :: 8 word"
  have w: "length ?w < sz_modulus" using assms(4) by (simp add: uint32_max_def sz_modulus_def)
  have none: "snd ((packs ! i) x) = None"
    and rd: "reads (fst (alts ! i) (snd (alts ! i))) ?w x"
    using assms(3) by (simp_all add: carries_def)
  have index: "sint ?index = int i" "unat ?index = i"
    "sint (of_nat (length alts - 1) :: 8 word) = int (length alts - 1)"
    using assms(1,2) sint_small_index [of i] sint_small_index [of "length alts - 1"]
    by (simp_all add: unat_of_nat)
  let ?K = "\<lambda>data_start u. bind_result (create_variant_by_index alts i) (\<lambda>(i, v0).
      bind_result (fst (alts ! i) v0 (unpacker_of data_start)) (\<lambda>(v, _). Inr ((i, v), u)))"
  have "fst (alts ! i) (snd (alts ! i)) (unpacker_of ?w) = Inr (x, \<lparr>up_data = ?w, up_position = length ?w\<rparr>)"
    using readsD [OF rd, of "[]" "[]"] w by (simp add: unpacker_of_def)
  then have "reads (?K ?w) [] (i, x)"
    using assms(1) by (intro readsI) (simp add: create_variant_by_index_def)
  then have "reads (up_bind (subspan (length ?w)) (\<lambda>ds. up_bind (increment (length ?w)) (\<lambda>_. ?K ds))) ?w (i, x)"
    using reads_subspan [of ?K ?w "(i, x)" "length ?w"] by simp
  then have "carries ((packs ! i) x)
      (up_bind (subspan (length ?w)) (\<lambda>ds. up_bind (increment (length ?w)) (\<lambda>_. ?K ds))) (i, x)"
    using none by (simp add: carries_def)
  moreover have "carries (emplace_integral ?index) read_integral ?index"
    by (simp add: carries_def emplaced_bytes reads_byte_integral)
  ultimately show ?thesis
    using assms(1) carries_ext_header [OF assms(4)] index
    unfolding pack_variant_eq [OF none w] unpack_variant_def
    by (auto intro!: carries_seq)
qed

text \<open>An alternative from 128 on: packed without an exception, refused by the unpacker.\<close>

lemma sint_large_index: "128 \<le> i \<Longrightarrow> i < 256 \<Longrightarrow> sint (of_nat i :: 8 word) < 0"
  using uint_of_sint [of "of_nat i :: 8 word"] sint_lt [of "of_nat i :: 8 word"]
  by (auto simp: uint_nat unat_of_nat split: if_splits)



lemma variant_index_refused:
  assumes "128 \<le> i" and "i < 256" and "carries ((packs ! i) x) f x"
    and "length (fst ((packs ! i) x)) + 6 < uint32_max"
  shows "snd (pack_variant packs (i, x)) = None \<and>
    unpack_variant alts v0 (unpacker_of (fst (pack_variant packs (i, x)))) = Inl Out_of_range"
proof -
  let ?w = "fst ((packs ! i) x)"
  let ?h = "fst (ext_header (length ?w))"
  let ?index = "of_nat i :: 8 word"
  have none: "snd ((packs ! i) x) = None" using assms(3) by (simp add: carries_def)
  have w: "length ?w < sz_modulus" "length ?w < uint32_max"
    using assms(4) by (simp_all add: uint32_max_def sz_modulus_def)
  have h: "carries (ext_header (length ?w)) ext_size (length ?w)" using w(2) by (rule carries_ext_header)
  have bytes: "fst (pack_variant packs (i, x)) = [] @ ?h @ [?index] @ ?w"
    using h none w(1) by (simp add: pack_variant_eq carries_def emplaced_bytes)
  have "length ?h \<le> 5"
    by (simp add: ext_header_def emplaced_bytes)
  then have len: "length ([] @ ?h @ [?index] @ ?w) < sz_modulus"
    using assms(4) by (simp add: uint32_max_def sz_modulus_def)
  have "ext_size \<lparr>up_data = [] @ ?h @ ([?index] @ ?w), up_position = 0\<rparr> =
      Inr (length ?w, \<lparr>up_data = [] @ ?h @ ([?index] @ ?w), up_position = length ?h\<rparr>)"
    using readsD [of ext_size ?h "length ?w" "[]" "[?index] @ ?w"] h len by (simp add: carries_def)
  moreover have "read_integral \<lparr>up_data = ?h @ [?index] @ ?w, up_position = length ?h\<rparr> =
      Inr (?index, \<lparr>up_data = ?h @ [?index] @ ?w, up_position = length ?h + 1\<rparr>)"
    using readsD [OF reads_byte_integral, of ?h ?index ?w] len by simp
  ultimately have "unpack_variant alts v0 (unpacker_of (fst (pack_variant packs (i, x)))) = Inl Out_of_range"
    using sint_large_index [OF assms(1,2)]
    by (simp add: bytes unpacker_of_def unpack_variant_def up_bind_def up_throw_def)
  moreover have "snd (pack_variant packs (i, x)) = None"
    using h none w(1) by (simp add: pack_variant_eq carries_def)
  ultimately show ?thesis by blast
qed


subsection \<open>Time points\<close>

lemma truncated_division:
  fixes c d :: int
  assumes "0 < d"
  shows "c sdiv d = (if 0 \<le> c then c div d else - ((- c) div d))"
    and "c smod d = (if 0 \<le> c then c mod d else - ((- c) mod d))"
  using assms by (auto simp: signed_divide_int_def signed_modulo_int_def sgn_if)

lemma div_of_product: "(m :: int) = d * n \<Longrightarrow> 0 < d \<Longrightarrow> m div d = n"
  by simp

text \<open>The code's quotient and remainder are those of the division that rounds down.\<close>

lemma split_time_floor:
  assumes "0 < d" and "d dvd 1000000000" and "in_int64 c"
  shows "split_time 1 d c = Some ((c mod d) * (1000000000 div d), c div d)"
proof -
  obtain n where n: "1000000000 = d * n" using assms(2) by (auto simp: dvd_def)
  then have npos: "0 < n" using assms(1) zero_less_mult_pos [of d n] by simp
  have nn: "1000000000 div d = n" by (rule div_of_product [OF n assms(1)])
  have nd: "1000000000 div n = d" using n by (intro div_of_product [OF _ npos]) (simp add: mult.commute)
  have q: "nano_seconds_per_second sdiv d = n" "nano_seconds_per_second sdiv n = d"
    using nn nd npos assms(1) by (simp_all add: nano_seconds_per_second_def truncated_division)
  have small: "in_int64 n"
    using n npos assms(1) mult_right_mono [of 1 d n] by (auto simp: in_int64_def)
  have "split_time 1 d c =
      (let r = (c smod d) * n in Some (if r < 0 then d * n + r else r, (if r < 0 then -1 else 0) + c sdiv d))"
    using q assms(1,3) n small by (simp add: split_time_def Let_def nano_seconds_per_second_def)
  also have "\<dots> = Some ((c mod d) * n, c div d)"
  proof (cases "0 \<le> c")
    case True
    moreover have "\<not> c mod d < 0" using assms(1) by (simp add: not_less)
    ultimately show ?thesis using npos assms(1) by (simp add: truncated_division mult_less_0_iff Let_def)
  next
    case False
    have neg: "(- c) mod d \<ge> 0" using assms(1) by simp
    show ?thesis
    proof (cases "(- c) mod d = 0")
      case True
      moreover have "c mod d < d" using assms(1) by simp
      ultimately have m: "c mod d = 0" by (auto simp: zmod_zminus1_eq_if simp del: mod_0_imp_dvd split: if_splits)
      then have "c div d = - ((- c) div d)" using assms(1) by (simp add: zdiv_zminus1_eq_if)
      with m show ?thesis using False True assms(1) by (simp add: truncated_division)
    next
      case nz: False
      then have "c mod d \<noteq> 0" by (simp add: zmod_zminus1_eq_if split: if_splits)
      then have md: "(- c) mod d = d - c mod d" "(- c) div d = - (c div d) - 1"
        using assms(1) by (simp_all add: zmod_zminus1_eq_if zdiv_zminus1_eq_if)
      have "c mod d < d" using assms(1) by simp
      then have "(c mod d - d) * n < 0" using npos by (simp add: mult_less_0_iff)
      moreover have "c smod d = c mod d - d" "c sdiv d = c div d + 1"
        using False assms(1) md by (simp_all add: truncated_division)
      moreover have "d * n + (c mod d - d) * n = (c mod d) * n" by (simp add: left_diff_distrib)
      ultimately show ?thesis by (simp add: Let_def)
    qed
  qed
  finally show ?thesis using nn by simp
qed

text \<open>Seconds and nanoseconds that \<open>split_time\<close> returns for a 64-bit count.\<close>

lemma split_time_bounds:
  fixes c d :: int
  assumes "0 < d" and "d dvd 1000000000" and "- (2 ^ 63) \<le> c" and "c < 2 ^ 63"
  shows "0 \<le> (c mod d) * (1000000000 div d)" and "(c mod d) * (1000000000 div d) < 1000000000"
    and "- (2 ^ 63) \<le> c div d" and "c div d < 2 ^ 63"
    and "nano_ticks 1 d (nat ((c mod d) * (1000000000 div d))) = Some (c mod d)"
    and "(c mod d) * (1000000000 div d) = 0 \<longleftrightarrow> c mod d = 0"
proof -
  obtain n where n: "1000000000 = d * n" using assms(2) by (auto simp: dvd_def)
  then have npos: "0 < n" using assms(1) zero_less_mult_pos [of d n] by simp
  have nn: "1000000000 div d = n"
    using div_of_product [OF n] assms(1) by simp
  have r: "0 \<le> c mod d" "c mod d < d" using assms(1) by simp_all
  then show "0 \<le> (c mod d) * (1000000000 div d)" using npos nn by simp
  show "(c mod d) * (1000000000 div d) < 1000000000"
  proof -
    have "(c mod d) * n < d * n" using r npos by (intro mult_strict_right_mono)
    then show ?thesis unfolding nn using n by linarith
  qed
  show "(c mod d) * (1000000000 div d) = 0 \<longleftrightarrow> c mod d = 0" using nn npos by simp
  have "- (2 ^ 63) * d \<le> - (2 ^ 63)" using assms(1) by simp
  then have "(- (2 ^ 63) * d) div d \<le> c div d"
    using assms(1,3) by (intro zdiv_mono1) linarith+
  moreover have "(- (2 ^ 63) * d) div d = - (2 ^ 63)"
    using assms(1) by (intro nonzero_mult_div_cancel_right) simp
  ultimately show "- (2 ^ 63) \<le> c div d" by linarith
  show "c div d < 2 ^ 63"
  proof (cases "0 \<le> c")
    case True
    then have "c div d \<le> c" using assms(1) zdiv_mono2 [of c 1 d] by simp
    then show ?thesis using assms(4) by simp
  next
    case False
    then have "c div d < 0" using assms(1) by (simp add: div_neg_pos_less0)
    then show ?thesis by simp
  qed
  have g: "gcd d (1 * 1000000000) = d" using assms(1,2) by (simp add: gcd_proj1_iff)
  have "(c mod d) * n < d * n" using r npos by (intro mult_strict_right_mono)
  then have "(c mod d) * n < 1000000000" using n by linarith
  moreover have nonneg: "0 \<le> (c mod d) * n" using r npos by simp
  ultimately have "in_int64 ((c mod d) * n)" by (simp add: in_int64_def)
  moreover have "((c mod d) * n) div n = c mod d" using npos by simp
  moreover have "0 \<le> (c mod d) * n" using r npos by simp
  ultimately show "nano_ticks 1 d (nat ((c mod d) * (1000000000 div d))) = Some (c mod d)"
    using npos assms(1) unfolding nano_ticks_def g nn
    by (simp add: Let_def int64_result_def nn truncated_division)
qed

text \<open>The 64-bit format: 30 bits of nanoseconds over 34 bits of seconds.\<close>

lemma bit_bounded: "0 \<le> s \<Longrightarrow> s < 2 ^ n \<Longrightarrow> bit (s :: int) i \<Longrightarrow> i < n"
  by (metis bit_take_bit_iff take_bit_int_eq_self)

lemma data64_parts:
  fixes N s :: int
  assumes "0 \<le> N" and "N < 2 ^ 30" and "0 \<le> s" and "s < 2 ^ 34"
  defines "data64 \<equiv> or (push_bit 34 (of_int N)) (of_int s) :: 64 word"
  shows "drop_bit 34 data64 = of_int N" and "take_bit 34 data64 = of_int s"
proof -
  show "drop_bit 34 data64 = of_int N"
    by (rule bit_word_eqI)
       (use bit_bounded [OF assms(1,2)] bit_bounded [OF assms(3,4)] in
         \<open>auto simp: data64_def bit_simps dest!: bit_bounded [OF assms(3,4)]\<close>)
  show "take_bit 34 data64 = of_int s"
    by (rule bit_word_eqI)
       (use bit_bounded [OF assms(3,4)] in \<open>auto simp: data64_def bit_simps\<close>)
qed

lemma mask_34: "(0x00000003FFFFFFFF :: 64 word) = mask 34"
  by (simp add: mask_eq_exp_minus_1)

lemma nano_mask_iff: "and w nano_seconds_mask = 0 \<longleftrightarrow> drop_bit 34 w = 0"
proof -
  have m: "nano_seconds_mask = push_bit 34 (mask 30)"
    by (simp add: nano_seconds_mask_def mask_eq_exp_minus_1 push_bit_eq_mult)
  have "and w nano_seconds_mask = push_bit 34 (drop_bit 34 w)"
    unfolding m by (auto intro!: bit_word_eqI simp: bit_simps dest: bit_imp_le_length)
  moreover have "push_bit 34 (drop_bit 34 w) = 0 \<longleftrightarrow> drop_bit 34 w = 0"
  proof
    assume "push_bit 34 (drop_bit 34 w) = 0"
    then have "drop_bit 34 (push_bit 34 (drop_bit 34 w)) = 0" by simp
    moreover have "drop_bit 34 (push_bit 34 (drop_bit 34 w)) = drop_bit 34 w"
    proof (rule bit_word_eqI)
      show "bit (drop_bit 34 (push_bit 34 (drop_bit 34 w))) n = bit (drop_bit 34 w) n" for n
        using bit_imp_le_length [of w "34 + n"] by (auto simp: bit_simps)
    qed
    ultimately show "drop_bit 34 w = 0" by simp
  qed simp
  ultimately show ?thesis by simp
qed


lemma reads_time_code:
  assumes "reads f w v"
  shows "reads (time_code f) ((-1 :: byte) # w) v"
  unfolding time_code_def using assms by (auto intro!: reads_current reads_skip_Suc)

text \<open>The three formats, read back.\<close>

lemma reads_time32:
  "reads (read_ticks num den) (to_underlying FC_fixext4 # (-1) # big_endian (s :: 32 word))
     (tick_sum (Some 0) (second_ticks num den (uint s)))"
  unfolding read_ticks_def
  by (auto intro!: reads_current reads_skip_Suc reads_time_code reads_last reads_integral)

lemma reads_time64:
  "reads (read_ticks num den) (to_underlying FC_fixext8 # (-1) # big_endian (w :: 64 word))
     (tick_sum (nano_ticks num den (unat (ucast (drop_bit 34 w) :: 32 word)))
       (second_ticks num den (uint (take_bit 34 w))))"
  unfolding read_ticks_def mask_34 Let_def take_bit_eq_mask
  by (auto intro!: reads_current reads_skip_Suc reads_time_code reads_last reads_integral)

lemma reads_time96:
  "reads (read_ticks num den)
     (to_underlying FC_ext8 # 12 # (-1) # big_endian (n :: 32 word) @ big_endian (s :: 64 word))
     (tick_sum (nano_ticks num den (unat n)) (second_ticks num den (sint s)))"
proof -
  have "reads (up_bind read_integral (\<lambda>seconds :: 64 word. up_return
      (tick_sum (nano_ticks num den (unat n)) (second_ticks num den (sint seconds))))) (big_endian s)
      (tick_sum (nano_ticks num den (unat n)) (second_ticks num den (sint s)))"
    by (rule reads_last) (simp add: reads_integral)
  moreover have "reads read_integral (big_endian n) n" by (simp add: reads_integral)
  moreover have "reads read_integral [12] (12 :: 8 word)" by (rule reads_byte_integral)
  ultimately have "reads (up_bind read_integral (\<lambda>size :: 8 word. time_code (
         up_bind read_integral (\<lambda>nano_seconds :: 32 word.
         up_bind read_integral (\<lambda>seconds :: 64 word.
           up_return (tick_sum (nano_ticks num den (unat nano_seconds)) (second_ticks num den (sint seconds))))))))
      ([12] @ (-1) # big_endian n @ big_endian s)
      (tick_sum (nano_ticks num den (unat n)) (second_ticks num den (sint s)))"
    by (intro reads_bind reads_time_code)
  then show ?thesis
    unfolding read_ticks_def by (auto intro!: reads_current reads_skip_Suc)
qed

lemma emplace_integral_emit: "8 dvd LENGTH('t::len) \<Longrightarrow> emplace_integral (w :: 't word) = emit (big_endian w)"
  by (simp add: emplace_integral_def memory_big_endian)

lemma pack_time_eq:
  assumes "0 < d" and "d dvd 1000000000" and "in_int64 c"
  shows "pack_time 1 d c =
    (let N = (c mod d) * (1000000000 div d); s = c div d;
         data64 = or (push_bit 34 (of_int N)) (of_int s) :: 64 word
     in if 0 \<le> s \<and> s < 2 ^ 34 then
          (if drop_bit 34 data64 = 0
           then emit (to_underlying FC_fixext4 # (-1) # big_endian (ucast data64 :: 32 word))
           else emit (to_underlying FC_fixext8 # (-1) # big_endian data64))
        else emit (to_underlying FC_ext8 # 12 # (-1) # big_endian (of_int N :: 32 word) @ big_endian (of_int s :: 64 word)))"
proof -
  have "drop_bit 34 s = 0 \<longleftrightarrow> 0 \<le> s \<and> s < 2 ^ 34" for s :: int
    by (auto simp: drop_bit_eq_div zdiv_eq_0_iff)
  then show ?thesis
    using split_time_floor [OF assms]
    by (simp add: pack_time_def Let_def nano_mask_iff emplace_integral_emit emplace_constant_def)
qed


definition narrowed_time :: "int \<Rightarrow> int \<Rightarrow> bool" where
  "narrowed_time d c \<longleftrightarrow> c mod d = 0 \<and> 2 ^ 32 \<le> c div d \<and> c div d < 2 ^ 34"

lemma uint_of_int_small: "0 \<le> k \<Longrightarrow> k < 2 ^ LENGTH('a::len) \<Longrightarrow> uint (of_int k :: 'a word) = k"
  by (simp add: uint_word_of_int)

text \<open>
  Where the ticks overflow on the way back: the seconds, rounded down, are fewer ticks than
  the clock can count, before the nanoseconds are added.
\<close>

definition lost_time :: "int \<Rightarrow> int \<Rightarrow> bool" where
  "lost_time d c \<longleftrightarrow> (c div d) * d < - (2 ^ 63)"

lemma second_ticks_whole: "in_int64 (s * d) \<Longrightarrow> second_ticks 1 d s = Some (s * d)"
  by (simp add: second_ticks_def int64_result_def signed_divide_int_def sgn_if)

lemma packed_time:
  assumes "0 < d" and "d dvd 1000000000" and "- (2 ^ 63) \<le> c" and "c < 2 ^ 63"
  shows "carries (pack_time 1 d c) (read_ticks 1 d)
    (if narrowed_time d c then Some ((c div d mod 2 ^ 32) * d) else if lost_time d c then None else Some c)"
proof -
  define N where "N = (c mod d) * (1000000000 div d)"
  let ?s = "c div d"
  let ?w = "or (push_bit 34 (of_int N)) (of_int ?s) :: 64 word"
  have c64: "in_int64 c" using assms(3,4) by (simp add: in_int64_def)
  have pack_eq: "pack_time 1 d c =
    (if 0 \<le> ?s \<and> ?s < 2 ^ 34 then
       (if drop_bit 34 ?w = 0
        then emit (to_underlying FC_fixext4 # (-1) # big_endian (ucast ?w :: 32 word))
        else emit (to_underlying FC_fixext8 # (-1) # big_endian ?w))
     else emit (to_underlying FC_ext8 # 12 # (-1) # big_endian (of_int N :: 32 word) @ big_endian (of_int ?s :: 64 word)))"
    unfolding N_def by (simp only: pack_time_eq [OF assms(1,2) c64] Let_def)
  note b = split_time_bounds [OF assms, folded N_def]
  have N30: "N < 2 ^ 30" using b(2) by (rule order.strict_trans) simp
  have whole: "c mod d + ?s * d = c" by simp
  have r: "0 \<le> c mod d" using assms(1) by simp
  have d9: "d \<le> 1000000000" using assms(2) by (simp add: zdvd_imp_le)
  have below: "?s * d < 2 ^ 63" using whole r assms(4) by linarith
  have sum: "tick_sum (Some (c mod d)) (second_ticks 1 d ?s) = (if lost_time d c then None else Some c)"
    using below whole c64
    by (auto simp: tick_sum_def second_ticks_def int64_result_def in_int64_def lost_time_def truncated_division add.commute)
  show ?thesis
  proof (cases "0 \<le> ?s \<and> ?s < 2 ^ 34")
    case True
    then have parts: "drop_bit 34 ?w = of_int N" "take_bit 34 ?w = of_int ?s"
      using data64_parts [OF b(1) N30] by blast+
    have uN: "uint (of_int N :: 64 word) = N" "uint (of_int N :: 32 word) = N"
      using b(1) N30 by (auto intro!: uint_of_int_small)
    have us: "uint (of_int ?s :: 64 word) = ?s" using True by (auto intro!: uint_of_int_small)
    have kept: "\<not> lost_time d c" using True assms(1) by (auto simp: lost_time_def not_less intro: order.trans [of _ 0])
    show ?thesis
    proof (cases "N = 0")
      case zero: True
      have m: "0 \<le> ?s mod 2 ^ 32" "?s mod 2 ^ 32 \<le> 2 ^ 32" by simp_all
      then have "(?s mod 2 ^ 32) * d \<le> 2 ^ 32 * 1000000000"
        using d9 assms(1) by (intro mult_mono) auto
      moreover have "0 \<le> (?s mod 2 ^ 32) * d" using m assms(1) by simp
      ultimately have "in_int64 ((?s mod 2 ^ 32) * d)" by (simp add: in_int64_def)
      moreover have "uint (ucast ?w :: 32 word) = ?s mod 2 ^ 32"
        using zero by (simp add: unsigned_ucast_eq us take_bit_eq_mod)
      ultimately have t: "tick_sum (Some 0) (second_ticks 1 d (uint (ucast ?w :: 32 word))) = Some ((?s mod 2 ^ 32) * d)"
        by (simp add: tick_sum_def second_ticks_whole int64_result_def)
      have c: "c mod d = 0" "?s * d = c" using zero b(6) whole by simp_all
      have "(?s mod 2 ^ 32) * d = c" if "\<not> narrowed_time d c"
      proof -
        have "?s mod 2 ^ 32 = ?s" using that c(1) True by (simp add: narrowed_time_def)
        then show ?thesis using c(2) by simp
      qed
      then have v: "(if narrowed_time d c then Some ((?s mod 2 ^ 32) * d) else if lost_time d c then None else Some c) =
          Some ((?s mod 2 ^ 32) * d)" using kept by simp
      have "drop_bit 34 ?w = 0" using parts(1) zero by simp
      then show ?thesis
        unfolding pack_eq if_P [OF True] v using reads_time32 [of 1 d "ucast ?w", unfolded t]
        by (simp only: simp_thms if_True carries_emit)
    next
      case pos: False
      then have "drop_bit 34 ?w \<noteq> 0" using parts uN by (metis uint_0_eq)
      moreover have "unat (of_int N :: 64 word) = nat N" by (simp only: unat_eq_nat_uint uN(1))
      then have "unat (ucast (drop_bit 34 ?w) :: 32 word) = nat N"
        unfolding parts(1) unat_ucast_down using N30 b(1) by (simp add: nat_less_iff)
      moreover have "\<not> narrowed_time d c" using pos b(6) by (simp add: narrowed_time_def)
      ultimately show ?thesis
        using reads_time64 [of 1 d ?w] True parts(2) us b(5) sum kept
        by (simp add: pack_eq carries_emit)
    qed
  next
    case False
    have "uint (of_int N :: 32 word) = N" using b(1) N30 by (auto intro!: uint_of_int_small)
    then have "unat (of_int N :: 32 word) = nat N" by (simp add: unat_eq_nat_uint)
    moreover have "sint (of_int ?s :: 64 word) = ?s"
      using b(3,4) by (simp add: signed_of_int signed_take_bit_int_eq_self)
    moreover have "\<not> narrowed_time d c" using False by (auto simp: narrowed_time_def)
    ultimately show ?thesis
      using reads_time96 [of 1 d "of_int N" "of_int ?s"] b(5) sum
      unfolding pack_eq if_not_P [OF False] by (simp add: carries_emit)
  qed
qed

text \<open>With the ticks in hand: a value, or undefined behaviour.\<close>

lemma carries_ticks:
  assumes "carries e (read_ticks num den) (Some v)"
  shows "carries e (unpack_time num den v0) v"
  using reads_bind [of "read_ticks num den" "fst e" "Some v"
      "\<lambda>ticks. case ticks of Some tp \<Rightarrow> up_return tp | None \<Rightarrow> up_throw Undefined_behaviour" "[]" v]
    assms reads_return [of v]
  by (simp add: carries_def unpack_time_def)

lemma ticks_overflow:
  assumes "carries e (read_ticks num den) None" and "length (fst e) < sz_modulus"
  shows "snd e = None \<and> unpack_object (unpack_time num den) v0 (fst e) = Inl Undefined_behaviour"
  using readsD [of "read_ticks num den" "fst e" None "[]" "[]"] assms
  by (simp add: carries_def unpack_object_def unpacker_of_def unpack_time_def up_bind_def up_throw_def)

lemma carries_time:
  assumes "0 < d" and "d dvd 1000000000" and "- (2 ^ 63) \<le> c" and "c < 2 ^ 63" and "\<not> lost_time d c"
  shows "carries (pack_time 1 d c) (unpack_time 1 d c0)
    (if narrowed_time d c then (c div d mod 2 ^ 32) * d else c)"
  using packed_time [OF assms(1-4)] assms(5) by (intro carries_ticks) (simp split: if_splits)

lemma time_overflow:
  assumes "0 < d" and "d dvd 1000000000" and "- (2 ^ 63) \<le> c" and "c < 2 ^ 63" and "lost_time d c"
  shows "snd (pack_time 1 d c) = None \<and>
    unpack_object (unpack_time 1 d) c0 (fst (pack_time 1 d c)) = Inl Undefined_behaviour"
proof (rule ticks_overflow)
  have "c div d * d < 0" using assms(5) by (simp add: lost_time_def)
  then have neg: "c div d < 0" using assms(1) by (simp add: mult_less_0_iff)
  then have "\<not> narrowed_time d c" by (simp add: narrowed_time_def)
  then show "carries (pack_time 1 d c) (read_ticks 1 d) None"
    using packed_time [OF assms(1-4)] assms(5) by simp
  show "length (fst (pack_time 1 d c)) < sz_modulus"
    using neg assms(3,4) unfolding pack_time_eq [OF assms(1,2), unfolded in_int64_def, OF conjI [OF assms(3,4)]]
    by (simp add: Let_def sz_modulus_def)
qed

interpretation system_clock: packable "pack_time 1 1000000000" "unpack_time 1 1000000000" 0
    "\<lambda>c. - (2 ^ 63) \<le> c \<and> c < 2 ^ 63 \<and> \<not> narrowed_time 1000000000 c \<and> \<not> lost_time 1000000000 c"
proof unfold_locales
  fix c :: int
  assume "- (2 ^ 63) \<le> c \<and> c < 2 ^ 63 \<and> \<not> narrowed_time 1000000000 c \<and> \<not> lost_time 1000000000 c"
  then show "carries (pack_time 1 1000000000 c) (unpack_time 1 1000000000 0) c"
    using carries_time [of 1000000000 c 0] by simp
qed

end
