(* ===== verification/MsgpackSafe.thy ===== *)
theory MsgpackSafe
  imports MsgpackExt
begin

section \<open>MessagePack: the unpacker on arbitrary bytes\<close>

text \<open>
  What the unpacker does with bytes nobody packed. \<open>safe L m P f\<close>: from a position inside
  data of at most \<open>L\<close> bytes, \<open>f\<close> ends with an exception other than undefined behaviour,
  or returns a value with \<open>P\<close> at a position inside the same data, \<open>m\<close> or more bytes on. The scalar types,
  the strings and the binaries are safe, and so are pairs, collections and maps of safe
  types, as long as the data have fewer than \<open>2 ^ 31\<close> bytes (each element takes at least
  one). Fixed arrays and variants are not, as the last lemmas show.
\<close>

definition in_bounds :: "nat \<Rightarrow> unpacker \<Rightarrow> bool" where
  "in_bounds L u \<longleftrightarrow> up_position u \<le> length (up_data u) \<and> length (up_data u) \<le> L"

definition safe :: "nat \<Rightarrow> nat \<Rightarrow> ('v \<Rightarrow> bool) \<Rightarrow> 'v reader \<Rightarrow> bool" where
  "safe L m P f \<longleftrightarrow>
     (\<forall>u. in_bounds L u \<longrightarrow> f u \<noteq> Inl Undefined_behaviour \<and>
        (\<forall>v u1. f u = Inr (v, u1) \<longrightarrow>
           P v \<and> up_data u1 = up_data u \<and> up_position u + m \<le> up_position u1 \<and> in_bounds L u1))"

abbreviation any :: "'v \<Rightarrow> bool" where
  "any \<equiv> \<lambda>_. True"

named_theorems safety "readers that stay inside their data"

lemma safeI:
  assumes "\<And>u. in_bounds L u \<Longrightarrow> f u \<noteq> Inl Undefined_behaviour"
    and "\<And>u v u1. in_bounds L u \<Longrightarrow> f u = Inr (v, u1) \<Longrightarrow>
      P v \<and> up_data u1 = up_data u \<and> up_position u + m \<le> up_position u1 \<and> in_bounds L u1"
  shows "safe L m P f"
  using assms unfolding safe_def by blast

lemma safeD:
  assumes "safe L m P f" and "in_bounds L u"
  shows "f u \<noteq> Inl Undefined_behaviour"
    and "f u = Inr (v, u1) \<Longrightarrow> P v \<and> up_data u1 = up_data u \<and> up_position u + m \<le> up_position u1 \<and> in_bounds L u1"
  using assms unfolding safe_def by blast+

lemma safe_weaken:
  assumes "safe L m P f" and "n \<le> m" and "\<And>v. P v \<Longrightarrow> Q v"
  shows "safe L n Q f"
proof (rule safeI)
  fix u assume "in_bounds L u"
  then show "f u \<noteq> Inl Undefined_behaviour" by (rule safeD(1) [OF assms(1)])
next
  fix u v u1 assume "in_bounds L u" "f u = Inr (v, u1)"
  from safeD(2) [OF assms(1) this] assms(2,3)
  show "Q v \<and> up_data u1 = up_data u \<and> up_position u + n \<le> up_position u1 \<and> in_bounds L u1" by auto
qed

lemma safe_bind:
  assumes "safe L m P f" and "\<And>v. P v \<Longrightarrow> safe L (n - m) Q (k v)"
  shows "safe L n Q (up_bind f k)"
proof (rule safeI)
  fix u assume u: "in_bounds L u"
  show "up_bind f k u \<noteq> Inl Undefined_behaviour"
  proof (cases "f u")
    case (Inl e)
    then show ?thesis using safeD(1) [OF assms(1) u] by (simp add: up_bind_def)
  next
    case (Inr r)
    then obtain v u1 where r: "f u = Inr (v, u1)" by (cases r) auto
    note s = safeD(2) [OF assms(1) u r]
    then show ?thesis using safeD(1) [OF assms(2), of v u1] by (simp add: up_bind_def r)
  qed
next
  fix u w u2 assume u: "in_bounds L u" and "up_bind f k u = Inr (w, u2)"
  then obtain v u1 where r: "f u = Inr (v, u1)" and k: "k v u1 = Inr (w, u2)"
    by (auto simp: up_bind_def bind_result_Inr_iff)
  note s = safeD(2) [OF assms(1) u r]
  then show "Q w \<and> up_data u2 = up_data u \<and> up_position u + n \<le> up_position u2 \<and> in_bounds L u2"
    using safeD(2) [OF assms(2), of v u1 w u2] k by force
qed

lemma safe_return [safety]: "P v \<Longrightarrow> safe L 0 P (up_return v)"
  by (simp add: safe_def up_return_def)

lemma safe_throw [safety]: "e \<noteq> Undefined_behaviour \<Longrightarrow> safe L m P (up_throw e)"
  by (simp add: safe_def up_throw_def)

lemma safe_current: "safe L 0 any current"
  by (auto simp: safe_def current_def)

lemma safe_if [safety]: "(c \<Longrightarrow> safe L m P f) \<Longrightarrow> (\<not> c \<Longrightarrow> safe L m P g) \<Longrightarrow> safe L m P (if c then f else g)"
  by simp

lemma safe_current_bind [safety]: "(\<And>c. safe L m P (k c)) \<Longrightarrow> safe L m P (up_bind current k)"
  by (rule safe_bind [OF safe_current]) simp

lemma no_wrap: "L \<le> max_size \<Longrightarrow> in_bounds L u \<Longrightarrow> n \<le> max_size \<Longrightarrow> sz_add (up_position u) n = up_position u + n"
  by (rule sz_add_small) (auto simp: in_bounds_def max_size_def sz_modulus_def)

lemma safe_increment:
  assumes "L \<le> max_size" and "n \<le> max_size"
  shows "safe L n any (increment n)"
  using no_wrap [OF assms(1) _ assms(2)] by (auto simp: safe_def increment_def in_bounds_def)

lemma safe_increment_bind [safety]:
  assumes "L \<le> max_size" and "safe L (m - 1) P (k ())"
  shows "safe L m P (up_bind (increment 1) k)" and "safe L m P (up_bind (increment (Suc 0)) k)"
  using assms by (auto intro!: safe_bind [OF safe_increment] simp: max_size_def)

lemma safe_read_integral:
  assumes "L \<le> max_size" and "LENGTH('t) \<le> 64"
  shows "safe L 0 any (read_integral :: ('t::len word) reader)"
proof -
  have "size_of TYPE('t word) \<le> max_size" using assms(2) by (simp add: size_of_def max_size_def)
  from no_wrap [OF assms(1) _ this] show ?thesis
    by (auto simp: safe_def read_integral_def increment_def mem_load_def in_bounds_def)
qed

lemma safe_read_bytes:
  assumes "L \<le> max_size" and "n \<le> max_size"
  shows "safe L n (\<lambda>s. length s = n) (read_bytes n)"
  using no_wrap [OF assms(1) _ assms(2)]
  by (auto simp: safe_def read_bytes_def increment_def mem_load_def in_bounds_def)

lemma safe_take_current: "L \<le> max_size \<Longrightarrow> m \<le> 1 \<Longrightarrow> safe L m any take_current"
  unfolding take_current_def by (rule safe_weaken [where m = 1]) (auto intro!: safety)

lemma safe_skip_then_read:
  "L \<le> max_size \<Longrightarrow> LENGTH('t) \<le> 64 \<Longrightarrow> m \<le> 1 \<Longrightarrow> safe L m any (skip_then_read :: ('t::len word) reader)"
  unfolding skip_then_read_def
  by (rule safe_weaken [where m = 1]) (auto intro!: safety safe_read_integral)

lemmas safe_take_current_bind = safe_bind [OF safe_take_current [where m = "Suc 0"]]
lemmas safe_skip_then_read_bind = safe_bind [OF safe_skip_then_read [where m = "Suc 0"]]

lemmas safe_steps = safety safe_take_current safe_skip_then_read safe_take_current_bind safe_skip_then_read_bind

text \<open>Every scalar is safe and takes at least one byte.\<close>

lemma safe_scalars:
  assumes "L \<le> max_size"
  shows "safe L (Suc 0) any (unpack_uint8 v1)" "safe L (Suc 0) any (unpack_uint16 v2)"
    "safe L (Suc 0) any (unpack_uint32 v3)" "safe L (Suc 0) any (unpack_uint64 v4)"
    "safe L (Suc 0) any (unpack_bool v6)" "safe L (Suc 0) any (unpack_float v7)" "safe L (Suc 0) any (unpack_double v8)"
  unfolding unpack_uint8_def unpack_uint16_def unpack_uint32_def unpack_uint64_def
    unpack_bool_def unpack_float_def unpack_double_def check_constant_def up_bind_assoc up_bind_return
  using assms by (auto intro!: safe_steps)

lemma safe_nil: "L \<le> max_size \<Longrightarrow> safe L (Suc 0) any (unpack_nil v)"
  unfolding unpack_nil_def by (auto intro!: safety safe_increment [of L "Suc 0"] simp: max_size_def)

lemma safe_signed:
  assumes "L \<le> max_size"
  shows "safe L (Suc 0) any (unpack_int8 v1)" "safe L (Suc 0) any (unpack_int16 v2)"
    "safe L (Suc 0) any (unpack_int32 v3)" "safe L (Suc 0) any (unpack_int64 v4)"
proof -
  show i8: "safe L (Suc 0) any (unpack_int8 v1)" for v1
    unfolding unpack_int8_def using assms by (auto intro!: safe_steps)
  show i16: "safe L (Suc 0) any (unpack_int16 v2)" for v2
    unfolding unpack_int16_def using assms by (auto intro!: safe_steps safe_bind [OF i8])
  show i32: "safe L (Suc 0) any (unpack_int32 v3)" for v3
    unfolding unpack_int32_def using assms
    by (auto intro!: safe_steps safe_bind [OF i8] safe_bind [OF i16])
  show "safe L (Suc 0) any (unpack_int64 v4)"
    unfolding unpack_int64_def using assms
    by (auto intro!: safe_steps safe_bind [OF i8] safe_bind [OF i16] safe_bind [OF i32])
qed


subsection \<open>Lengths, strings and binaries\<close>

lemma safe_or_else [safety]:
  assumes "L \<le> max_size" and "LENGTH('t::len) \<le> 32" and "safe L (Suc 0) (\<lambda>n. n \<le> uint32_max) g"
  shows "safe L (Suc 0) (\<lambda>n. n \<le> uint32_max) (or_else (read_conditional c TYPE('t word)) g)"
proof -
  have "unat (w :: 't word) \<le> uint32_max" for w
  proof -
    have "unat w < 2 ^ LENGTH('t)" by (rule unsigned_less)
    also have "\<dots> \<le> 2 ^ 32" using assms(2) by (intro power_increasing) auto
    finally show ?thesis by (simp add: uint32_max_def)
  qed
  then show ?thesis
    using assms unfolding or_else_def read_conditional_def check_constant_def up_bind_assoc up_bind_return
    by (auto intro!: safety safe_bind [OF safe_read_integral] simp: if_distrib [of "\<lambda>f. up_bind f _"] up_bind_assoc)
qed

lemma safe_size_in_format [safety]: "L \<le> max_size \<Longrightarrow> safe L (Suc 0) (\<lambda>n. n \<le> uint32_max) (size_in_format m)"
  unfolding size_in_format_def
  by (auto intro!: safety order.trans [OF less_imp_le [OF unsigned_less [where 'b = 8]]] simp: uint32_max_def)

lemma safe_strings:
  assumes "L \<le> max_size"
  shows "safe L (Suc 0) any (unpack_string s1)" "safe L (Suc 0) any (unpack_bin s2)"
proof -
  have b: "safe L 0 any (read_bytes n)" if "n \<le> uint32_max" for n
    using safe_read_bytes [OF assms, of n] that by (auto intro: safe_weaken simp: max_size_def uint32_max_def)
  show "safe L (Suc 0) any (unpack_string s1)" "safe L (Suc 0) any (unpack_bin s2)"
    unfolding unpack_string_def unpack_bin_def using assms
    by (auto intro!: safe_bind [where P = "\<lambda>n. n \<le> uint32_max" and m = "Suc 0"] safe_or_else safe_size_in_format safe_throw b)
qed

lemma safe_headers:
  assumes "L \<le> max_size"
  shows "safe L (Suc 0) (\<lambda>n. n \<le> uint32_max) unpack_array_header" "safe L (Suc 0) (\<lambda>n. n \<le> uint32_max) unpack_map_header"
  unfolding unpack_array_header_def unpack_map_header_def using assms
  by (auto intro!: safe_or_else safe_size_in_format)



subsection \<open>Collections and maps\<close>

lemma int_max_le: "int_max \<le> max_size"
  by (simp add: int_max_def max_size_def)

text \<open>
  The loop counts with an \<open>int\<close>, but as each pass takes a byte it ends at the end of the
  data before the counter can overflow.
\<close>

lemma unpack_loop_safe:
  assumes "\<And>s. safe L (Suc 0) any (step s)" and "L \<le> int_max"
    and "in_bounds L u" and "i \<le> up_position u"
  shows "unpack_loop step n i s u \<noteq> Inl Undefined_behaviour"
    and "unpack_loop step n i s u = Inr (s1, u1) \<Longrightarrow>
      up_data u1 = up_data u \<and> up_position u \<le> up_position u1 \<and> in_bounds L u1"
proof -
  have "unpack_loop step n i s u \<noteq> Inl Undefined_behaviour \<and>
    (\<forall>s1 u1. unpack_loop step n i s u = Inr (s1, u1) \<longrightarrow>
      up_data u1 = up_data u \<and> up_position u \<le> up_position u1 \<and> in_bounds L u1)"
    using assms
  proof (induction step n i s u rule: unpack_loop.induct)
    case (1 step n i s u)
    note st = safeD [OF "1.prems"(1) "1.prems"(3), of s]
    show ?case
    proof (cases "i < n")
      case False
      then show ?thesis using "1.prems"(3) by (simp add: unpack_loop.simps)
    next
      case True
      show ?thesis
      proof (cases "step s u")
        case (Inl e)
        then show ?thesis using st(1) True by (simp add: unpack_loop.simps [of step n i])
      next
        case (Inr r)
        then obtain s2 u2 where r: "step s u = Inr (s2, u2)" by (cases r) auto
        note b = st(2) [OF r]
        then have "Suc i \<le> up_position u2" using "1.prems"(4) by simp
        moreover have "up_position u2 \<le> int_max" using b "1.prems"(2) by (auto simp: in_bounds_def)
        ultimately have i: "i \<noteq> int_max" "i + 1 \<le> up_position u2" by auto
        have eq: "unpack_loop step n i s u = unpack_loop step n (i + 1) s2 u2"
          using True r i(1) by (subst unpack_loop.simps) simp
        have "in_bounds L u2" using b by simp
        note ih = "1.IH" [OF True i(1) "1.prems"(1,2) this i(2), of s2]
        have "up_position u \<le> up_position u3" if "up_position u2 \<le> up_position u3" for u3 :: unpacker
          using that b by simp
        with ih b show ?thesis unfolding eq by metis
      qed
    qed
  qed
  then show "unpack_loop step n i s u \<noteq> Inl Undefined_behaviour"
    and "unpack_loop step n i s u = Inr (s1, u1) \<Longrightarrow>
      up_data u1 = up_data u \<and> up_position u \<le> up_position u1 \<and> in_bounds L u1"
    by blast+
qed

lemma safe_loop:
  assumes "\<And>s. safe L (Suc 0) any (step s)" and "L \<le> int_max"
  shows "safe L 0 any (unpack_loop step n 0 s)"
  using unpack_loop_safe [OF assms(1,2), where i = 0] by (auto intro!: safeI)

locale bounded_reader =
  fixes up :: "'v unpack_op"
  assumes safe: "L \<le> int_max \<Longrightarrow> safe L (Suc 0) any (up v)"

context bounded_reader
begin

lemma collection_safe: "L \<le> int_max \<Longrightarrow> safe L (Suc 0) any (unpack_collection up d v)"
  unfolding unpack_collection_def
  using int_max_le
  by (intro safe_bind [OF safe_headers(1)] safe_weaken [OF safe_loop])
     (auto intro!: safe_bind [OF safe] safe_return)

lemma enum_safe: "L \<le> int_max \<Longrightarrow> safe L (Suc 0) any (unpack_enum up f g v)"
  unfolding unpack_enum_def by (auto intro!: safe_bind [OF safe] safe_return)

lemma object_safe:
  assumes "length data \<le> int_max"
  shows "unpack_object up v data \<noteq> Inl Undefined_behaviour"
  using safeD(1) [OF safe, of "length data" "unpacker_of data" v] assms
  by (auto simp: unpack_object_def in_bounds_def unpacker_of_def bind_result_def split: sum.splits)

end

locale bounded_readers = fst: bounded_reader upa + snd: bounded_reader upb
  for upa :: "'a unpack_op" and upb :: "'b unpack_op"

context bounded_readers
begin

lemma pair_safe: "L \<le> int_max \<Longrightarrow> safe L (Suc 0) any (unpack_pair upa upb v)"
  unfolding unpack_pair_def
  by (auto intro!: safe_bind [OF fst.safe] safe_bind [OF safe_weaken [OF snd.safe, where n = 0]] safe_return)

lemma map_safe: "L \<le> int_max \<Longrightarrow> safe L (Suc 0) any (unpack_map upa a upb b v)"
  unfolding unpack_map_def
  using int_max_le
  by (intro safe_bind [OF safe_headers(2)] safe_weaken [OF safe_loop])
     (auto intro!: safe_bind [OF fst.safe] safe_bind [OF safe_weaken [OF snd.safe, where n = 0]] safe_return)

end

sublocale bounded_readers \<subseteq> pair: bounded_reader "unpack_pair upa upb"
  using pair_safe by unfold_locales

sublocale bounded_readers \<subseteq> map: bounded_reader "unpack_map upa a upb b" for a b
  using map_safe by unfold_locales

locale bounded_list = elem: bounded_reader up for up :: "'v unpack_op"

sublocale bounded_list \<subseteq> list: bounded_reader "unpack_collection up d" for d
  using elem.collection_safe by unfold_locales

context bounded_readers
begin

lemmas pair_bounded = pair.bounded_reader_axioms
lemmas map_bounded = map.bounded_reader_axioms

end

context bounded_list
begin

lemmas list_bounded = list.bounded_reader_axioms

end

lemmas safe_scalars_int = safe_scalars [OF order.trans [OF _ int_max_le]]
lemmas safe_signed_int = safe_signed [OF order.trans [OF _ int_max_le]]
lemmas safe_strings_int = safe_strings [OF order.trans [OF _ int_max_le]]

interpretation safe_uint8: bounded_reader unpack_uint8 by unfold_locales (rule safe_scalars_int)
interpretation safe_uint16: bounded_reader unpack_uint16 by unfold_locales (rule safe_scalars_int)
interpretation safe_uint32: bounded_reader unpack_uint32 by unfold_locales (rule safe_scalars_int)
interpretation safe_uint64: bounded_reader unpack_uint64 by unfold_locales (rule safe_scalars_int)
interpretation safe_int8: bounded_reader unpack_int8 by unfold_locales (rule safe_signed_int)
interpretation safe_int16: bounded_reader unpack_int16 by unfold_locales (rule safe_signed_int)
interpretation safe_int32: bounded_reader unpack_int32 by unfold_locales (rule safe_signed_int)
interpretation safe_int64: bounded_reader unpack_int64 by unfold_locales (rule safe_signed_int)
interpretation safe_null: bounded_reader unpack_nil by unfold_locales (rule safe_nil [OF order.trans [OF _ int_max_le]])
interpretation safe_bool: bounded_reader unpack_bool by unfold_locales (rule safe_scalars_int)
interpretation safe_float: bounded_reader unpack_float by unfold_locales (rule safe_scalars_int)
interpretation safe_double: bounded_reader unpack_double by unfold_locales (rule safe_scalars_int)
interpretation safe_str: bounded_reader unpack_string by unfold_locales (rule safe_strings_int)
interpretation safe_bin: bounded_reader unpack_bin by unfold_locales (rule safe_strings_int)

interpretation safe_strings_list: bounded_list unpack_string by unfold_locales
interpretation safe_string_uint64: bounded_readers unpack_string unpack_uint64 by unfold_locales

text \<open>
  The variant takes the view of its bytes before it checks that they are there, and the
  fixed array copies what it has read without looking at its own size.
\<close>

lemma variant_truncated:
  assumes "alts \<noteq> []" and "length alts \<le> 128"
  shows "unpack_variant alts v0 (unpacker_of [to_underlying FC_fixext1, 0]) = Inl Undefined_behaviour"
  using assms sint_small_index [of "length alts - 1"]
  by (simp add: unpack_variant_def ext_size_def up_bind_def current_def unpacker_of_def increment_def
      up_return_def read_integral_def sz_add_def sz_modulus_def mem_load_def subspan_def
      from_big_endian_def to_big_endian_def byteswap_def memory_bytes_def)

end
