(* ===== verification/BinaryMessage.thy ===== *)
theory BinaryMessage
  imports MsgpackSafe ConnectionWrite ConnectionRead
begin

section \<open>Binary messages (\<open>src/message/binaryMessage.cpp\<close>)\<close>

text \<open>
  A message whose header is the length of its body, 8 bytes big-endian, and whose body is
  a value in MessagePack. The type \<open>T\<close> of the value is the type parameter \<open>'v\<close>; its
  \<open>pack\<close>, its \<open>unpack\<close> and its default value are arguments, and so is \<open>partial\<close>, what an
  \<open>unpack\<close> that throws leaves of the value. \<open>catch (...)\<close> catches every exception, but
  undefined behaviour is none.

  The operations produce and consume through the bytes of \<open>length_\<close> in memory, and
  \<open>consumeHeaderSome\<close> swaps these bytes at the end of every call. A header that comes in
  one piece is read, one that comes in two is not; the last section shows both.
\<close>

record 'v binary_message =
  bm_length :: "64 word"
  bm_headIdx :: nat
  bm_buffer :: "byte list"
  bm_bodyIdx :: nat
  bm_value :: 'v

text \<open>The constructors: \<open>length_\<close> has no initialiser.\<close>

definition bm_new :: "64 word \<Rightarrow> 'v \<Rightarrow> 'v binary_message" where
  "bm_new stale val =
     \<lparr>bm_length = stale, bm_headIdx = 0, bm_buffer = [], bm_bodyIdx = 0, bm_value = val\<rparr>"

definition bm_pack :: "('v \<Rightarrow> emission) \<Rightarrow> 'v \<Rightarrow> 'v binary_message \<Rightarrow> (Error \<times> 'v binary_message) result" where
  "bm_pack pack initial m =
     (let m0 = m\<lparr>bm_length := 0, bm_headIdx := 0, bm_buffer := [], bm_bodyIdx := 0\<rparr>;
          e = pack (bm_value m0);
          m1 = m0\<lparr>bm_buffer := back_insert (bm_buffer m0) e\<rparr>
      in case snd e of
           Some Undefined_behaviour \<Rightarrow> Inl Undefined_behaviour
         | Some _ \<Rightarrow> Inr (Error_of SERIALIZATION_ERROR, m1)
         | None \<Rightarrow>
             Inr (Error_none, m1\<lparr>bm_value := initial, bm_length := of_nat (length (bm_buffer m1))\<rparr>))"

definition bm_unpack ::
  "'v unpack_op \<Rightarrow> 'v \<Rightarrow> (byte list \<Rightarrow> 'v) \<Rightarrow> 'v binary_message \<Rightarrow> (Error \<times> 'v binary_message) result" where
  "bm_unpack unpack initial partial m =
     (case unpack initial (unpacker_of (bm_buffer m)) of
        Inl Undefined_behaviour \<Rightarrow> Inl Undefined_behaviour
      | Inl _ \<Rightarrow> Inr (Error_of DESERIALIZATION_ERROR, m\<lparr>bm_value := partial (bm_buffer m)\<rparr>)
      | Inr (v, _) \<Rightarrow> Inr (Error_none, m\<lparr>bm_value := v, bm_buffer := []\<rparr>))"

definition bm_consumeHeaderSome :: "'v binary_message consume_op" where
  "bm_consumeHeaderSome m data =
     (let remaining = sz_sub 8 (bm_headIdx m);
          numCopy = min (length data) remaining
      in bind_result (mem_store (memory_bytes (bm_length m)) (bm_headIdx m) (take numCopy data)) (\<lambda>headBytes.
           let m1 = m\<lparr>bm_length := byteswap (from_memory headBytes),
                      bm_headIdx := sz_add (bm_headIdx m) numCopy\<rparr>
           in Inr ((Error_none, 8 \<le> bm_headIdx m1, numCopy), m1)))"

definition bm_sized :: "'v binary_message \<Rightarrow> 'v binary_message result" where
  "bm_sized m =
     (if length (bm_buffer m) \<noteq> unat (bm_length m)
      then bind_result (vec_resize (unat (bm_length m)) (bm_buffer m)) (\<lambda>b. Inr (m\<lparr>bm_buffer := b\<rparr>))
      else Inr m)"

definition bm_consumeBodySome :: "'v binary_message consume_op" where
  "bm_consumeBodySome m data =
     bind_result (bm_sized m) (\<lambda>m0.
     let remaining = sz_sub (unat (bm_length m0)) (bm_bodyIdx m0);
         numCopy = min (length data) remaining
     in bind_result (mem_store (bm_buffer m0) (bm_bodyIdx m0) (take numCopy data)) (\<lambda>b.
          let m1 = m0\<lparr>bm_buffer := b, bm_bodyIdx := sz_add (bm_bodyIdx m0) numCopy\<rparr>
          in Inr ((Error_none, unat (bm_length m1) \<le> bm_bodyIdx m1, numCopy), m1)))"

definition bm_produceHeaderSome :: "'v binary_message produce_op" where
  "bm_produceHeaderSome m out =
     (let remaining = sz_sub 8 (bm_headIdx m);
          numCopy = min out remaining;
          lengthVal = byteswap (bm_length m)
      in bind_result (mem_load (memory_bytes lengthVal) (bm_headIdx m) numCopy) (\<lambda>copied.
           let m1 = m\<lparr>bm_headIdx := sz_add (bm_headIdx m) numCopy\<rparr>;
               finished = 8 \<le> bm_headIdx m1;
               m2 = (if finished then m1\<lparr>bm_headIdx := 0\<rparr> else m1)
           in Inr ((Error_none, finished, copied), m2)))"

definition bm_produceBodySome :: "'v binary_message produce_op" where
  "bm_produceBodySome m out =
     bind_result (bm_sized m) (\<lambda>m0.
     let remaining = sz_sub (unat (bm_length m0)) (bm_bodyIdx m0);
         numCopy = min out remaining
     in bind_result (mem_load (bm_buffer m0) (bm_bodyIdx m0) numCopy) (\<lambda>copied.
          let m1 = m0\<lparr>bm_bodyIdx := sz_add (bm_bodyIdx m0) numCopy\<rparr>;
              finished = unat (bm_length m1) \<le> bm_bodyIdx m1;
              m2 = (if finished then m1\<lparr>bm_bodyIdx := 0\<rparr> else m1)
          in Inr ((Error_none, finished, copied), m2)))"

definition Binary_message :: "'v binary_message MessageLike" where
  "Binary_message =
     \<lparr>consumeHeaderSome = bm_consumeHeaderSome, consumeBodySome = bm_consumeBodySome,
      produceHeaderSome = bm_produceHeaderSome, produceBodySome = bm_produceBodySome\<rparr>"

lemma Binary_message_ops [simp]:
  "consumeHeaderSome Binary_message = bm_consumeHeaderSome"
  "consumeBodySome Binary_message = bm_consumeBodySome"
  "produceHeaderSome Binary_message = bm_produceHeaderSome"
  "produceBodySome Binary_message = bm_produceBodySome"
  by (simp_all add: Binary_message_def)


subsection \<open>Writing\<close>

text \<open>A message ready to be sent: its buffer has the length that is announced.\<close>

definition bm_ready :: "'v binary_message \<Rightarrow> bool" where
  "bm_ready m \<longleftrightarrow>
     bm_headIdx m < 8 \<and> length (bm_buffer m) = unat (bm_length m) \<and> bm_bodyIdx m \<le> length (bm_buffer m)"

definition bm_hdr :: "'v binary_message \<Rightarrow> byte list" where
  "bm_hdr m = drop (bm_headIdx m) (big_endian (bm_length m))"

definition bm_bod :: "'v binary_message \<Rightarrow> byte list" where
  "bm_bod m = drop (bm_bodyIdx m) (bm_buffer m)"

lemma memory_byteswap [simp]: "memory_bytes (byteswap (w :: 64 word)) = big_endian w"
  using memory_big_endian [of w] by (simp add: to_big_endian_def)

lemma unat_64_less [simp]: "unat (w :: 64 word) < sz_modulus"
  using unsigned_less [of w] by (simp add: sz_modulus_def)

lemma bm_sized_ready: "bm_ready m \<Longrightarrow> bm_sized m = Inr m"
  by (simp add: bm_ready_def bm_sized_def)

lemma bm_produceHeader_eq:
  assumes "bm_headIdx m < 8"
  shows "bm_produceHeaderSome m k =
    (let n = min k (length (bm_hdr m)) in
       Inr ((Error_none, length (bm_hdr m) \<le> k, take n (bm_hdr m)),
            m\<lparr>bm_headIdx := (if length (bm_hdr m) \<le> k then 0 else bm_headIdx m + n)\<rparr>))"
proof -
  have n: "sz_sub 8 (bm_headIdx m) = 8 - bm_headIdx m"
    using assms by (intro sz_sub_small) (auto simp: sz_modulus_def)
  have "sz_add (bm_headIdx m) (min k (8 - bm_headIdx m)) = bm_headIdx m + min k (8 - bm_headIdx m)"
    using assms by (intro sz_add_small) (auto simp: sz_modulus_def min_def)
  then show ?thesis
    using assms by (auto simp: bm_produceHeaderSome_def n bm_hdr_def mem_load_ok Let_def min_def)
qed

lemma bm_produceBody_eq:
  assumes "bm_ready m"
  shows "bm_produceBodySome m k =
    (let n = min k (length (bm_bod m)) in
       Inr ((Error_none, length (bm_bod m) \<le> k, take n (bm_bod m)),
            m\<lparr>bm_bodyIdx := (if length (bm_bod m) \<le> k then 0 else bm_bodyIdx m + n)\<rparr>))"
proof -
  let ?L = "unat (bm_length m)"
  have b: "length (bm_buffer m) = ?L" "bm_bodyIdx m \<le> ?L" using assms by (simp_all add: bm_ready_def)
  have n: "sz_sub ?L (bm_bodyIdx m) = ?L - bm_bodyIdx m" using b(2) by (intro sz_sub_small) auto
  have add: "sz_add (bm_bodyIdx m) i = bm_bodyIdx m + i" if "i \<le> ?L - bm_bodyIdx m" for i
  proof -
    have "bm_bodyIdx m + i \<le> ?L" using that b(2) by (simp add: le_diff_conv2 add.commute)
    then show ?thesis using le_less_trans unat_64_less by (intro sz_add_small) blast
  qed
  show ?thesis
  proof (cases "k < ?L - bm_bodyIdx m")
    case True
    then show ?thesis
      using b add [of k] by (simp add: bm_produceBodySome_def bm_sized_ready [OF assms] n bm_bod_def
          mem_load_ok Let_def min_def le_diff_conv2 not_le less_diff_conv add.commute)
  next
    case False
    then show ?thesis
      using b add [of "?L - bm_bodyIdx m"] by (simp add: bm_produceBodySome_def bm_sized_ready [OF assms] n
          bm_bod_def mem_load_ok Let_def min_def)
  qed
qed

interpretation binary_producer: message_producer Binary_message bm_ready
    "\<lambda>m. bm_ready m" bm_hdr bm_bod
proof unfold_locales
  fix m :: "'v binary_message" and k
  assume m: "bm_ready m"
  show "\<exists>m'. produceHeaderSome Binary_message m k = Inr ((Error_none, False, take k (bm_hdr m)), m') \<and>
      bm_ready m' \<and> bm_hdr m' = drop k (bm_hdr m) \<and> bm_bod m' = bm_bod m"
    if "k < length (bm_hdr m)"
    using that m bm_produceHeader_eq [of m k]
    by (auto simp: bm_ready_def bm_hdr_def bm_bod_def add.commute min_def)
  show "\<exists>m'. produceHeaderSome Binary_message m k = Inr ((Error_none, True, bm_hdr m), m') \<and>
      bm_ready m' \<and> bm_bod m' = bm_bod m"
    if "length (bm_hdr m) \<le> k"
    using that m bm_produceHeader_eq [of m k] by (auto simp: bm_ready_def bm_bod_def)
  show "\<exists>m'. produceBodySome Binary_message m k = Inr ((Error_none, False, take k (bm_bod m)), m') \<and>
      bm_ready m' \<and> bm_bod m' = drop k (bm_bod m)"
    if "k < length (bm_bod m)"
    using that m bm_produceBody_eq [OF m, of k]
    by (auto simp: bm_ready_def bm_bod_def add.commute min_def)
  show "\<exists>m'. produceBodySome Binary_message m k = Inr ((Error_none, True, bm_bod m), m')"
    if "length (bm_bod m) \<le> k"
    using that bm_produceBody_eq [OF m, of k] by auto
qed



subsection \<open>Reading\<close>

text \<open>A fresh message in front of a header that announces \<open>payload\<close>, and one inside it.\<close>

definition length_header :: "byte list \<Rightarrow> byte list" where
  "length_header payload = big_endian (of_nat (length payload) :: 64 word)"

definition bm_expects_header :: "byte list \<Rightarrow> 'v binary_message \<Rightarrow> byte list \<Rightarrow> bool" where
  "bm_expects_header payload m h \<longleftrightarrow>
     bm_headIdx m = 0 \<and> bm_bodyIdx m = 0 \<and> length payload \<le> max_size \<and> h = length_header payload"

definition bm_expects_body :: "byte list \<Rightarrow> 'v binary_message \<Rightarrow> byte list \<Rightarrow> bool" where
  "bm_expects_body payload m b \<longleftrightarrow>
     length payload \<le> max_size \<and> unat (bm_length m) = length payload \<and>
     (\<exists>p. payload = p @ b \<and> bm_bodyIdx m = length p \<and> take (length p) (bm_buffer m) = p \<and>
        (length (bm_buffer m) = length payload \<or> p = []))"

definition bm_received :: "byte list \<Rightarrow> 'v binary_message \<Rightarrow> bool" where
  "bm_received payload m \<longleftrightarrow> bm_buffer m = payload"

lemma bm_header_whole:
  assumes "bm_headIdx m = 0" and "length h = 8"
  shows "bm_consumeHeaderSome m (h @ x) =
    Inr ((Error_none, True, 8), m\<lparr>bm_length := byteswap (from_memory h), bm_headIdx := 8\<rparr>)"
proof -
  have "sz_sub 8 0 = 8" "sz_add 0 8 = 8" by (simp_all add: sz_sub_def sz_add_def sz_modulus_def)
  then show ?thesis
    using assms by (simp add: bm_consumeHeaderSome_def Let_def mem_store_ok)
qed

lemma bm_header_announces:
  assumes "bm_expects_header payload m h"
  shows "\<exists>m'. bm_consumeHeaderSome m h = Inr ((Error_none, True, length h), m') \<and>
    bm_expects_body payload m' payload"
proof -
  have h: "h = big_endian (of_nat (length payload) :: 64 word)" "length h = 8" "bm_headIdx m = 0"
      "bm_bodyIdx m = 0" "length payload \<le> max_size"
    using assms by (simp_all add: bm_expects_header_def length_header_def)
  have "byteswap (from_memory h) = (of_nat (length payload) :: 64 word)"
    using from_big_endian_bytes [of "of_nat (length payload) :: 64 word"] h(1)
    by (simp add: from_big_endian_def to_big_endian_def)
  moreover have "unat (of_nat (length payload) :: 64 word) = length payload"
    using h(5) by (simp add: unat_of_nat max_size_def)
  ultimately show ?thesis
    using bm_header_whole [OF h(3,2), of "[]"] h by (auto simp: bm_expects_body_def)
qed

lemma bm_body_step:
  assumes "bm_expects_body payload m (b1 @ b2)" and "b2 = [] \<or> x = []"
  shows "\<exists>m'. bm_consumeBodySome m (b1 @ x) = Inr ((Error_none, b2 = [], length b1), m') \<and>
    bm_expects_body payload m' b2 \<and> (b2 = [] \<longrightarrow> bm_received payload m')"
proof -
  obtain p where p: "payload = p @ b1 @ b2" "bm_bodyIdx m = length p" "take (length p) (bm_buffer m) = p"
      "length (bm_buffer m) = length payload \<or> p = []"
    and len: "length payload \<le> max_size" "unat (bm_length m) = length payload"
    using assms(1) by (auto simp: bm_expects_body_def)
  define buf where "buf = resize (length payload) (bm_buffer m)"
  have "p \<noteq> [] \<Longrightarrow> buf = bm_buffer m"
    using p(4) resize_id [of "bm_buffer m"] by (simp add: buf_def)
  then have buf: "length buf = length payload" "take (length p) buf = p"
    using p(3) by (auto simp: buf_def) (cases "p = []"; simp)
  have sized: "bm_sized m = Inr (m\<lparr>bm_buffer := buf\<rparr>)"
  proof (cases "length (bm_buffer m) = length payload")
    case True
    then have "buf = bm_buffer m" using resize_id [of "bm_buffer m"] by (simp add: buf_def)
    then show ?thesis using True len by (simp add: bm_sized_def)
  next
    case False
    then show ?thesis using len by (simp add: bm_sized_def buf_def)
  qed
  have n: "sz_sub (length payload) (length p) = length (b1 @ b2)"
    using p(1) len(1) max_size_less [of "length payload"] by (subst sz_sub_small) auto
  have a: "sz_add (length p) (length b1) = length p + length b1"
    using p(1) len(1) max_size_less [of "length payload"] by (intro sz_add_small) auto
  have m: "min (length (b1 @ x)) (length (b1 @ b2)) = length b1" using assms(2) by auto
  have st: "mem_store buf (length p) b1 = Inr (p @ b1 @ drop (length p + length b1) buf)"
    using buf p(1) by (simp add: mem_store_ok)
  let ?m = "m\<lparr>bm_buffer := p @ b1 @ drop (length p + length b1) buf, bm_bodyIdx := length p + length b1\<rparr>"
  have "bm_consumeBodySome m (b1 @ x) = Inr ((Error_none, length payload \<le> length p + length b1, length b1), ?m)"
    using sized n a m st p(2) len(2) by (simp add: bm_consumeBodySome_def Let_def)
  moreover have "length payload \<le> length p + length b1 \<longleftrightarrow> b2 = []" using p(1) by simp
  moreover have "bm_expects_body payload ?m b2"
    using p(1) len buf(1) by (auto simp: bm_expects_body_def intro!: exI [of _ "p @ b1"])
  moreover have "b2 = [] \<longrightarrow> bm_received payload ?m"
    using p(1) buf(1) by (simp add: bm_received_def)
  ultimately show ?thesis by auto
qed

interpretation binary_consumer: header_consumer Binary_message
    "bm_expects_body payload" "bm_received payload" payload "bm_expects_header payload"
  for payload
proof unfold_locales
  fix m :: "'v binary_message" and b1 b2 b x h
  show "\<exists>m'. consumeBodySome Binary_message m b1 = Inr ((Error_none, False, length b1), m') \<and>
      bm_expects_body payload m' b2"
    if "bm_expects_body payload m (b1 @ b2)" "b2 \<noteq> []"
    using bm_body_step [OF that(1), of "[]"] that(2) by auto
  show "\<exists>m'. consumeBodySome Binary_message m (b @ x) = Inr ((Error_none, True, length b), m') \<and>
      bm_received payload m'"
    if "bm_expects_body payload m b"
    using bm_body_step [of payload m b "[]" x] that by auto
  show "\<exists>m'. consumeHeaderSome Binary_message m h = Inr ((Error_none, True, length h), m') \<and>
      bm_expects_body payload m' payload"
    if "bm_expects_header payload m h" "h \<noteq> []"
    using bm_header_announces [OF that(1)] by simp
qed


subsection \<open>A header in two pieces\<close>

text \<open>
  After a first piece of \<open>j\<close> bytes the bytes of \<open>length_\<close> are reversed, so the second piece
  goes behind the last \<open>j\<close> of the old bytes, and the first piece is lost or misplaced.
\<close>

lemma bm_header_split:
  assumes "bm_headIdx m = 0" and "h1 \<noteq> []" and "h2 \<noteq> []" and "length (h1 @ h2) = 8"
  shows "\<exists>m1 m2. bm_consumeHeaderSome m h1 = Inr ((Error_none, False, length h1), m1) \<and>
    bm_consumeHeaderSome m1 h2 = Inr ((Error_none, True, length h2), m2) \<and>
    big_endian (bm_length m2) =
      take (length h1) (rev (drop (length h1) (memory_bytes (bm_length m))) @ rev h1) @ h2"
proof -
  let ?x = "memory_bytes (bm_length m)" and ?j = "length h1"
  let ?L1 = "byteswap (from_memory (h1 @ drop ?j ?x)) :: 64 word"
  let ?m1 = "m\<lparr>bm_length := ?L1, bm_headIdx := ?j\<rparr>"
  have j: "?j < 8" "0 < ?j" "length h2 = 8 - ?j" using assms(2-4) by (cases h1; cases h2; simp)+
  have z: "sz_sub 8 0 = 8" "sz_add 0 ?j = ?j" "sz_sub 8 ?j = 8 - ?j" "sz_add ?j (8 - ?j) = 8"
    using j by (simp_all add: sz_simps sz_modulus_def)
  have first: "bm_consumeHeaderSome m h1 = Inr ((Error_none, False, ?j), ?m1)"
    using assms(1) z j by (simp add: bm_consumeHeaderSome_def Let_def mem_store_ok min_def)
  have mem: "memory_bytes ?L1 = rev (drop ?j ?x) @ rev h1"
    using j by (simp add: big_endian_def memory_from_memory)
  let ?y = "take ?j (memory_bytes ?L1) @ h2"
  let ?L2 = "byteswap (from_memory ?y) :: 64 word"
  have "bm_consumeHeaderSome ?m1 h2 = Inr ((Error_none, True, length h2), ?m1\<lparr>bm_length := ?L2, bm_headIdx := 8\<rparr>)"
    using z j by (simp add: bm_consumeHeaderSome_def Let_def mem_store_ok)
  moreover have "memory_bytes (byteswap ?L2) = ?y"
    using j by (simp add: byteswap_byteswap memory_from_memory)
  then have "big_endian ?L2 = ?y" by simp
  ultimately show ?thesis using first mem by (intro exI [of _ ?m1] exI) auto
qed

text \<open>A message that has taken a header takes no other: the index is not set back.\<close>

lemma bm_header_again:
  assumes "bm_headIdx m = 8"
  shows "bm_consumeHeaderSome m data =
    Inr ((Error_none, True, 0), m\<lparr>bm_length := byteswap (bm_length m)\<rparr>)"
proof -
  have "sz_sub 8 8 = 0" "sz_add 8 0 = 8" by (simp_all add: sz_sub_def sz_add_def sz_modulus_def)
  then show ?thesis
    using assms from_memory_bytes [of "bm_length m"]
    by (simp add: bm_consumeHeaderSome_def Let_def mem_store_def)
qed


subsection \<open>Packing and unpacking\<close>

context packable
begin

lemma bm_pack_ok:
  assumes "valid (bm_value m)" and "length (fst (pack (bm_value m))) < 2 ^ 64"
  shows "\<exists>m'. bm_pack pack initial m = Inr (Error_none, m') \<and> bm_ready m' \<and> bm_value m' = initial \<and>
    bm_hdr m' = length_header (fst (pack (bm_value m))) \<and> bm_bod m' = fst (pack (bm_value m))"
  using roundtrip [OF assms(1)] assms(2)
  by (simp add: carries_def bm_pack_def back_insert_def bm_ready_def bm_hdr_def bm_bod_def
      length_header_def Let_def unat_of_nat)

lemma bm_unpack_ok:
  assumes "valid v" and "bm_received (fst (pack v)) m" and "length (fst (pack v)) < 2 ^ 64"
  shows "bm_unpack unpack initial partial m = Inr (Error_none, m\<lparr>bm_value := v, bm_buffer := []\<rparr>)"
  using readsD [of "unpack initial" "fst (pack v)" v "[]" "[]"] roundtrip [OF assms(1)] assms(2,3)
  by (simp add: bm_unpack_def bm_received_def carries_def unpacker_of_def sz_modulus_def)

end

end
