(* ===== verification/BinaryEnds.thy ===== *)
theory BinaryEnds
  imports BinaryMessage ReadEnds
begin

section \<open>Reading a binary message ends\<close>

text \<open>
  The budget of a binary message: the bytes of its length that are missing, and as many
  bytes of a body as a length can announce at most.
\<close>

definition bm_hinv :: "'v binary_message \<Rightarrow> bool" where
  "bm_hinv m \<longleftrightarrow> bm_headIdx m < 8 \<and> bm_bodyIdx m = 0"

definition bm_binv :: "'v binary_message \<Rightarrow> bool" where
  "bm_binv m \<longleftrightarrow> bm_bodyIdx m \<le> unat (bm_length m)"

definition bm_budget :: "'v binary_message \<Rightarrow> nat" where
  "bm_budget m = (8 - bm_headIdx m) + (sz_modulus - bm_bodyIdx m)"

lemma bm_header_progress:
  assumes "bm_hinv m" and "data \<noteq> []" and "bm_consumeHeaderSome m data = Inr ((Error_none, complete, n), m')"
  shows "(if complete then bm_binv m' else bm_hinv m') \<and> bm_budget m' < bm_budget m"
proof -
  let ?k = "min (length data) (8 - bm_headIdx m)"
  have idx: "bm_headIdx m < 8" "bm_bodyIdx m = 0" using assms(1) by (simp_all add: bm_hinv_def)
  have w: "sz_sub 8 (bm_headIdx m) = 8 - bm_headIdx m" using idx by (intro sz_sub_small) (simp_all add: sz_modulus_def)
  have add: "sz_add (bm_headIdx m) ?k = bm_headIdx m + ?k" using idx by (intro sz_add_small) (simp add: sz_modulus_def)
  obtain len where m': "m' = m\<lparr>bm_length := len, bm_headIdx := bm_headIdx m + ?k\<rparr>"
    and complete: "complete \<longleftrightarrow> 8 \<le> bm_headIdx m + ?k"
    using assms(3) by (auto simp: bm_consumeHeaderSome_def Let_def bind_result_Inr_iff w add)
  have "0 < ?k" using assms(2) idx by simp
  moreover define K where "K = ?k"
  ultimately show ?thesis
    using m' complete idx unfolding K_def [symmetric] by (auto simp: bm_hinv_def bm_binv_def bm_budget_def)
qed

lemma bm_body_progress:
  assumes "bm_binv m" and "bm_consumeBodySome m data = Inr ((Error_none, False, n), m')"
  shows "bm_binv m' \<and> bm_budget m' \<le> bm_budget m \<and> (data \<noteq> [] \<longrightarrow> bm_budget m' < bm_budget m)"
proof -
  let ?k = "min (length data) (unat (bm_length m) - bm_bodyIdx m)"
  have idx: "bm_bodyIdx m \<le> unat (bm_length m)" using assms(1) by (simp add: bm_binv_def)
  have w: "sz_sub (unat (bm_length m)) (bm_bodyIdx m) = unat (bm_length m) - bm_bodyIdx m"
    using idx unat_64_less [of "bm_length m"] by (intro sz_sub_small) simp_all
  have "bm_bodyIdx m + ?k \<le> unat (bm_length m)" using idx by auto
  then have "bm_bodyIdx m + ?k < sz_modulus" by (rule le_less_trans) (rule unat_64_less)
  then have add: "sz_add (bm_bodyIdx m) ?k = bm_bodyIdx m + ?k" by (rule sz_add_small)
  obtain m0 where sized: "bm_sized m = Inr m0"
    using assms(2) by (auto simp: bm_consumeBodySome_def bind_result_Inr_iff)
  have "\<exists>buf. m0 = m\<lparr>bm_buffer := buf\<rparr>"
  proof (cases "length (bm_buffer m) = unat (bm_length m)")
    case True
    with sized have "m0 = m\<lparr>bm_buffer := bm_buffer m\<rparr>" by (simp add: bm_sized_def)
    then show ?thesis by blast
  next
    case False
    with sized show ?thesis by (auto simp: bm_sized_def bind_result_Inr_iff)
  qed
  with sized obtain buf where m0: "bm_sized m = Inr (m\<lparr>bm_buffer := buf\<rparr>)" by blast
  then obtain buf' where m': "m' = m\<lparr>bm_buffer := buf', bm_bodyIdx := bm_bodyIdx m + ?k\<rparr>"
    and more: "bm_bodyIdx m + ?k < unat (bm_length m)"
    using assms(2) by (auto simp: bm_consumeBodySome_def Let_def bind_result_Inr_iff w add)
  then have k: "?k = length data" "bm_bodyIdx m + length data < unat (bm_length m)" using idx by auto
  have "bm_bodyIdx m + length data < sz_modulus" using k(2) unat_64_less by (rule less_trans)
  with m' k show ?thesis by (cases data) (auto simp: bm_binv_def bm_budget_def)
qed

interpretation binary_reads: progressing_consumer Binary_message bm_hinv bm_binv "\<lambda>_. True" bm_budget
proof
  fix m :: "'v binary_message" and data complete n m'
  show "(if complete then bm_binv m' else bm_hinv m') \<and> bm_budget m' < bm_budget m"
    if "bm_hinv m" "data \<noteq> []" "consumeHeaderSome Binary_message m data = Inr ((Error_none, complete, n), m')"
    using bm_header_progress [OF that(1,2), of complete n m'] that(3) by simp
  show "bm_binv m' \<and> bm_budget m' \<le> bm_budget m \<and> (data \<noteq> [] \<longrightarrow> bm_budget m' < bm_budget m)"
    if "bm_binv m" "consumeBodySome Binary_message m data = Inr ((Error_none, False, n), m')"
    using bm_body_progress [OF that(1), of data n m'] that(2) by simp
qed simp

end
