(* ===== verification/Pipelining.thy ===== *)
theory Pipelining
  imports HttpRequestSpec
begin

section \<open>Bytes behind a header\<close>

text \<open>
  \<open>consumeHeaderSome\<close> does not stop at the end of the header: it scans all bytes it is
  given and decides by the state of the scan behind the last one. Here is what becomes of
  bytes that come in one segment with the end of a header, as those of a pipelined request.
\<close>

lemma header_scan_append:
  "header_scan st n i (xs @ ys) = (case header_scan st n i xs of (st', k) \<Rightarrow> header_scan st' k (i + length xs) ys)"
proof (induction xs arbitrary: st n i)
  case (Cons c xs)
  then show ?case by (simp add: Let_def split: prod.split)
qed simp

text \<open>A byte other than CR and LF forgets the state.\<close>

lemma scan_step_plain: "c \<noteq> 13 \<Longrightarrow> c \<noteq> 10 \<Longrightarrow> scan_step st c = (c, 0)"
  by (cases st) simp

lemma scan_from_any:
  assumes "t \<noteq> []" and "hd t \<noteq> 13" and "hd t \<noteq> 10"
  shows "foldl scan_step st t = foldl scan_step (0, 0) t" and "quiet st (butlast t) \<longleftrightarrow> quiet (0, 0) (butlast t)"
  using assms by (cases t; cases "butlast t"; simp add: scan_step_plain split: if_splits)+

lemma header_scan_header:
  assumes "header_ends t" and "t' = [] \<or> hd t \<noteq> 13 \<and> hd t \<noteq> 10"
  shows "header_scan (scan t') n i t = (scan t, i + length t)"
proof -
  have "scan t' = (0, 0) \<or> hd t \<noteq> 13 \<and> hd t \<noteq> 10" using assms(2) by (auto simp: scan_def)
  then have "quiet (scan t') (butlast t)" "foldl scan_step (scan t') t = scan t"
    using assms(1) scan_from_any [of t "scan t'"] by (auto simp: header_ends_def scan_def)
  with assms(1) header_scan_end [of t "scan t'" n i] show ?thesis
    by (auto simp: header_ends_def)
qed

lemma request_text_hd:
  "is_name meth \<Longrightarrow> hd (request_text meth tgt k hs) \<noteq> 13 \<and> hd (request_text meth tgt k hs) \<noteq> 10"
  using separators_no_token by (cases meth) (auto simp: is_name_def request_text_def)

text \<open>One call on a fresh request, by the result of the scan.\<close>

lemma consume_header_fresh:
  assumes "length hb < sz_modulus" and "length data \<le> length hb" and "k \<le> length data"
    and "header_scan (0, 0) (length data) 0 data = ((p, f), k)" and "f = 4 \<or> k \<noteq> length hb"
  shows "rq_consumeHeaderSome (request_span hb) data =
    (let r = (request_span hb)\<lparr>rq_headerBuffer := take k data @ drop k hb, rq_headerBufferIdx := k,
                               rq_last := p, rq_numFound := f\<rparr>
     in if f = 4 then
          bind_result (request_deserialize r) (\<lambda>(success, r').
            if \<not> success then Inr ((Error_of INVALID_MESSAGE, True, 0), r')
            else Inr ((Error_none, True, k), r'))
        else Inr ((Error_none, False, k), r))"
proof -
  have "sz_add 0 k = k" "sz_sub (length hb) 0 = length hb"
    using assms(1-3) by (simp_all add: sz_simps)
  then show ?thesis
    using assms by (auto simp: rq_consumeHeaderSome_def request_span_def Let_def mem_load_def mem_store_def cong: if_cong)
qed

lemma pipelined_header:
  assumes wf: "well_formed m1 t1 k1 hs1" "well_formed m2 t2 k2 hs2" and ok: "\<not> bad_length hs1" "target_path t1 \<noteq> []"
    and len: "length (request_text m1 t1 k1 hs1 @ request_text m2 t2 k2 hs2) \<le> length hb" "length hb < 2 ^ 31"
  shows "rq_consumeHeaderSome (request_span hb) (request_text m1 t1 k1 hs1 @ request_text m2 t2 k2 hs2) =
    Inr ((Error_none, True, length (request_text m1 t1 k1 hs1 @ request_text m2 t2 k2 hs2)),
         parsed (buffered (request_span hb) (request_text m1 t1 k1 hs1 @ request_text m2 t2 k2 hs2)) m1 t1 k1 hs1)"
proof -
  let ?a = "request_text m1 t1 k1 hs1" and ?b = "request_text m2 t2 k2 hs2"
  have ends: "header_ends ?a" "header_ends ?b"
    using wf by (auto simp: well_formed_def intro: request_text_ends)
  have hd: "hd ?b \<noteq> 13 \<and> hd ?b \<noteq> 10" using wf(2) request_text_hd by (auto simp: well_formed_def)
  have first: "header_scan (0, 0) (length (?a @ ?b)) 0 ?a = (scan ?a, length ?a)"
    using header_scan_header [OF ends(1), of "[]" "length (?a @ ?b)" 0] by (simp add: scan_def)
  have scan: "header_scan (0, 0) (length (?a @ ?b)) 0 (?a @ ?b) = (scan ?b, length (?a @ ?b))"
    unfolding header_scan_append first using header_scan_header [OF ends(2), of ?a "length ?a" "length ?a"] hd by simp
  have both: "scan (?a @ ?b) = scan ?b"
    using scan_from_any(1) [of ?b "scan ?a"] hd ends(2) by (auto simp: scan_append header_ends_def) (simp add: scan_def)
  obtain p f where pf: "scan ?b = (p, f)" by (cases "scan ?b")
  with ends(2) have f: "f = 4" by (simp add: header_ends_def)
  have small: "length hb < sz_modulus" using len(2) by (simp add: sz_modulus_def)
  let ?r = "buffered (request_span hb) (?a @ ?b)"
  have r: "(request_span hb)\<lparr>rq_headerBuffer := take (length (?a @ ?b)) (?a @ ?b) @ drop (length (?a @ ?b)) hb,
      rq_headerBufferIdx := length (?a @ ?b), rq_last := p, rq_numFound := f\<rparr> = ?r"
    using both pf by (simp add: buffered_def request_span_def)
  have "request_deserialize ?r = Inr (True, parsed ?r m1 t1 k1 hs1)"
    using request_deserialize_text [OF wf(1), of ?r "?b @ drop (length (?a @ ?b)) hb"] ok len
    by (simp add: unparsed_def buffered_def request_span_def)
  with consume_header_fresh [OF small len(1) order_refl scan [unfolded pf]] f show ?thesis
    unfolding Let_def r by simp
qed

text \<open>Bytes of a body behind the header: the header is not finished.\<close>

lemma header_with_body:
  assumes wf: "well_formed meth tgt k hs" and x: "plain x" "x \<noteq> []"
    and len: "length (request_text meth tgt k hs @ x) \<le> length hb" "length hb < 2 ^ 31"
  shows "rq_consumeHeaderSome (request_span hb) (request_text meth tgt k hs @ x) =
    Inr ((Error_none, False, length (request_text meth tgt k hs)),
         (buffered (request_span hb) (request_text meth tgt k hs))\<lparr>rq_last := last x, rq_numFound := 0\<rparr>)"
proof -
  let ?a = "request_text meth tgt k hs"
  have ends: "header_ends ?a" using wf by (auto simp: well_formed_def intro: request_text_ends)
  have first: "header_scan (0, 0) (length (?a @ x)) 0 ?a = (scan ?a, length ?a)"
    using header_scan_header [OF ends, of "[]" "length (?a @ x)" 0] by (simp add: scan_def)
  have rest: "header_scan st n i x = ((last x, 0), n)" for st n i
    using x
  proof (induction x arbitrary: st i)
    case (Cons c x)
    then have "scan_step st c = (c, 0)" by (intro scan_step_plain) (auto simp: plain_def)
    with Cons show ?case by (cases "x = []") (auto simp: plain_def)
  qed simp
  have scan: "header_scan (0, 0) (length (?a @ x)) 0 (?a @ x) = ((last x, 0), length ?a)"
    unfolding header_scan_append first using rest by simp
  have small: "length hb < sz_modulus" using len(2) by (simp add: sz_modulus_def)
  have le: "length ?a \<le> length (?a @ x)" "(0 :: 8 word) = 4 \<or> length ?a \<noteq> length hb" using x(2) len(1) by auto
  show ?thesis
    unfolding consume_header_fresh [OF small len(1) le(1) scan le(2)] by (simp add: Let_def buffered_def request_span_def)
qed

end
