(* ===== verification/SessionProperties.thy ===== *)
theory SessionProperties
  imports SessionEnds BinaryEnds Pipelining ExampleSocket
begin

section \<open>Properties of sessions with any peer\<close>

text \<open>
  What holds of a connection whatever its peer sends: its loops end, and what becomes of
  bytes that come in one segment with the end of a header.
\<close>

lemma finite_list_socket: "finite_peer list_socket (\<lambda>s. length (concat (fst s)))"
  by (auto simp: finite_peer_def list_socket_def split: list.splits if_splits)

lemma finite_list_socket_writes:
  "write_contract list_socket snd" "write_keeps list_socket (\<lambda>s. length (concat (fst s)))"
  by (auto simp: write_contract_def write_keeps_def list_socket_def)

text \<open>
  C2. Every session of \<open>TestServer\<close> ends: whatever bytes a peer sends, well-formed or
  not, when it delivers bytes at most \<open>rounds\<close> times the loop of \<open>connect\<close> does not go on
  for ever. It ends in one of two ways: it returns with an error (the end of the
  connection or a refusal), or an operation throws or runs into undefined behaviour, as
  C18 and C22 show that bytes from a peer can make it. Between two waits for the socket the
  loop does not spin: the fuel is a constant and three units for each delivery.
\<close>

theorem session_ends:
  assumes "finite_peer S rounds" and "write_contract S wire" and "write_keeps S rounds"
    and "test_server = Inr R" and "\<forall>i. length (snd (stale i)) = 4096"
    and "turn_limit + 3 * rounds s + 1 < fuel"
  shows "(\<exists>f. connect fuel S R stale 0 (connection_new s) = Some (Inl f)) \<or>
    (\<exists>c e. connect fuel S R stale 0 (connection_new s) = Some (Inr (c, e)) \<and> is_error e)"
proof -
  have "cn_socket (connection_new s) = s" "content (cn_readBuffer (connection_new s)) = []"
    by (simp_all add: connection_new_def content_def static_buffer_new_def)
  with assms(6) have "turn_limit + rounds (cn_socket (connection_new s)) + turns_left rounds (connection_new s) + 1 < fuel"
    by (simp add: turns_left_def)
  from loop_ends [OF assms(1-5) between_turns_new this] obtain r where r:
    "connect fuel S R stale 0 (connection_new s) = Some r" "\<And>c e. r = Inr (c, e) \<Longrightarrow> is_error e" by blast
  show ?thesis
  proof (cases r)
    case (Inl f)
    with r(1) show ?thesis by simp
  next
    case (Inr x)
    with r show ?thesis by (cases x) simp
  qed
qed

theorem session_ends_witness:
  "\<exists>R. test_server = Inr R \<and>
     connect (turn_limit + 20) list_socket R (\<lambda>_. (True, replicate 4096 7)) 0
       (connection_new ([bytes ''GE'', [13, 10, 13, 10]], [])) \<noteq> None"
proof -
  obtain R where R: "test_server = Inr R" using test_server_parts by blast
  from session_ends [OF finite_list_socket finite_list_socket_writes R, of "\<lambda>_. (True, replicate 4096 7)"
      "([bytes ''GE'', [13, 10, 13, 10]], [])" "turn_limit + 20"] R
  show ?thesis by auto
qed

text \<open>
  C4. \<open>Connection::read\<close> ends: whatever stands in the buffer and whatever the peer sends,
  reading a fresh request or a fresh binary message returns, with the message, an error or
  a fault, after a number of passes bounded by the sizes the message can have and the
  deliveries of the peer. When it returns a request, the connection is ready for the next
  read, and either the peer has delivered bytes or the bytes that were left in the buffer
  are used up.
\<close>

theorem reads_end:
  assumes "finite_peer S rounds" and "sb_inv (cn_readBuffer c)" and "length (sb_buffer (cn_readBuffer c)) = 4096"
    and "length hb = 4096" and "4096 + 1024 * 1024 + most_read + rounds (cn_socket c) + 1 < fuel"
    and "8 + 2 ^ 64 + rounds (cn_socket c) + 1 < fuel2"
  shows "(\<exists>r. connection_read fuel S Request_message c (request_span hb) = Some r \<and>
      (\<forall>c' m. r = Inr (c', m, Error_none) \<longrightarrow>
         cn_readState c' = READ_START \<and> sb_inv (cn_readBuffer c') \<and>
         (rounds (cn_socket c') < rounds (cn_socket c) \<or>
          content (cn_readBuffer c) \<noteq> [] \<and> content (cn_readBuffer c') = []))) \<and>
    connection_read fuel2 S Binary_message c (bm_new stale val) \<noteq> None"
proof
  obtain r where "connection_read fuel S Request_message c (request_span hb) = Some r"
    "\<And>c' m. r = Inr (c', m, Error_none) \<Longrightarrow> reads.read_done 4096 (write_side c) c' m \<and>
       (rounds (cn_socket c') < rounds (cn_socket c) \<or>
        rounds (cn_socket c') = rounds (cn_socket c) \<and> content (cn_readBuffer c) \<noteq> [] \<and>
        content (cn_readBuffer c') = [])"
    using request_read_ends [OF assms(1,4,2,3,5)] by blast
  then show "\<exists>r. connection_read fuel S Request_message c (request_span hb) = Some r \<and>
      (\<forall>c' m. r = Inr (c', m, Error_none) \<longrightarrow>
         cn_readState c' = READ_START \<and> sb_inv (cn_readBuffer c') \<and>
         (rounds (cn_socket c') < rounds (cn_socket c) \<or>
          content (cn_readBuffer c) \<noteq> [] \<and> content (cn_readBuffer c') = []))"
    unfolding reads.read_done_def by blast
  have "bm_hinv (bm_new stale val)" "bm_budget (bm_new stale val) = 8 + 2 ^ 64"
    by (simp_all add: bm_hinv_def bm_budget_def bm_new_def sz_modulus_def)
  then show "connection_read fuel2 S Binary_message c (bm_new stale val) \<noteq> None"
    using assms(6) by (intro binary_reads.connection_read_ends [OF assms(1) _ assms(2)]) simp_all
qed

theorem reads_end_witness:
  "connection_read (4096 + 1024 * 1024 + most_read + 10) list_socket Request_message
      (connection_new ([[1, 2, 3], [4]], [])) (request_span (replicate 4096 0)) \<noteq> None \<and>
    connection_read (2 ^ 64 + 20) list_socket Binary_message
      (connection_new ([[1, 2, 3], [4]], [])) (bm_new 0 ()) \<noteq> None"
proof -
  let ?c = "connection_new ([[1, 2, 3], [4]], []) :: (byte list list \<times> byte list) connection"
  have c: "sb_inv (cn_readBuffer ?c)" "length (sb_buffer (cn_readBuffer ?c)) = 4096" "cn_socket ?c = ([[1, 2, 3], [4]], [])"
    by (auto simp: connection_new_def static_buffer_new_def sb_inv_def sz_modulus_def)
  have l: "length (replicate 4096 (0 :: byte)) = 4096" by simp
  have "4096 + 1024 * 1024 + most_read + length (concat (fst (cn_socket ?c))) + 1 < 4096 + 1024 * 1024 + most_read + 10"
    "8 + 2 ^ 64 + length (concat (fst (cn_socket ?c))) + 1 < 2 ^ 64 + 20" by (simp_all add: c(3))
  from reads_end [OF finite_list_socket c(1,2) l this, of 0 "()"] show ?thesis by blast
qed

text \<open>
  C19. \<open>consumeHeaderSome\<close> looks for the end of the header behind the last byte it is
  given, not at the first place it stands. When a whole pipelined request comes in the
  segment of the first, both are taken for the header of the first and the second is lost;
  when a part of the body comes in that segment, without a line break, the header is not
  recognised as finished and the state of the scan starts over.
\<close>

theorem bytes_behind_header:
  assumes "well_formed meth tgt k hs" and "length hb < 2 ^ 31"
    and "well_formed meth' tgt' k' hs'" and "\<not> bad_length hs" and "target_path tgt \<noteq> []"
    and "length (request_text meth tgt k hs @ request_text meth' tgt' k' hs') \<le> length hb"
    and "plain x" and "x \<noteq> []" and "length (request_text meth tgt k hs @ x) \<le> length hb"
  shows "(\<exists>r. rq_consumeHeaderSome (request_span hb) (request_text meth tgt k hs @ request_text meth' tgt' k' hs') =
      Inr ((Error_none, True, length (request_text meth tgt k hs) + length (request_text meth' tgt' k' hs')), r) \<and>
      rq_method r = meth \<and> rq_path r = path_of tgt) \<and>
    (\<exists>r. rq_consumeHeaderSome (request_span hb) (request_text meth tgt k hs @ x) =
      Inr ((Error_none, False, length (request_text meth tgt k hs)), r) \<and>
      rq_last r = last x \<and> rq_numFound r = 0)"
  using pipelined_header [OF assms(1,3,4,5,6,2)] header_with_body [OF assms(1,7,8,9,2)]
  by (simp add: parsed_def parsed_lines_def)

theorem bytes_behind_header_witness:
  "\<exists>r. rq_consumeHeaderSome (request_span (replicate 4096 0))
      (request_text (bytes ''GET'') (bytes ''/a'') 1 [] @ request_text (bytes ''GET'') (bytes ''/b'') 1 []) =
      Inr ((Error_none, True, 38), r) \<and> rq_path r = [bytes ''a'']"
proof -
  have wf: "well_formed (bytes ''GET'') (bytes ''/a'') 1 []" "well_formed (bytes ''GET'') (bytes ''/b'') 1 []"
    "\<not> bad_length []" "target_path (bytes ''/a'') \<noteq> []"
    by (simp_all add: well_formed_def is_name_def is_target_def is_token_char_def token_char_map_def is_ctl_def
        is_blank_def bad_length_def header_lookup_def header_values_def all_fields_def fieldStrArr_def
        fieldStrArrLower_def target_path_def maxNumHeaders_def)
  have len: "length (request_text (bytes ''GET'') (bytes ''/a'') 1 []) = 19"
    "length (request_text (bytes ''GET'') (bytes ''/b'') 1 []) = 19"
    by (simp_all add: request_text_def header_text_def)
  have x: "plain [120]" "[120 :: byte] \<noteq> []" by (simp_all add: plain_def)
  have path: "path_of (bytes ''/a'') = [bytes ''a'']"
    by (simp add: path_of_def target_path_def)
  have "length (request_text (bytes ''GET'') (bytes ''/a'') 1 [] @ request_text (bytes ''GET'') (bytes ''/b'') 1 [])
      \<le> length (replicate 4096 (0 :: byte))"
    "length (request_text (bytes ''GET'') (bytes ''/a'') 1 [] @ [120]) \<le> length (replicate 4096 (0 :: byte))"
    "length (replicate 4096 (0 :: byte)) < 2 ^ 31"
    unfolding length_append len by simp_all
  from bytes_behind_header [OF wf(1) this(3) wf(2-4) this(1) x this(2)] show ?thesis
    unfolding len path by auto
qed

end
