(* ===== verification/PhrResponse.thy ===== *)
theory PhrResponse
  imports PhrRequestSpec HttpTables
begin

section \<open>The response parser and the header parser (\<open>lib/picohttpparser/picohttpparser.c\<close>)\<close>

text \<open>
  \<open>phr_parse_response\<close> and \<open>phr_parse_headers\<close>, in the conventions of the request
  parser. They are incremental parsers, too; the two builds agree; and the text of a
  response parses to that response.
\<close>

definition parse_int_3 :: "byte list \<Rightarrow> int parsed" where
  "parse_int_3 buf =
     pbind (parse_int 100 buf) (\<lambda>(a, b1).
     pbind (parse_int 10 b1) (\<lambda>(b, b2).
     pbind (parse_int 1 b2) (\<lambda>(c, b3). Inr (a + b + c, b3))))"

definition status_code :: "byte list \<Rightarrow> int parsed" where
  "status_code buf = (if length buf < 4 then Inl Partial else parse_int_3 buf)"

text \<open>The message: empty, or behind at least one space; the byte behind it is a line end.\<close>

definition status_message :: "byte list \<Rightarrow> byte list option" where
  "status_message msg =
     (case msg of
        [] \<Rightarrow> Some []
      | c # _ \<Rightarrow> if c = 32 then Some (dropWhile (\<lambda>c. c = 32) msg) else None)"

definition response_line :: "bool \<Rightarrow> byte list \<Rightarrow> (int \<times> int \<times> byte list) parsed" where
  "response_line sse buf =
     pbind (parse_http_version buf) (\<lambda>(minor_version, b1).
     pbind (expect_no_check 32 b1) (\<lambda>(_, b2).
     pbind (skip_spaces b2) (\<lambda>(_, b3).
     pbind (status_code b3) (\<lambda>(status, b4).
     pbind (get_token_to_eol sse b4) (\<lambda>(msg, b5).
       case status_message msg of
         None \<Rightarrow> Inl Malformed
       | Some msg' \<Rightarrow> Inr ((minor_version, status, msg'), b5))))))"

record phr_response =
  ps_minor_version :: int
  ps_status :: int
  ps_msg :: "byte list"
  ps_headers :: "phr_header list"

definition parse_response ::
  "bool \<Rightarrow> nat \<Rightarrow> byte list \<Rightarrow> (phr_error \<times> nat) + phr_response \<times> byte list" where
  "parse_response sse max_headers buf =
     (case response_line sse buf of
        Inl e \<Rightarrow> Inl (e, 0)
      | Inr ((minor_version, status, msg), rest) \<Rightarrow>
          pbind (parse_headers sse max_headers 0 rest) (\<lambda>(headers, rest').
            Inr (\<lparr>ps_minor_version = minor_version, ps_status = status, ps_msg = msg,
                  ps_headers = headers\<rparr>, rest')))"

definition phr_parse_response ::
  "bool \<Rightarrow> byte list \<Rightarrow> nat \<Rightarrow> nat \<Rightarrow> (phr_error \<times> nat) + phr_response \<times> int" where
  "phr_parse_response sse buf max_headers last_len =
     (case (if last_len \<noteq> 0 then is_complete buf last_len else Inr ((), buf)) of
        Inl e \<Rightarrow> Inl (e, 0)
      | Inr _ \<Rightarrow>
          pbind (parse_response sse max_headers buf) (\<lambda>(r, rest).
            Inr (r, int_cast (length buf - length rest))))"

definition phr_parse_headers ::
  "bool \<Rightarrow> byte list \<Rightarrow> nat \<Rightarrow> nat \<Rightarrow> (phr_error \<times> nat) + phr_header list \<times> int" where
  "phr_parse_headers sse buf max_headers last_len =
     (case (if last_len \<noteq> 0 then is_complete buf last_len else Inr ((), buf)) of
        Inl e \<Rightarrow> Inl (e, 0)
      | Inr _ \<Rightarrow>
          pbind (parse_headers sse max_headers 0 buf) (\<lambda>(hs, rest).
            Inr (hs, int_cast (length buf - length rest))))"


subsection \<open>The builds agree, and verdicts stand\<close>

lemma response_line_sse: "response_line sse buf = response_line False buf"
  unfolding response_line_def get_token_to_eol_eq ..

lemma phr_parse_response_sse:
  "phr_parse_response sse buf m last_len = phr_parse_response False buf m last_len"
  unfolding phr_parse_response_def parse_response_def response_line_sse [of sse] parse_headers_sse [of sse] ..

lemma phr_parse_headers_sse:
  "phr_parse_headers sse buf m last_len = phr_parse_headers False buf m last_len"
  unfolding phr_parse_headers_def parse_headers_sse [of sse] ..

text \<open>A version is followed by at least one byte, so the unchecked read is in range.\<close>

lemma parse_http_version_rest:
  assumes "parse_http_version buf = Inr (v, rest)"
  shows "rest \<noteq> []"
proof -
  from assms have len: "9 \<le> length buf" and "rest = tl (drop (Suc (Suc (Suc (Suc (Suc (Suc (Suc 0))))))) buf)"
    by (auto simp: parse_http_version_def expect_chars_prefix parse_int_def
        simp del: expect_chars.simps split: if_splits)
  then have "length rest = length buf - 8" by simp
  with len show ?thesis by auto
qed

lemma expect_no_check_char: "b \<noteq> [] \<Longrightarrow> expect_no_check c b = expect_char c b"
  by (cases b) (simp_all add: expect_no_check_def expect_char_def)

lemma parse_int_3_append:
  "3 \<le> length buf \<Longrightarrow> parse_int_3 (buf @ ys) = pbind (parse_int_3 buf) (\<lambda>(v, r). Inr (v, r @ ys))"
  by (cases buf; cases "tl buf"; cases "tl (tl buf)") (auto simp: parse_int_3_def parse_int_def)

lemma parse_int_3_rest: "parse_int_3 buf = Inr (v, rest) \<Longrightarrow> rest = drop 3 buf"
  by (auto simp: parse_int_3_def parse_int_def pbind_Inr_iff drop_Suc numeral_3_eq_3 split: if_splits)

lemma status_code_incremental: "incremental status_code"
proof
  show "\<exists>c. xs = c @ rest" if "status_code xs = Inr (a, rest)" for xs a rest
    using that parse_int_3_rest [of xs a rest] append_take_drop_id [of 3 xs, symmetric]
    by (auto simp: status_code_def simp del: append_take_drop_id split: if_splits)
  show "status_code (xs @ ys) = Inr (a, rest @ ys)" if "status_code xs = Inr (a, rest)" for xs a rest ys
    using that parse_int_3_append [of xs ys] by (auto simp: status_code_def split: if_splits)
  show "status_code (xs @ ys) = Inl e" if "status_code xs = Inl e" "\<not> waits_partial e" for xs e ys
    using that parse_int_3_append [of xs ys] by (auto simp: status_code_def split: if_splits)
qed

lemma incremental_option:
  "incremental (\<lambda>rest. case r of None \<Rightarrow> Inl Malformed | Some x \<Rightarrow> Inr (f x, rest))"
  by (cases r) (simp_all add: incremental_Inl incremental_Inr)

interpretation response_line: incremental_parser waits_partial "response_line sse" for sse
proof -
  have eq: "response_line sse = (\<lambda>buf. pbind (parse_http_version buf) (\<lambda>(minor_version, b1).
     pbind (expect_char 32 b1) (\<lambda>(_, b2).
     pbind (skip_spaces b2) (\<lambda>(_, b3).
     pbind (status_code b3) (\<lambda>(status, b4).
     pbind (get_token_to_eol sse b4) (\<lambda>(msg, b5).
       case status_message msg of
         None \<Rightarrow> Inl Malformed
       | Some msg' \<Rightarrow> Inr ((minor_version, status, msg'), b5)))))))"
  proof (rule ext)
    fix buf
    show "response_line sse buf = pbind (parse_http_version buf) (\<lambda>(minor_version, b1).
       pbind (expect_char 32 b1) (\<lambda>(_, b2).
       pbind (skip_spaces b2) (\<lambda>(_, b3).
       pbind (status_code b3) (\<lambda>(status, b4).
       pbind (get_token_to_eol sse b4) (\<lambda>(msg, b5).
         case status_message msg of
           None \<Rightarrow> Inl Malformed
         | Some msg' \<Rightarrow> Inr ((minor_version, status, msg'), b5))))))"
    proof (cases "parse_http_version buf")
      case (Inr r)
      then obtain v b1 where v: "parse_http_version buf = Inr (v, b1)" by (cases r) auto
      then show ?thesis
        using expect_no_check_char [OF parse_http_version_rest [OF v]] by (simp add: response_line_def)
    qed (simp add: response_line_def)
  qed
  show "incremental (response_line sse)"
    unfolding eq
    by (intro incremental_pbind parse_http_version_incremental expect_char_incremental
        skip_spaces_incremental status_code_incremental eol.incremental_parser_axioms incremental_option)
qed

lemma parse_response_line_then_headers:
  "parse_response sse m = line_then_headers (response_line sse)
     (\<lambda>(minor_version, status, msg) headers.
        \<lparr>ps_minor_version = minor_version, ps_status = status, ps_msg = msg, ps_headers = headers\<rparr>) sse m"
  by (rule ext) (auto simp: parse_response_def line_then_headers_def split: sum.splits)

interpretation response: incremental_parser waits_counted "parse_response sse m" for sse m
  unfolding parse_response_line_then_headers
  by (rule incremental_line_then_headers) (rule response_line.incremental_parser_axioms)


subsection \<open>Round trip\<close>

text \<open>A response as a server writes it; the reason may be empty.\<close>

definition response_text ::
  "nat \<Rightarrow> nat \<times> nat \<times> nat \<Rightarrow> byte list \<Rightarrow> (byte list \<times> byte list) list \<Rightarrow> byte list" where
  "response_text minor code reason hs = (case code of (a, b, c) \<Rightarrow>
     [72, 84, 84, 80, 47, 49, 46, digit_byte minor, 32, digit_byte a, digit_byte b, digit_byte c, 32] @ reason @ [13, 10] @
     concat (map header_text hs) @ [13, 10])"

lemma parse_int_digit: "d < 10 \<Longrightarrow> parse_int mul (digit_byte d # xs) = Inr (mul * int d, xs)"
  by (simp add: parse_int_def word_less_nat_alt unat_digit_byte)

lemma digit_no_space: "d < 10 \<Longrightarrow> digit_byte d \<noteq> 32"
  using unat_digit_byte [of d] by auto

lemma status_message_reason:
  assumes "is_value reason"
  shows "status_message (32 # reason) = Some reason"
  using assms by (cases reason) (auto simp: status_message_def is_value_def is_blank_def)

lemma response_line_text:
  assumes "minor < 10" and "a < 10" and "b < 10" and "c < 10" and "is_value reason"
  shows "response_line sse ([72, 84, 84, 80, 47, 49, 46, digit_byte minor, 32, digit_byte a, digit_byte b, digit_byte c, 32] @
      reason @ 13 # 10 # xs) = Inr ((int minor, int (100 * a + 10 * b + c), reason), xs)"
proof -
  have "list_all (\<lambda>c. \<not> is_ctl c) (32 # reason)"
    using assms(5) by (simp add: is_value_def is_ctl_def)
  from eol_loop_value [OF this, of "10 # xs"]
  have "get_token_to_eol sse (32 # reason @ 13 # 10 # xs) = Inr (32 # reason, xs)"
    by (simp add: get_token_to_eol_eq found_ctl_def expect_char_def)
  then show ?thesis
    using parse_http_version_text [OF assms(1)] parse_int_digit [OF assms(2)] parse_int_digit [OF assms(3)]
      parse_int_digit [OF assms(4)] digit_no_space [OF assms(2)] status_message_reason [OF assms(5)]
    by (simp add: response_line_def digit_byte_def [of minor] expect_no_check_def status_code_def parse_int_3_def)
qed

lemma parse_response_text:
  assumes "minor < 10" and "a < 10" and "b < 10" and "c < 10" and "is_value reason"
    and "list_all (\<lambda>(name, v). is_name name \<and> is_value v) hs" and "length hs \<le> m"
  shows "parse_response sse m (response_text minor (a, b, c) reason hs @ xs) =
    Inr (\<lparr>ps_minor_version = int minor, ps_status = int (100 * a + 10 * b + c), ps_msg = reason,
          ps_headers = map parsed_header hs\<rparr>, xs)"
  using response_line_text [OF assms(1-5)] parse_headers_text [OF assms(6), of 0 m] assms(7)
  by (simp add: parse_response_def response_text_def)

lemma phr_parse_response_text:
  assumes "minor < 10" and "a < 10" and "b < 10" and "c < 10" and "is_value reason"
    and "list_all (\<lambda>(name, v). is_name name \<and> is_value v) hs" and "length hs \<le> m"
    and "length (response_text minor (a, b, c) reason hs) < 2 ^ 31"
  shows "phr_parse_response sse (response_text minor (a, b, c) reason hs @ xs) m 0 =
    Inr (\<lparr>ps_minor_version = int minor, ps_status = int (100 * a + 10 * b + c), ps_msg = reason,
          ps_headers = map parsed_header hs\<rparr>, int (length (response_text minor (a, b, c) reason hs)))"
  using parse_response_text [OF assms(1-7)] int_cast_small [OF assms(8)] by (simp add: phr_parse_response_def)

lemma phr_parse_response_prefix:
  assumes "minor < 10" and "a < 10" and "b < 10" and "c < 10" and "is_value reason"
    and "list_all (\<lambda>(name, v). is_name name \<and> is_value v) hs" and "length hs \<le> m"
    and "n < length (response_text minor (a, b, c) reason hs)"
  shows "\<exists>k. phr_parse_response sse (take n (response_text minor (a, b, c) reason hs)) m 0 = Inl (Partial, k)"
proof -
  let ?t = "response_text minor (a, b, c) reason hs"
  have "drop n ?t \<noteq> []" using assms(8) by simp
  from response.proper_prefix_waits [OF _ this, of sse m "take n ?t" "[]"] parse_response_text [OF assms(1-7), of sse "[]"]
  show ?thesis by (auto simp: phr_parse_response_def waits_counted_def simp flip: append_assoc)
qed

end
