(* ===== verification/MsgpackTyped.thy ===== *)
theory MsgpackTyped
  imports MsgpackSafe
begin

section \<open>MessagePack: what is unpacked is well-formed\<close>

text \<open>
  The other direction of the round trip. Whatever bytes a value is unpacked from, it
  satisfies the validity of its type (strings and containers of a length that can be
  packed, maps without a key twice), so it can be packed, and unpacking that gives it
  back. The locale \<open>typed_reader\<close> is closed under pairs, collections and maps, so that
  nested types are covered; \<open>repackable\<close> joins it with \<open>packable\<close>.
\<close>

locale typed_reader =
  fixes unpack :: "'v unpack_op" and initial :: 'v and valid :: "'v \<Rightarrow> bool"
  assumes typed: "L \<le> int_max \<Longrightarrow> safe L (Suc 0) valid (unpack initial)"

text \<open>The loop with an invariant on the count of passes and the value.\<close>

lemma unpack_loop_typed:
  assumes "\<And>i s. I i s \<Longrightarrow> safe L (Suc 0) (I (Suc i)) (step s)" and "L \<le> int_max"
    and "in_bounds L u" and "i \<le> up_position u" and "I i s"
    and "unpack_loop step n i s u = Inr (s1, u1)"
  shows "\<exists>j \<le> int_max. I j s1"
  using assms
proof (induction step n i s u rule: unpack_loop.induct)
  case (1 step n i s u)
  have i: "i \<le> int_max" using "1.prems"(2,3,4) by (auto simp: in_bounds_def)
  show ?case
  proof (cases "i < n")
    case False
    with "1.prems"(5,6) i show ?thesis by (auto simp: unpack_loop.simps [of step n i])
  next
    case True
    then obtain s2 u2 where r: "step s u = Inr (s2, u2)" and "i \<noteq> int_max"
      and rest: "unpack_loop step n (i + 1) s2 u2 = Inr (s1, u1)"
      using "1.prems"(6) by (subst (asm) unpack_loop.simps) (auto simp: bind_result_Inr_iff split: if_splits)
    from safeD(2) [OF "1.prems"(1) [OF "1.prems"(5)] "1.prems"(3) r]
    have b: "I (i + 1) s2" "in_bounds L u2" "i + 1 \<le> up_position u2" using "1.prems"(4) by auto
    from "1.IH" [OF True \<open>i \<noteq> int_max\<close> "1.prems"(1,2) b(2,3,1) rest] show ?thesis by blast
  qed
qed

lemma safe_typed_loop:
  assumes "\<And>i s. I i s \<Longrightarrow> safe L (Suc 0) (I (Suc i)) (step s)" and "\<And>s. safe L (Suc 0) any (step s)"
    and "L \<le> int_max" and "I 0 s" and "\<And>j s1. j \<le> int_max \<Longrightarrow> I j s1 \<Longrightarrow> P s1"
  shows "safe L 0 P (unpack_loop step n 0 s)"
proof (rule safeI)
  fix u assume u: "in_bounds L u"
  show "unpack_loop step n 0 s u \<noteq> Inl Undefined_behaviour"
    using unpack_loop_safe(1) [OF assms(2,3) u, of 0] by simp
next
  fix u s1 u1 assume u: "in_bounds L u" and r: "unpack_loop step n 0 s u = Inr (s1, u1)"
  have z: "0 \<le> up_position u" by simp
  from unpack_loop_typed [OF assms(1,3) u z assms(4) r] assms(5) have "P s1" by blast
  with unpack_loop_safe(2) [OF assms(2,3) u z r]
  show "P s1 \<and> up_data u1 = up_data u \<and> up_position u + 0 \<le> up_position u1 \<and> in_bounds L u1" by simp
qed

context typed_reader
begin

lemma collection_typed:
  assumes "L \<le> int_max"
  shows "safe L (Suc 0) (\<lambda>vs. list_all valid vs \<and> length vs \<le> int_max) (unpack_collection unpack initial [])"
proof -
  let ?step = "\<lambda>vs. up_bind (unpack initial) (\<lambda>val. up_return (vs @ [val]))"
  let ?I = "\<lambda>i vs. list_all valid vs \<and> length vs = i"
  have "safe L (Suc 0) (?I (Suc i)) (?step vs)" if "?I i vs" for i vs
    using that by (intro safe_bind [OF typed [OF assms]]) (auto intro!: safe_return)
  moreover have "safe L (Suc 0) any (?step vs)" for vs
    by (intro safe_bind [OF typed [OF assms]]) (auto intro!: safe_return)
  ultimately have loop: "safe L 0 (\<lambda>vs. list_all valid vs \<and> length vs \<le> int_max) (unpack_loop ?step n 0 [])" for n
    using assms by (intro safe_typed_loop [where I = ?I]) auto
  show ?thesis
    unfolding unpack_collection_def
    using assms int_max_le by (intro safe_bind [OF safe_headers(1)] safe_weaken [OF loop]) auto
qed

lemma object_typed:
  assumes "unpack_object unpack initial data = Inr v" and "length data \<le> int_max"
  shows "valid v"
proof -
  obtain u1 where "unpack initial (unpacker_of data) = Inr (v, u1)"
    using assms(1) by (auto simp: unpack_object_def bind_result_Inr_iff)
  from safeD(2) [OF typed [OF assms(2)] _ this] show ?thesis by (simp add: in_bounds_def unpacker_of_def)
qed

end

locale typed_readers = fst: typed_reader upa a0 va + snd: typed_reader upb b0 vb
  for upa :: "'a unpack_op" and a0 :: 'a and va :: "'a \<Rightarrow> bool" and upb :: "'b unpack_op" and b0 :: 'b and vb :: "'b \<Rightarrow> bool"

lemma update_typed:
  assumes "list_all (\<lambda>item. va (fst item) \<and> vb (snd item)) m" and "va k" and "vb v" and "distinct (map fst m)"
  shows "list_all (\<lambda>item. va (fst item) \<and> vb (snd item)) (AList.update k v m) \<and>
    distinct (map fst (AList.update k v m)) \<and> length (AList.update k v m) \<le> Suc (length m)"
  using assms
proof (induction m)
  case (Cons item m)
  then show ?case by (cases item) (auto simp: list_all_iff AList.update_conv' dom_update distinct_update)
qed simp

context typed_readers
begin

lemma pair_steps:
  assumes "L \<le> int_max" and "\<And>x y. va x \<Longrightarrow> vb y \<Longrightarrow> P (f x y)"
  shows "safe L (Suc 0) P (up_bind (upa a0) (\<lambda>x. up_bind (upb b0) (\<lambda>y. up_return (f x y))))"
proof (rule safe_bind [OF fst.typed [OF assms(1)]])
  fix x assume x: "va x"
  have "safe L 0 vb (upb b0)" by (rule safe_weaken [OF snd.typed [OF assms(1)]]) auto
  then show "safe L (Suc 0 - Suc 0) P (up_bind (upb b0) (\<lambda>y. up_return (f x y)))"
    by (rule safe_bind) (use assms(2) [OF x] in \<open>auto intro: safe_return\<close>)
qed

lemma pair_typed: "L \<le> int_max \<Longrightarrow> safe L (Suc 0) (\<lambda>v. va (fst v) \<and> vb (snd v)) (unpack_pair upa upb (a0, b0))"
  unfolding unpack_pair_def fst_conv snd_conv by (rule pair_steps) auto

lemma map_typed:
  assumes "L \<le> int_max"
  shows "safe L (Suc 0) (\<lambda>m. list_all (\<lambda>item. va (fst item) \<and> vb (snd item)) m \<and> length m \<le> int_max \<and>
    distinct (map fst m)) (unpack_map upa a0 upb b0 [])"
proof -
  let ?step = "\<lambda>m. up_bind (upa a0) (\<lambda>key. up_bind (upb b0) (\<lambda>val. up_return (AList.update key val m)))"
  let ?I = "\<lambda>i m. list_all (\<lambda>item. va (fst item) \<and> vb (snd item)) m \<and> distinct (map fst m) \<and> length m \<le> i"
  have "safe L (Suc 0) (?I (Suc i)) (?step m)" if "?I i m" for i m
    using that by (intro pair_steps [OF assms]) (auto dest!: update_typed [of va vb m])
  moreover have "safe L (Suc 0) any (?step m)" for m
    by (intro pair_steps [OF assms]) simp
  ultimately have loop: "safe L 0 (\<lambda>m. list_all (\<lambda>item. va (fst item) \<and> vb (snd item)) m \<and> length m \<le> int_max \<and>
      distinct (map fst m)) (unpack_loop ?step n 0 [])" for n
    using assms by (intro safe_typed_loop [where I = ?I]) auto
  show ?thesis
    unfolding unpack_map_def
    using assms int_max_le by (intro safe_bind [OF safe_headers(2)] safe_weaken [OF loop]) auto
qed

end


text \<open>A reader that takes a byte, whatever it returns, is typed with the trivial validity.\<close>

sublocale bounded_reader \<subseteq> typed_reader up v any for v
  using safe by unfold_locales

text \<open>A collection, a pair and a map of typed readers.\<close>

locale typed_list = elem: typed_reader unpack initial valid
  for unpack :: "'v unpack_op" and initial :: 'v and valid :: "'v \<Rightarrow> bool"

sublocale typed_list \<subseteq> list: typed_reader "unpack_collection unpack initial" "[]"
    "\<lambda>vs. list_all valid vs \<and> length vs \<le> int_max"
  using elem.collection_typed by unfold_locales

sublocale typed_readers \<subseteq> pair: typed_reader "unpack_pair upa upb" "(a0, b0)" "\<lambda>v. va (fst v) \<and> vb (snd v)"
  using pair_typed by unfold_locales

sublocale typed_readers \<subseteq> map: typed_reader "unpack_map upa a0 upb b0" "[]"
    "\<lambda>items. list_all (\<lambda>item. va (fst item) \<and> vb (snd item)) items \<and> length items \<le> int_max \<and>
       distinct (map fst items)"
  using map_typed by unfold_locales


subsection \<open>Strings and binaries\<close>

lemma safe_sized_bytes:
  assumes "L \<le> int_max" and "n \<le> uint32_max"
  shows "safe L 0 (\<lambda>s. length s < uint32_max) (read_bytes n)"
proof (rule safeI)
  have n: "n \<le> max_size" using assms(2) by (simp add: max_size_def uint32_max_def)
  note read = safeD [OF safe_read_bytes [OF order.trans [OF assms(1) int_max_le] n]]
  fix u assume u: "in_bounds L u"
  show "read_bytes n u \<noteq> Inl Undefined_behaviour" by (rule read(1) [OF u])
  fix s u1 assume "read_bytes n u = Inr (s, u1)"
  from read(2) [OF u this]
  show "length s < uint32_max \<and> up_data u1 = up_data u \<and> up_position u + 0 \<le> up_position u1 \<and> in_bounds L u1"
    using assms(1) by (auto simp: in_bounds_def int_max_def uint32_max_def)
qed

lemma typed_strings:
  assumes "L \<le> int_max"
  shows "safe L (Suc 0) (\<lambda>s. length s < uint32_max) (unpack_string s1)"
    "safe L (Suc 0) (\<lambda>s. length s < uint32_max) (unpack_bin s2)"
proof -
  note b = safe_sized_bytes [OF assms]
  have L: "L \<le> max_size" using assms int_max_le by simp
  show "safe L (Suc 0) (\<lambda>s. length s < uint32_max) (unpack_string s1)"
    "safe L (Suc 0) (\<lambda>s. length s < uint32_max) (unpack_bin s2)"
    unfolding unpack_string_def unpack_bin_def using L
    by (auto intro!: safe_bind [where P = "\<lambda>n. n \<le> uint32_max" and m = "Suc 0"] safe_or_else safe_size_in_format safe_throw b)
qed


subsection \<open>Types whose unpacked values can be packed again\<close>

locale repackable = packable pack unpack initial valid + typed_reader unpack initial valid
  for pack :: "'v \<Rightarrow> emission" and unpack :: "'v unpack_op" and initial :: 'v and valid :: "'v \<Rightarrow> bool"

context repackable
begin

lemma repacked:
  assumes "unpack_object unpack initial data = Inr v" and "length data \<le> int_max"
  shows "valid v \<and> snd (pack v) = None \<and>
    (length (fst (pack v)) < sz_modulus \<longrightarrow> unpack_object unpack initial (fst (pack v)) = Inr v)"
  using object_typed [OF assms] roundtrip object_roundtrip by (simp add: carries_def)

end

locale repackable_list = elem: repackable pack unpack initial valid
  for pack :: "'v \<Rightarrow> emission" and unpack :: "'v unpack_op" and initial :: 'v and valid :: "'v \<Rightarrow> bool"

sublocale repackable_list \<subseteq> packable_list pack unpack initial valid by unfold_locales
sublocale repackable_list \<subseteq> typed_list unpack initial valid by unfold_locales

sublocale repackable_list \<subseteq> relist: repackable "pack_collection pack" "unpack_collection unpack initial" "[]"
    "\<lambda>vs. list_all valid vs \<and> length vs \<le> int_max"
  by unfold_locales

locale repackable_two =
  one: repackable p up a0 va + two: repackable q uq b0 vb
  for p :: "'a \<Rightarrow> emission" and up :: "'a unpack_op" and a0 :: 'a and va :: "'a \<Rightarrow> bool"
    and q :: "'b \<Rightarrow> emission" and uq :: "'b unpack_op" and b0 :: 'b and vb :: "'b \<Rightarrow> bool"

sublocale repackable_two \<subseteq> packable_two p up a0 va q uq b0 vb by unfold_locales
sublocale repackable_two \<subseteq> typed_readers up a0 va uq b0 vb by unfold_locales

sublocale repackable_two \<subseteq> repair: repackable "pack_pair p q" "unpack_pair up uq" "(a0, b0)"
    "\<lambda>v. va (fst v) \<and> vb (snd v)"
  by unfold_locales

sublocale repackable_two \<subseteq> remap: repackable "pack_map p q" "unpack_map up a0 uq b0" "[]"
    "\<lambda>items. list_all (\<lambda>item. va (fst item) \<and> vb (snd item)) items \<and> length items \<le> int_max \<and>
       distinct (map fst items)"
  by unfold_locales

context repackable_list
begin

lemmas list_repacked = relist.repacked

end

context repackable_two
begin

lemmas pair_repacked = repair.repacked
lemmas map_repacked = remap.repacked

end

interpretation re_uint8: repackable pack_uint8 unpack_uint8 0 any by unfold_locales
interpretation re_uint16: repackable pack_uint16 unpack_uint16 0 any by unfold_locales
interpretation re_uint32: repackable pack_uint32 unpack_uint32 0 any by unfold_locales
interpretation re_uint64: repackable pack_uint64 unpack_uint64 0 any by unfold_locales
interpretation re_int8: repackable pack_int8 unpack_int8 0 any by unfold_locales
interpretation re_int16: repackable pack_int16 unpack_int16 0 any by unfold_locales
interpretation re_null: repackable pack_nil unpack_nil "()" any by unfold_locales
interpretation re_bool: repackable pack_bool unpack_bool False any by unfold_locales
interpretation re_float: repackable pack_float unpack_float 0 any by unfold_locales
interpretation re_double: repackable pack_double unpack_double 0 any by unfold_locales

interpretation re_str: repackable pack_string unpack_string "[]" "\<lambda>s. length s < uint32_max"
  by unfold_locales (rule typed_strings)

interpretation re_bin: repackable pack_bin unpack_bin "[]" "\<lambda>s. length s < uint32_max"
  by unfold_locales (rule typed_strings)

text \<open>Lists of strings, and maps from strings to integers.\<close>

interpretation re_strings: repackable_list pack_string unpack_string "[]" "\<lambda>s. length s < uint32_max"
  by unfold_locales

interpretation re_string_uint64: repackable_two pack_string unpack_string "[]" "\<lambda>s. length s < uint32_max"
    pack_uint64 unpack_uint64 0 any
  by unfold_locales

text \<open>A signed integer of 64 bits is not: -5 in the format of 8 bits, and packed again.\<close>

lemma int64_not_repackable:
  "unpack_object (unpack_collection unpack_int64 0) [] [0x91, 0xd0, 0xfb] = Inr [-5]"
  "unpack_object (unpack_collection unpack_int64 0) [] (fst (pack_collection pack_int64 [-5])) = Inr [251]"
proof -
  show "unpack_object (unpack_collection unpack_int64 0) [] [0x91, 0xd0, 0xfb] = Inr [-5]"
    by (simp add: unpack_object_def unpack_collection_def unpack_array_header_def or_else_def read_conditional_def
        check_constant_def current_def up_bind_def up_return_def increment_def unpacker_of_def size_in_format_def
        unpack_loop.simps unpack_int64_def unpack_int8_def take_current_def sz_add_def sz_modulus_def int_max_def)
  have "fst (pack_collection pack_int64 [-5]) = [0x91, 0xfb]"
    by (simp add: pack_collection_def pack_array_header_def pack_int64_bytes seq_emit_def emit_def)
  then show "unpack_object (unpack_collection unpack_int64 0) [] (fst (pack_collection pack_int64 [-5])) = Inr [251]"
    by (simp add: unpack_object_def unpack_collection_def unpack_array_header_def or_else_def read_conditional_def
        check_constant_def current_def up_bind_def up_return_def increment_def unpacker_of_def size_in_format_def
        unpack_loop.simps unpack_int64_def unpack_int8_def take_current_def sz_add_def sz_modulus_def int_max_def)
qed

end
