(* ===== verification/MsgpackTuples.thy ===== *)
theory MsgpackTuples
  imports MsgpackTypes
begin

section \<open>MessagePack: tuples and objects with members\<close>

text \<open>
  A tuple, and an object whose \<open>pack\<close> and \<open>unpack\<close> hand their members to \<open>operator()\<close>
  in the same order, is packable when its members are: the locale \<open>packable_members\<close>.
  \<open>partway i v\<close> is an object of which the first \<open>i\<close> members have been read; what a
  member is unpacked into is still its initial value.
\<close>

locale packable_members =
  fixes packs :: "('t \<Rightarrow> emission) list" and unpacks :: "('t \<Rightarrow> 't reader) list"
    and partway :: "nat \<Rightarrow> 't \<Rightarrow> 't" and initial :: 't and valid :: "'t \<Rightarrow> bool"
  assumes members: "length packs = length unpacks"
    and start: "partway 0 v = initial"
    and finish: "partway (length packs) v = v"
    and member: "valid v \<Longrightarrow> i < length packs \<Longrightarrow>
      carries ((packs ! i) v) ((unpacks ! i) (partway i v)) (partway (Suc i) v)"
begin

lemma members_from:
  assumes "valid v" and "i \<le> length packs"
  shows "carries (pack_args (map (\<lambda>p. p v) (drop i packs))) (unpack_args (drop i unpacks) (partway i v)) v"
  using assms(2)
proof (induction "length packs - i" arbitrary: i)
  case 0
  then show ?case using members finish [of v] by (simp add: carries_emit reads_return)
next
  case (Suc n)
  then have i: "i < length packs" "i < length unpacks" "n = length packs - Suc i" using members by auto
  have "carries (pack_args (map (\<lambda>p. p v) (drop (Suc i) packs)))
      (unpack_args (drop (Suc i) unpacks) (partway (Suc i) v)) v"
    using Suc.hyps(1) [OF i(3)] i(1) by simp
  then show ?case
    using carries_seq [OF member [OF assms(1) i(1)]] i
    by (simp add: Cons_nth_drop_Suc [symmetric])
qed

lemma tuple_roundtrip: "valid v \<Longrightarrow> carries (pack_tuple packs v) (unpack_tuple unpacks initial) v"
  using members_from [of v 0] start by (simp add: pack_tuple_def unpack_tuple_def)

end

sublocale packable_members \<subseteq> tuple: packable "pack_tuple packs" "unpack_tuple unpacks" initial valid
  using tuple_roundtrip by unfold_locales

lemma carries_elem:
  "carries e (up (get s)) x \<Longrightarrow> t = put x s \<Longrightarrow> carries e (unpack_elem get put up s) t"
  by (auto simp: carries_def unpack_elem_def intro: reads_last [where g = "\<lambda>v. put v s"])


subsection \<open>\<open>std::tuple\<close> with three elements\<close>

definition triple_packs :: "('a \<Rightarrow> emission) \<Rightarrow> ('b \<Rightarrow> emission) \<Rightarrow> ('c \<Rightarrow> emission) \<Rightarrow> ('a \<times> 'b \<times> 'c \<Rightarrow> emission) list" where
  "triple_packs p q r = [\<lambda>t. p (fst t), \<lambda>t. q (fst (snd t)), \<lambda>t. r (snd (snd t))]"

definition triple_unpacks ::
  "'a unpack_op \<Rightarrow> 'b unpack_op \<Rightarrow> 'c unpack_op \<Rightarrow> ('a \<times> 'b \<times> 'c \<Rightarrow> ('a \<times> 'b \<times> 'c) reader) list" where
  "triple_unpacks up uq ur =
     [unpack_elem fst (\<lambda>x t. (x, snd t)) up,
      unpack_elem (\<lambda>t. fst (snd t)) (\<lambda>y t. (fst t, y, snd (snd t))) uq,
      unpack_elem (\<lambda>t. snd (snd t)) (\<lambda>z t. (fst t, fst (snd t), z)) ur]"

definition triple_partway :: "'a \<times> 'b \<times> 'c \<Rightarrow> nat \<Rightarrow> 'a \<times> 'b \<times> 'c \<Rightarrow> 'a \<times> 'b \<times> 'c" where
  "triple_partway t0 i t =
     (if i = 0 then fst t0 else fst t, if i \<le> 1 then fst (snd t0) else fst (snd t),
      if i \<le> 2 then snd (snd t0) else snd (snd t))"

locale packable_three =
  one: packable p up a0 va + two: packable q uq b0 vb + three: packable r ur c0 vc
  for p :: "'a \<Rightarrow> emission" and up :: "'a unpack_op" and a0 :: 'a and va :: "'a \<Rightarrow> bool"
    and q :: "'b \<Rightarrow> emission" and uq :: "'b unpack_op" and b0 :: 'b and vb :: "'b \<Rightarrow> bool"
    and r :: "'c \<Rightarrow> emission" and ur :: "'c unpack_op" and c0 :: 'c and vc :: "'c \<Rightarrow> bool"

sublocale packable_three \<subseteq> triple: packable_members "triple_packs p q r" "triple_unpacks up uq ur"
    "triple_partway (a0, b0, c0)" "(a0, b0, c0)" "\<lambda>(a, b, c). va a \<and> vb b \<and> vc c"
proof
  fix t :: "'a \<times> 'b \<times> 'c" and i
  assume v: "case t of (a, b, c) \<Rightarrow> va a \<and> vb b \<and> vc c" and "i < length (triple_packs p q r)"
  then consider "i = 0" | "i = 1" | "i = 2" by (auto simp: triple_packs_def less_Suc_eq)
  then show "carries ((triple_packs p q r ! i) t)
      ((triple_unpacks up uq ur ! i) (triple_partway (a0, b0, c0) i t)) (triple_partway (a0, b0, c0) (Suc i) t)"
    using v one.roundtrip two.roundtrip three.roundtrip
    by cases (auto simp: triple_packs_def triple_unpacks_def triple_partway_def intro!: carries_elem)
qed (simp_all add: triple_packs_def triple_unpacks_def triple_partway_def)

context packable_three
begin

lemmas triple_roundtrip = triple.tuple_roundtrip

end

text \<open>A tuple of a name, a number and a list of strings.\<close>

interpretation record_triple: packable_three pack_string unpack_string "[]" "\<lambda>s. length s < uint32_max"
    pack_uint64 unpack_uint64 0 "\<lambda>_. True"
    "pack_collection pack_string" "unpack_collection unpack_string []" "[]"
    "\<lambda>vs. list_all (\<lambda>s. length s < uint32_max) vs \<and> length vs \<le> int_max"
  by unfold_locales

end
