(* ===== verification/BinaryProperties.thy ===== *)
theory BinaryProperties
  imports ExampleSocket BinaryMessage MsgpackTyped MsgpackTuples
begin

section \<open>Properties of binary messages and of MessagePack\<close>

text \<open>What the parts of a binary exchange show together, and the packer type by type.\<close>

text \<open>
  C29. A binary message over a connection: whatever packable type its value has, \<open>pack\<close>
  makes a message whose header is the length and whose body is the packed value; when the
  header arrives in a segment of its own and the body in any segments,
  \<open>Connection::read\<close> of a fresh message returns without error and \<open>unpack\<close> gives the
  value; the connection is ready again and keeps what came behind the body.
\<close>

theorem binary_message_roundtrip:
  assumes "packable pack unpack initial valid" and "valid v" and "p = fst (pack v)"
    and "length p \<le> max_size"
    and "holds c READ_START [] cap w" and "delivers S (cn_socket c) (length_header p # bsegs) t"
    and "\<forall>seg \<in> set (length_header p # bsegs). seg \<noteq> [] \<and> length seg \<le> cap"
    and "concat bsegs = p @ x"
    and "if p = [] then bsegs = [] else length (concat (butlast bsegs)) < length p"
    and "length bsegs + 3 < fuel"
  shows "\<exists>sent c' got done. bm_pack pack initial (bm_new stale v) = Inr (Error_none, sent) \<and>
    bm_hdr sent @ bm_bod sent = length_header p @ p \<and>
    connection_read fuel S Binary_message c (bm_new stale' initial) = Some (Inr (c', got, Error_none)) \<and>
    holds c' READ_START x cap w \<and> cn_socket c' = t \<and>
    bm_unpack unpack initial partial got = Inr (Error_none, done) \<and> bm_value done = v"
proof -
  have p64: "length p < 2 ^ 64" using assms(4) by (simp add: max_size_def)
  obtain sent where sent: "bm_pack pack initial (bm_new stale v) = Inr (Error_none, sent)"
      "bm_hdr sent = length_header p" "bm_bod sent = p"
    using packable.bm_pack_ok [OF assms(1), of "bm_new stale v"] assms(2,3) p64
    by (auto simp: bm_new_def)
  have "bm_expects_header p (bm_new stale' initial) (length_header p)"
    using assms(4) by (simp add: bm_expects_header_def bm_new_def)
  from binary_consumer.connection_read_whole_header [OF assms(5-7) this assms(8,9), of fuel] assms(10)
  obtain c' got where got: "connection_read fuel S Binary_message c (bm_new stale' initial) =
        Some (Inr (c', got, Error_none))"
      "holds c' READ_START x cap w" "cn_socket c' = t" "bm_received p got"
    by auto
  have "bm_unpack unpack initial partial got = Inr (Error_none, got\<lparr>bm_value := v, bm_buffer := []\<rparr>)"
    using packable.bm_unpack_ok [OF assms(1,2), of got partial] got(4) assms(3) p64 by simp
  with sent got show ?thesis by simp
qed

theorem binary_message_roundtrip_witness:
  "\<exists>sent c' got done.
    bm_pack (pack_collection pack_string) [] (bm_new 5 [bytes ''ab'', bytes ''c'']) = Inr (Error_none, sent) \<and>
    bm_hdr sent @ bm_bod sent = [0, 0, 0, 0, 0, 0, 0, 6, 0x92, 0xa2, 97, 98, 0xa1, 99] \<and>
    connection_read 9 list_socket Binary_message
      (connection_new ([[0, 0, 0, 0, 0, 0, 0, 6], [0x92, 0xa2], [97, 98, 0xa1, 99, 1]], [])) (bm_new 7 []) =
      Some (Inr (c', got, Error_none)) \<and>
    content (cn_readBuffer c') = [1] \<and>
    bm_unpack (unpack_collection unpack_string []) [] (\<lambda>_. []) got = Inr (Error_none, done) \<and>
    bm_value done = [bytes ''ab'', bytes ''c'']"
proof -
  let ?c = "connection_new ([[0, 0, 0, 0, 0, 0, 0, 6], [0x92, 0xa2], [97, 98, 0xa1, 99, 1]], [])
    :: (byte list list \<times> byte list) connection"
  let ?v = "[bytes ''ab'', bytes ''c'']"
  let ?p = "[0x92, 0xa2, 97, 98, 0xa1, 99] :: byte list"
  have h: "holds ?c READ_START [] 4096 (write_side ?c)" using idle_read [OF idle_new] .
  have p: "?p = fst (pack_collection pack_string ?v)"
    by (simp add: pack_collection_def pack_array_header_def pack_string_def del: bytes_Cons)
       (simp add: emit_def)
  have hd: "length_header ?p = [0, 0, 0, 0, 0, 0, 0, 6]"
    by (simp add: length_header_def big_endian_def memory_bytes_def upt_rec)
  have d: "delivers list_socket (cn_socket ?c) (length_header ?p # [[0x92, 0xa2], [97, 98, 0xa1, 99, 1]]) ([], [])"
    unfolding hd by (simp add: connection_new_def list_socket_def)
  have pk: "packable (pack_collection pack_string) (unpack_collection unpack_string []) []
      (\<lambda>vs. list_all (\<lambda>s. length s < uint32_max) vs \<and> length vs \<le> int_max)"
    by (rule strings.list.packable_axioms)
  show ?thesis
    using binary_message_roundtrip [OF pk _ p _ h d, of "[1]" 9 5 7 "\<lambda>_. []"]
    by (simp add: hd uint32_max_def int_max_def max_size_def holds_def) blast
qed

text \<open>
  C30. Writing a binary message: over a socket that takes a prefix of what it is offered,
  \<open>Connection::write\<close> of a packed message returns; what has reached the wire is a prefix
  of the length header and the buffer, all of it when the call returns no error.
\<close>

theorem binary_message_written:
  assumes "write_contract S wire" and "sb_inv (cn_writeBuffer c)" and "content (cn_writeBuffer c) = []"
    and "0 < length (sb_buffer (cn_writeBuffer c))" and "cn_writeState c = WRITE_START"
    and "bm_headIdx m = 0" and "bm_bodyIdx m = 0" and "length (bm_buffer m) = unat (bm_length m)"
    and "length (bm_buffer m) + length (sb_buffer (cn_writeBuffer c)) + 10 < fuel"
  shows "\<exists>c' m' e. connection_write fuel S Binary_message c m = Some (Inr (c', m', e)) \<and>
    delivered S wire c (big_endian (bm_length m) @ bm_buffer m) c' e"
proof -
  have parts: "bm_hdr m = big_endian (bm_length m)" "bm_bod m = bm_buffer m" "bm_ready m"
    using assms(6-8) by (simp_all add: bm_hdr_def bm_bod_def bm_ready_def)
  show ?thesis
    using binary_producer.connection_write_ok [OF assms(1-5) parts(3), of fuel] assms(9)
    unfolding parts(1,2) by simp
qed

theorem binary_message_written_witness:
  "\<exists>c' m' e. connection_write 5000 list_socket Binary_message (connection_new ([], []))
      \<lparr>bm_length = 2, bm_headIdx = 0, bm_buffer = [0xcc, 200], bm_bodyIdx = 0, bm_value = ()\<rparr> =
      Some (Inr (c', m', e)) \<and>
    delivered list_socket snd (connection_new ([], [])) [0, 0, 0, 0, 0, 0, 0, 2, 0xcc, 200] c' e"
proof -
  let ?c = "connection_new ([], []) :: (byte list list \<times> byte list) connection"
  let ?m = "\<lparr>bm_length = 2, bm_headIdx = 0, bm_buffer = [0xcc, 200], bm_bodyIdx = 0, bm_value = ()\<rparr>"
  have w: "write_contract list_socket snd" using peer_list_socket by (simp add: peer_def)
  have c: "sb_inv (cn_writeBuffer ?c)" "content (cn_writeBuffer ?c) = []"
    "0 < length (sb_buffer (cn_writeBuffer ?c))" "cn_writeState ?c = WRITE_START"
    using idle_new [of "([], []) :: byte list list \<times> byte list"] by (simp_all add: idle_def)
  have "length (sb_buffer (cn_writeBuffer ?c)) = 4096"
    by (simp add: connection_new_def static_buffer_new_def)
  moreover have "big_endian (2 :: 64 word) = [0, 0, 0, 0, 0, 0, 0, 2]"
    by (simp add: big_endian_def memory_bytes_def upt_rec)
  ultimately show ?thesis
    using binary_message_written [OF w c, of ?m 5000] by simp
qed

text \<open>
  C31. A length header that arrives in two pieces is misread: after a first piece of \<open>j\<close>
  bytes the header is complete with the second piece, and of the length that was sent the
  message has the last \<open>8 - j\<close> bytes only; in front of them stand bytes that
  \<open>length_\<close> had before, the first piece reversed behind them where they do not suffice.
\<close>

theorem binary_header_split:
  assumes "bm_headIdx m = 0" and "h1 \<noteq> []" and "h2 \<noteq> []" and "length (h1 @ h2) = 8"
  shows "\<exists>m1 m2. bm_consumeHeaderSome m h1 = Inr ((Error_none, False, length h1), m1) \<and>
    bm_consumeHeaderSome m1 h2 = Inr ((Error_none, True, length h2), m2) \<and>
    big_endian (bm_length m2) =
      take (length h1) (rev (drop (length h1) (memory_bytes (bm_length m))) @ rev h1) @ h2"
  using assms by (rule bm_header_split)

theorem binary_header_split_witness:
  "\<exists>m1 m2. bm_consumeHeaderSome (bm_new 0 ()) [0, 0, 0, 0, 0, 0, 1] = Inr ((Error_none, False, 7), m1) \<and>
    bm_consumeHeaderSome m1 [6] = Inr ((Error_none, True, 1), m2) \<and>
    big_endian (bm_length m2) = [0, 1, 0, 0, 0, 0, 0, 6]"
  using binary_header_split [of "bm_new 0 ()" "[0, 0, 0, 0, 0, 0, 1]" "[6]"]
  by (simp add: bm_new_def memory_bytes_def upt_rec numeral_eq_Suc)

text \<open>
  C32. Integers of 8 and 16 bits and all unsigned integers are unpacked to what was
  packed, whatever bytes stand around them and whatever the variable held before. A signed
  integer of 32 or 64 bits is too, except a value from -32 to -1: the unpacker takes its
  one byte for an unsigned one and returns the value plus 256.
\<close>

theorem integers_roundtrip:
  "carries (pack_uint8 a) (unpack_uint8 a0) a \<and> carries (pack_uint16 b) (unpack_uint16 b0) b \<and>
   carries (pack_uint32 c) (unpack_uint32 c0) c \<and> carries (pack_uint64 d) (unpack_uint64 d0) d \<and>
   carries (pack_int8 e) (unpack_int8 e0) e \<and> carries (pack_int16 f) (unpack_int16 f0) f \<and>
   (\<exists>x. carries (pack_int32 v) (unpack_int32 v0) x \<and>
      sint x = (if negative_fixint v then sint v + 256 else sint v)) \<and>
   (\<exists>y. carries (pack_int64 w) (unpack_int64 w0) y \<and>
      sint y = (if negative_fixint w then sint w + 256 else sint w))"
proof (intro conjI carries_uint8 carries_uint16 carries_uint32 carries_uint64 carries_int8 carries_int16)
  show "\<exists>x. carries (pack_int32 v) (unpack_int32 v0) x \<and>
      sint x = (if negative_fixint v then sint v + 256 else sint v)"
    using carries_int32 [of v v0] carries_negative_fixint32 [of v v0] by (cases "negative_fixint v") auto
  show "\<exists>y. carries (pack_int64 w) (unpack_int64 w0) y \<and>
      sint y = (if negative_fixint w then sint w + 256 else sint w)"
    using carries_int64 [of w w0] carries_negative_fixint64 [of w w0] by (cases "negative_fixint w") auto
qed

text \<open>
  C33. Pairs, tuples (of three elements), collections, fixed arrays and maps of packable types are packable: a
  pair or a triple is unpacked to what was packed, a collection is appended in order to what
  the container held, an array of the same size is overwritten, and a map with distinct
  keys is unpacked item by item, as long as they have fewer than \<open>2 ^ 31\<close> elements. Longer
  collections than the format allows are refused with \<open>length_error\<close>.
\<close>

theorem containers_roundtrip:
  assumes "packable p up a0 va" and "packable q uq b0 vb" and "packable r ur c0 vc"
    and "va a" and "vb b" and "vc c" and "list_all va as" and "length as \<le> int_max" and "length arr = length as"
    and "list_all (\<lambda>item. va (fst item) \<and> vb (snd item)) items" and "length items \<le> int_max"
    and "distinct (map fst items)" and "uint32_max \<le> length (zs :: 'z list)"
  shows "carries (pack_pair p q (a, b)) (unpack_pair up uq (a0, b0)) (a, b) \<and>
    carries (pack_tuple (triple_packs p q r) (a, b, c))
      (unpack_tuple (triple_unpacks up uq ur) (a0, b0, c0)) (a, b, c) \<and>
    carries (pack_collection p as) (unpack_collection up a0 held) (held @ as) \<and>
    carries (pack_collection p as) (unpack_array up a0 arr) as \<and>
    carries (pack_map p q items) (unpack_map up a0 uq b0 []) items \<and>
    snd (pack_collection f zs) = Some Length_error"
proof (intro conjI)
  have two: "packable_two p up a0 va q uq b0 vb" using assms(1,2) by (simp add: packable_two_def)
  have three: "packable_three p up a0 va q uq b0 vb r ur c0 vc" using assms(1-3) by (simp add: packable_three_def)
  show "carries (pack_pair p q (a, b)) (unpack_pair up uq (a0, b0)) (a, b)"
    using packable_two.pair_roundtrip [OF two, of "(a, b)"] assms(4,5) by simp
  show "carries (pack_tuple (triple_packs p q r) (a, b, c))
      (unpack_tuple (triple_unpacks up uq ur) (a0, b0, c0)) (a, b, c)"
    using packable_three.triple_roundtrip [OF three, of "(a, b, c)"] assms(4-6) by simp
  show "carries (pack_collection p as) (unpack_collection up a0 held) (held @ as)"
    by (rule packable.collection_roundtrip [OF assms(1,7,8)])
  show "carries (pack_collection p as) (unpack_array up a0 arr) as"
    by (rule packable.array_roundtrip [OF assms(1,7,8,9)])
  show "carries (pack_map p q items) (unpack_map up a0 uq b0 []) items"
    by (rule packable_two.map_roundtrip [OF two assms(10-12)])
  have "pack_array_header (length zs) = (False, emit [])"
    using assms(13) by (auto simp: pack_array_header_def uint32_max_def uint16_max_def)
  then show "snd (pack_collection f zs) = Some Length_error"
    by (simp add: pack_collection_def seq_emit_def emit_def throw_def)
qed

theorem containers_roundtrip_witness:
  "carries (pack_pair pack_string pack_uint64 (bytes ''a'', 300)) (unpack_pair unpack_string unpack_uint64 ([], 0))
     (bytes ''a'', 300) \<and>
   carries (pack_tuple (triple_packs pack_string pack_uint64 pack_bool) (bytes ''a'', 300, True))
     (unpack_tuple (triple_unpacks unpack_string unpack_uint64 unpack_bool) ([], 0, False)) (bytes ''a'', 300, True) \<and>
   carries (pack_collection pack_string [bytes ''b'']) (unpack_collection unpack_string [] [bytes ''a''])
     ([bytes ''a''] @ [bytes ''b'']) \<and>
   carries (pack_collection pack_string [bytes ''b'']) (unpack_array unpack_string [] [bytes ''x'']) [bytes ''b''] \<and>
   carries (pack_map pack_string pack_uint64 [(bytes ''k'', 1), (bytes ''l'', 2)])
     (unpack_map unpack_string [] unpack_uint64 0 []) [(bytes ''k'', 1), (bytes ''l'', 2)] \<and>
   snd (pack_collection pack_bool (replicate uint32_max True)) = Some Length_error"
  using containers_roundtrip [OF str.packable_axioms uint64.packable_axioms bool.packable_axioms,
      where a = "bytes ''a''" and b = 300 and c = True and as = "[bytes ''b'']" and held = "[bytes ''a'']" and
        arr = "[bytes ''x'']" and items = "[(bytes ''k'', 1), (bytes ''l'', 2)]" and zs = "replicate uint32_max True" and
        f = pack_bool]
  by (simp add: uint32_max_def int_max_def)

text \<open>
  C34. A variant is unpacked to its alternative and value when it has at most 128
  alternatives, the alternative is packable and its bytes are fewer than \<open>2 ^ 32 - 1\<close>.
\<close>

theorem variant_roundtrip:
  assumes "i < length alts" and "length alts \<le> 128"
    and "carries ((packs ! i) x) (fst (alts ! i) (snd (alts ! i))) x"
    and "length (fst ((packs ! i) x)) < uint32_max"
  shows "carries (pack_variant packs (i, x)) (unpack_variant alts v0) (i, x)"
  using assms by (rule carries_variant)

theorem variant_roundtrip_witness:
  "carries (pack_variant [pack_uint16, pack_uint16] (1, 300))
     (unpack_variant [(unpack_uint16, 0), (unpack_uint16, 0)] (0, 0)) (1, 300)"
proof -
  have "length (fst (pack_uint16 300)) < uint32_max"
    by (simp add: pack_uint16_bytes uint32_max_def)
  then show ?thesis
    using variant_roundtrip [of 1 "[(unpack_uint16, 0), (unpack_uint16, 0)]" "[pack_uint16, pack_uint16]" 300 "(0, 0)"]
      carries_uint16 [of 300 0] by simp
qed

text \<open>
  C35. A time point of a clock that ticks \<open>d\<close> times a second, for a \<open>d\<close> that divides
  \<open>10 ^ 9\<close>, and any 64-bit count of ticks, negative ones included. It is unpacked to what
  was packed, with two exceptions: of a whole number of seconds from \<open>2 ^ 32\<close> to
  \<open>2 ^ 34 - 1\<close> the packer keeps the low 32 bits; and when the seconds, rounded down, are
  fewer than \<open>- (2 ^ 63)\<close> ticks, as for the smallest count of a clock of nanoseconds, the
  count is packed without an exception, but converting the seconds back overflows.
\<close>

theorem time_point_roundtrip:
  assumes "0 < d" and "d dvd 1000000000" and "- (2 ^ 63) \<le> c" and "c < 2 ^ 63"
  shows "if lost_time d c
    then snd (pack_time 1 d c) = None \<and>
      unpack_object (unpack_time 1 d) c0 (fst (pack_time 1 d c)) = Inl Undefined_behaviour
    else carries (pack_time 1 d c) (unpack_time 1 d c0)
      (if narrowed_time d c then (c div d mod 2 ^ 32) * d else c)"
  using time_overflow [OF assms] carries_time [OF assms] by simp

theorem time_point_roundtrip_witness:
  "carries (pack_time 1 1000 (-1)) (unpack_time 1 1000 0) (-1) \<and>
   carries (pack_time 1 1 (2 ^ 32 + 5)) (unpack_time 1 1 0) 5 \<and>
   unpack_object (unpack_time 1 1000000000) 0 (fst (pack_time 1 1000000000 (- (2 ^ 63)))) = Inl Undefined_behaviour"
  using time_point_roundtrip [of 1000 "-1" 0] time_point_roundtrip [of 1 "2 ^ 32 + 5" 0]
    time_point_roundtrip [of 1000000000 "- (2 ^ 63)" 0]
  by (simp add: narrowed_time_def lost_time_def)

text \<open>
  C36. Unpacking arbitrary bytes, fewer than \<open>2 ^ 31\<close>: integers of every width, null,
  booleans, floating-point numbers, strings and binaries are read without undefined
  behaviour, and so are pairs, collections and maps of types that are (\<open>bounded_reader\<close>,
  which pairs, collections and maps are again), whatever the variable held before; what
  does not fit ends with one of the exceptions. Fixed arrays and variants (C38) and time
  points, whose ticks may overflow (C35), are not among these types.
\<close>

theorem unpack_stays_in_bounds:
  assumes "bounded_reader upa" and "bounded_reader upb" and "length data \<le> int_max"
  shows "bounded_reader (unpack_pair upa upb) \<and> bounded_reader (unpack_collection upa a) \<and>
    bounded_reader (unpack_map upa a upb b) \<and>
    unpack_object upa a data \<noteq> Inl Undefined_behaviour \<and>
    unpack_object (unpack_pair upa upb) p data \<noteq> Inl Undefined_behaviour \<and>
    unpack_object (unpack_collection upa a) l data \<noteq> Inl Undefined_behaviour \<and>
    unpack_object (unpack_map upa a upb b) m data \<noteq> Inl Undefined_behaviour \<and>
    unpack_object unpack_uint8 u8 data \<noteq> Inl Undefined_behaviour \<and>
    unpack_object unpack_uint16 u16 data \<noteq> Inl Undefined_behaviour \<and>
    unpack_object unpack_uint32 u32 data \<noteq> Inl Undefined_behaviour \<and>
    unpack_object unpack_uint64 u64 data \<noteq> Inl Undefined_behaviour \<and>
    unpack_object unpack_int8 i8 data \<noteq> Inl Undefined_behaviour \<and>
    unpack_object unpack_int16 i16 data \<noteq> Inl Undefined_behaviour \<and>
    unpack_object unpack_int32 i32 data \<noteq> Inl Undefined_behaviour \<and>
    unpack_object unpack_int64 i64 data \<noteq> Inl Undefined_behaviour \<and>
    unpack_object unpack_nil n data \<noteq> Inl Undefined_behaviour \<and>
    unpack_object unpack_bool t data \<noteq> Inl Undefined_behaviour \<and>
    unpack_object unpack_float f32 data \<noteq> Inl Undefined_behaviour \<and>
    unpack_object unpack_double f64 data \<noteq> Inl Undefined_behaviour \<and>
    unpack_object unpack_string s data \<noteq> Inl Undefined_behaviour \<and>
    unpack_object unpack_bin y data \<noteq> Inl Undefined_behaviour"
proof -
  have two: "bounded_readers upa upb" using assms(1,2) by (simp add: bounded_readers_def)
  have list: "bounded_list upa" using assms(1) by (simp add: bounded_list_def)
  note pair = bounded_readers.pair_bounded [OF two]
  note coll = bounded_list.list_bounded [OF list, of a]
  note map = bounded_readers.map_bounded [OF two, of a b]
  note obj = bounded_reader.object_safe [OF _ assms(3)]
  show ?thesis
    by (intro conjI pair coll map obj [OF assms(1)] obj [OF pair] obj [OF coll] obj [OF map]
        safe_uint8.object_safe safe_uint16.object_safe safe_uint32.object_safe safe_uint64.object_safe
        safe_int8.object_safe safe_int16.object_safe safe_int32.object_safe safe_int64.object_safe
        safe_null.object_safe safe_bool.object_safe safe_float.object_safe safe_double.object_safe
        safe_str.object_safe safe_bin.object_safe assms(3))
qed

theorem unpack_stays_in_bounds_witness:
  "unpack_object (unpack_collection (unpack_map unpack_string [] unpack_uint64 0) []) [] [0xdd, 0xff, 0xff, 0xff, 0xff]
     \<noteq> Inl Undefined_behaviour"
  using unpack_stays_in_bounds [OF safe_string_uint64.map_bounded [of "[]" 0] safe_bool.bounded_reader_axioms,
      of "[0xdd, 0xff, 0xff, 0xff, 0xff]" "[]" False]
  by (simp add: int_max_def)

text \<open>
  C37. What is unpacked has the type it was read at, from any bytes (fewer than
  \<open>2 ^ 31\<close>), for elements whose type is \<open>repackable\<close>: unsigned integers, signed ones of 8
  and 16 bits, null, booleans, floating-point numbers, strings, binaries, and pairs, lists
  and maps of these. A map has no key twice, and its keys and values, or the elements of a
  list, are valid at theirs (a string shorter than its format allows, and so on). So it can
  be packed again without an exception, and is unpacked from its own bytes to the same
  value, although the bytes it came from may have been longer, in another format, or have
  keys twice. Signed integers of 32 and 64 bits are not repackable: a list with -5 in the
  long format is unpacked to -5, but what that is packed to is unpacked to 251.
\<close>

theorem unpacked_is_valid:
  assumes "repackable p up a0 va" and "repackable q uq b0 vb" and "length data \<le> int_max"
  shows "(unpack_object (unpack_map up a0 uq b0) [] data = Inr m \<longrightarrow>
      list_all (\<lambda>item. va (fst item) \<and> vb (snd item)) m \<and> length m \<le> int_max \<and> distinct (map fst m) \<and>
      snd (pack_map p q m) = None \<and>
      (length (fst (pack_map p q m)) < sz_modulus \<longrightarrow>
         unpack_object (unpack_map up a0 uq b0) [] (fst (pack_map p q m)) = Inr m)) \<and>
    (unpack_object (unpack_collection up a0) [] data = Inr vs \<longrightarrow>
      list_all va vs \<and> length vs \<le> int_max \<and> snd (pack_collection p vs) = None \<and>
      (length (fst (pack_collection p vs)) < sz_modulus \<longrightarrow>
         unpack_object (unpack_collection up a0) [] (fst (pack_collection p vs)) = Inr vs)) \<and>
    unpack_object (unpack_collection unpack_int64 0) [] [0x91, 0xd0, 0xfb] = Inr [-5] \<and>
    unpack_object (unpack_collection unpack_int64 0) [] (fst (pack_collection pack_int64 [-5])) = Inr [251]"
proof -
  have list: "repackable_list p up a0 va" using assms(1) by (simp add: repackable_list_def)
  have two: "repackable_two p up a0 va q uq b0 vb" using assms(1,2) by (simp add: repackable_two_def)
  show ?thesis
    using repackable_two.map_repacked [OF two _ assms(3), of m] repackable_list.list_repacked [OF list _ assms(3), of vs]
      int64_not_repackable
    by blast
qed

theorem unpacked_is_valid_witness:
  "unpack_object (unpack_map unpack_string [] unpack_uint64 0) [] [0x82, 0xd9, 1, 107, 0xcc, 5, 0xa1, 107, 7] =
     Inr [([107], 7)] \<and>
   unpack_object (unpack_map unpack_string [] unpack_uint64 0) [] (fst (pack_map pack_string pack_uint64 [([107], 7)])) =
     Inr [([107], 7)]"
proof -
  have read: "unpack_object (unpack_map unpack_string [] unpack_uint64 0) []
      [0x82, 0xd9, 1, 107, 0xcc, 5, 0xa1, 107, 7] = Inr [([107], 7)]"
    by (simp add: unpack_object_def unpack_map_def unpack_map_header_def or_else_def read_conditional_def check_constant_def
        current_def up_bind_def up_return_def increment_def unpacker_of_def size_in_format_def unpack_loop.simps
        unpack_string_def read_integral_def sz_add_def sz_modulus_def mem_load_def size_of_def from_big_endian_def
        to_big_endian_def byteswap_def memory_bytes_def read_bytes_def unpack_uint64_def take_current_def
        skip_then_read_def int_max_def)
  have small: "length (fst (pack_map pack_string pack_uint64 [([107], 7)])) < sz_modulus"
    by (simp add: pack_map_def pack_map_header_def pack_string_def pack_uint64_bytes sz_modulus_def)
  have "length [0x82, 0xd9, 1, 107, 0xcc, 5, 0xa1, 107, 7 :: byte] \<le> int_max" by (simp add: int_max_def)
  from unpacked_is_valid [OF re_str.repackable_axioms re_uint64.repackable_axioms this, of "[([107], 7)]"] read small
  show ?thesis by blast
qed

text \<open>
  C38. A fixed array does not look at its own size: when the data hold more elements than
  it has, the copy runs over its end. A variant takes the view of its bytes before it has
  tested that they are there.
\<close>

theorem unpack_array_overflow:
  assumes "packable pack unpack initial valid" and "list_all valid vs" and "length vs \<le> int_max"
    and "length value < length vs" and "length (fst (pack_collection pack vs)) < sz_modulus"
    and "alts \<noteq> []" and "length alts \<le> 128"
  shows "unpack_object (unpack_array unpack initial) value (fst (pack_collection pack vs)) = Inl Undefined_behaviour \<and>
    unpack_variant alts v0 (unpacker_of [to_underlying FC_fixext1, 0]) = Inl Undefined_behaviour"
  using packable.array_overflow [OF assms(1-5)] variant_truncated [OF assms(6,7)] by blast

theorem unpack_array_overflow_witness:
  "unpack_object (unpack_array unpack_uint8 0) [0, 0] (fst (pack_collection pack_uint8 [1, 2, 3])) = Inl Undefined_behaviour"
proof -
  have "length (fst (pack_collection pack_uint8 [1, 2, 3])) < sz_modulus"
    by (simp add: pack_collection_def pack_array_header_def pack_uint8_bytes sz_modulus_def)
  then show ?thesis
    using unpack_array_overflow [OF uint8.packable_axioms, of "[1, 2, 3]" "[0, 0]" "[(unpack_bool, False)]"]
    by (simp add: int_max_def)
qed

end
