(* ===== verification/Spec2Isabelle.thy ===== *)
theory Spec2Isabelle
  imports ServerProperties SessionProperties PhrResponse PhrChunkedInv BinaryProperties
begin

text \<open>
  \<^bold>\<open>co_server: a model of the HTTP server and its libraries\<close>

  \<^bold>\<open>The program.\<close> The repository is an HTTP server in C++ on asio coroutines. A
  \<open>TestServer\<close> (\<open>src/main.cpp\<close>) serves a connection in a loop: \<open>Connection::read\<close>
  (\<open>src/connection.h\<close>) pulls bytes from the socket into a \<open>StaticBuffer\<close>
  (\<open>src/buffer.cpp\<close>) and feeds them to an \<open>Http::Request\<close> (\<open>src/message/http.cpp\<close>),
  which parses its header with \<open>phr_parse_request\<close> and decodes a chunked body with
  \<open>phr_decode_chunked\<close> (\<open>lib/picohttpparser/picohttpparser.c\<close>); \<open>Http::Router\<close> picks a
  handler by the path; the handler builds an \<open>Http::Response\<close>, and \<open>Connection::write\<close>
  sends it. \<open>BinaryMessage\<close> (\<open>src/message/binaryMessage.cpp\<close>) is a second kind of
  message, with a body in MessagePack (\<open>src/libModules/msgpack23.cpp\<close>).

  \<^bold>\<open>Theories.\<close>
  \<^item> \<open>Prelude\<close>: bytes, faults (undefined behaviour and exceptions as values), the
    wrap-around of \<open>size_t\<close>, checked copies. \<open>Errors\<close>: \<open>src/error.cpp\<close>.
  \<^item> \<open>Buffer\<close>: \<open>StaticBuffer\<close> as a record of the array and its two cursors; the locale
    \<open>byte_queue\<close> is the bounded queue it implements.
  \<^item> \<open>Router\<close>: the trie, \<open>add\<close>, \<open>find_\<close>, \<open>handle\<close>; the locale \<open>route_table\<close> says what
    a lookup gives in terms of the added routes (alignments of a pattern with a path).
  \<^item> \<open>PhrRequest\<close>, \<open>PhrRequestSpec\<close>: the request parser line by line, in the portable
    and in the SSE4.2 build; the locale \<open>incremental_parser\<close> (a verdict on a prefix
    stands, and a prefix of an accepted input is incomplete) is interpreted for the token,
    the line, the header and the whole request.
  \<^item> \<open>PhrChunked\<close>, \<open>PhrChunkedSpec\<close>: the chunked decoder as a step function on decoder,
    buffer and cursors, its loop, and the decoder \<open>dechunk\<close> on lists that it refines;
    \<open>PhrChunkedInv\<close>: the states a decoder can reach, and their invariant.
  \<^item> \<open>PhrResponse\<close>: the response parser and the header parser of the library, which the
    server does not call, in the same terms.
  \<^item> \<open>HttpTables\<close>, \<open>HttpRequest\<close>, \<open>HttpRequestSpec\<close>, \<open>HttpResponse\<close>: the two message
    classes with the four operations of \<open>MessageLike\<close>.
  \<^item> \<open>Message\<close>: the locales \<open>message_producer\<close>, \<open>body_consumer\<close>,
    \<open>header_consumer\<close> and \<open>message_consumer\<close>, the contract between a connection and a
    message. \<open>Connection\<close>, \<open>ConnectionWrite\<close>, \<open>ConnectionRead\<close>: the two coroutines over a socket, proved in those locales once.
  \<^item> \<open>Session\<close>: the handlers, the routes and the loop of \<open>TestServer\<close> (one pass of it is
    \<open>connect_once\<close>). \<open>ReadEnds\<close>, \<open>RequestEnds\<close>, \<open>BinaryEnds\<close>, \<open>SessionEnds\<close>: that reads and
    sessions end whatever the peer sends, over the locale \<open>progressing_consumer\<close> (each byte
    a message takes uses up a budget); \<open>Pipelining\<close>: bytes in the segment of a header's end;
    \<open>SessionProperties\<close>: the properties of both.
  \<^item> \<open>Server\<close>, \<open>ServerProperties\<close>: \<open>src/server.h\<close>, the listeners and the
    sessions of all threads, as a run over the events that asio delivers, a session at the
    grain of its operations on what the threads share; \<open>ServerLog\<close>: the states these lead
    to, and what the console shows in each; \<open>ExampleSocket\<close>:
    the socket and the request of the examples.
  \<^item> \<open>MsgpackBytes\<close>, \<open>MsgpackPack\<close>, \<open>MsgpackUnpack\<close>: format constants, packer and
    unpacker; \<open>MsgpackSpec\<close>, \<open>MsgpackTypes\<close>: what is packed is unpacked, type by type,
    over the locale \<open>packable\<close>; \<open>MsgpackTuples\<close>: tuples and objects with members, over
    \<open>packable_members\<close>; \<open>MsgpackExt\<close>: variants and time points; \<open>MsgpackSafe\<close>: the
    unpacker on arbitrary bytes, over the locale \<open>bounded_reader\<close>; \<open>MsgpackTyped\<close>: what it
    returns there is valid and can be packed again, over \<open>typed_reader\<close> and \<open>repackable\<close>.
  \<^item> \<open>BinaryMessage\<close>: the binary message, an interpretation of \<open>message_producer\<close> and
    of \<open>header_consumer\<close> (it does not take its header in pieces, so it is no
    \<open>message_consumer\<close>); \<open>BinaryProperties\<close>: the properties of both.

  \<^bold>\<open>Conventions.\<close> A class is a record with the members of the class; an operation is a
  function of the state that returns it updated. \<open>fault + 'a\<close> is a call that may end in
  undefined behaviour or with an exception. A view into a buffer is an offset and a size,
  or the bytes it shows where nothing writes to them meanwhile. The socket is a parameter:
  two operations on a state of any type, with the contracts \<open>write_contract\<close>,
  \<open>write_reliable\<close>, \<open>reads_script\<close>, \<open>write_keeps\<close> and \<open>finite_peer\<close> as hypotheses of the
  theorems that use them; \<open>list_socket\<close> satisfies all of them.

  \<^bold>\<open>Fuel.\<close> The loops of the parser, the decoder, the router and the unpacker are total
  functions with a measure. The loops on the socket and on a message (\<open>read_outer\<close>,
  \<open>write_outer\<close>, \<open>write_fill\<close>, \<open>write_flush\<close>, \<open>connect\<close>) may wait for the peer for ever
  and carry fuel; \<open>None\<close> is running out of it. The theorems name fuel that is enough: the
  number of segments for a read, the length of the message for a write, \<open>turn_fuel\<close> for an
  exchange with well-formed requests. For a peer that sends anything, the fuel of a read is
  the budget of the message (the header buffer, the limit of the body and \<open>most_read\<close>, what
  the chunked decoder can be given before its test for overhead stops it) and the number of
  deliveries; \<open>turn_limit\<close> is that of one pass of the session.

  \<^bold>\<open>Properties.\<close> C1 to C5 are about whole exchanges on a connection (C2 and C4: that
  they end), C6 to C8 about the router, C9 to C15 about the parser and the decoder, C16 to
  C22 about the request, C23 and C24 about the response, C25 about the buffer, C26 to C28
  about the server as a whole, C29 to C31 about binary messages, C32 to C38 about
  MessagePack, C39 about the response parser and C40 about the states of the chunked
  decoder.

  \<^bold>\<open>Not modelled.\<close> Threads, acceptors, sockets and the scheduler of asio: what they
  decide is a parameter, or the list of events of a run; the JSON writer of glaze, a
  parameter of \<open>server_main\<close>; the module wrappers with commented-out bodies in
  \<open>src/libModules\<close>; allocation failure; addresses of objects (only their sizes matter to
  the code).
\<close>

section \<open>Serving a connection\<close>

text \<open>
  C1. For every peer that sends well-formed requests (without a body, or with one of the
  length that its Content-Length declares, up to a megabyte; none in chunks), header and
  body of each cut into segments in any way, with a segment boundary behind every header
  and behind every body (without it, see C19), and that takes what it is sent, the
  server's loop reads every request, sends for each the page of the route its path
  matches (or the 404 page), in the order of the requests and nothing else, and ends with
  \<open>CONNECTION_ENDED\<close> when the peer closes. The contents of the uninitialised memory do not
  matter, and fuel that exceeds the longest exchange by the number of exchanges is enough.
\<close>

theorem server_answers_requests:
  assumes "peer S script wire" and "test_server = Inr R" and "list_all exchange_ok exs"
    and "script s = concat (map ex_segs exs)" and "\<forall>i. length (snd (stale i)) = 4096"
    and "\<forall>ex \<in> set exs. turn_fuel ex \<le> K" and "K + length exs + 2 \<le> fuel"
  shows "\<exists>c. connect fuel S R stale 0 (connection_new s) = Some (Inr (c, Error_of CONNECTION_ENDED)) \<and>
    wire (cn_socket c) = wire s @ concat (map ex_reply exs)"
proof -
  have s: "script (cn_socket (connection_new s)) = concat (map ex_segs exs)"
    "wire (cn_socket (connection_new s)) = wire s"
    using assms(4) by (simp_all add: connection_new_def)
  show ?thesis
    using connect_serves [OF assms(1,2) idle_new assms(3) s(1), of stale K fuel 0] assms(5-7) s(2) by simp
qed

theorem server_answers_requests_witness:
  "\<exists>R c. test_server = Inr R \<and>
     connect 6000 list_socket R (\<lambda>_. (True, replicate 4096 7)) 0
       (connection_new (ex_segs example_exchange, [])) = Some (Inr (c, Error_of CONNECTION_ENDED)) \<and>
     snd (cn_socket c) = page (bytes ''1.1'') (bytes ''Hello twooo2234567!'')"
proof -
  obtain R where R: "test_server = Inr R" using test_server_parts by blast
  have "\<exists>c. connect 6000 list_socket R (\<lambda>_. (True, replicate 4096 7)) 0
       (connection_new (ex_segs example_exchange, [])) = Some (Inr (c, Error_of CONNECTION_ENDED)) \<and>
     snd (cn_socket c) = page (bytes ''1.1'') (bytes ''Hello twooo2234567!'')"
    using server_answers_requests [OF peer_list_socket R, of "[example_exchange]" "(ex_segs example_exchange, [])"
        "\<lambda>_. (True, replicate 4096 7)" 5000 6000] example_exchange_ok example_exchange_fuel
    by (simp add: example_reply)
  with R show ?thesis by blast
qed

text \<open>
  C3. Reading one request: however its header and its body are cut into segments of at
  most the buffer's size, with a segment boundary behind the header, \<open>Connection::read\<close>
  returns without error, the request holds exactly the meth, tgt, version, fields,
  path, parameters and body that were sent, the connection is ready for the next message,
  and what came behind the body stays in its buffer.
\<close>

theorem request_read_from_segments:
  assumes "request_ok hb meth tgt k hs body" and "holds c READ_START [] cap w"
    and "delivers S (cn_socket c) (hsegs @ bsegs) t"
    and "\<forall>seg \<in> set (hsegs @ bsegs). seg \<noteq> [] \<and> length seg \<le> cap"
    and "concat hsegs = request_text meth tgt k hs" and "concat bsegs = body @ x"
    and "if body = [] then bsegs = [] else length (concat (butlast bsegs)) < length body"
    and "length (hsegs @ bsegs) + 2 < fuel"
  shows "\<exists>c'. connection_read fuel S Request_message c (request_span hb) =
      Some (Inr (c', request_read hb meth tgt k hs body, Error_none)) \<and>
    holds c' READ_START x cap w \<and> cn_socket c' = t"
proof -
  have "expects_header hb meth tgt k hs body (request_span hb) (concat hsegs)"
    using assms(1,5) by (auto simp: expects_header_def intro!: exI [of _ "[]"])
  moreover have "hsegs \<noteq> []" using assms(5) by (auto simp: request_text_def)
  ultimately show ?thesis
    using http.connection_read_ok [OF assms(2,3,4), of hb meth tgt k hs body "request_span hb" x fuel]
      assms(6-8) by auto
qed

text \<open>A request with a body in two segments; a byte of the next message follows.\<close>

definition post_fields :: "(byte list \<times> byte list) list" where
  "post_fields = [(bytes ''content-length'', bytes ''5'')]"

definition post_text :: "byte list" where
  "post_text = request_text (bytes ''POST'') (bytes ''/p?a=1'') 0 post_fields"

lemma post_ok: "request_ok (replicate 100 0) (bytes ''POST'') (bytes ''/p?a=1'') 0 post_fields (bytes ''hello'')"
  by (simp add: post_fields_def request_ok_def well_formed_def is_name_def
      is_target_def is_value_def is_token_char_def token_char_map_def is_ctl_def is_blank_def
      maxNumHeaders_def bad_length_def declared_length_def header_lookup_def from_chars_def is_digit_def
      decimal_value_def digit_val_def sz_modulus_def fieldStrArr_def fieldStrArrLower_def target_path_def
      request_text_def header_text_def)

theorem request_read_from_segments_witness:
  "\<exists>c'. connection_read 9 list_socket Request_message
      (connection_new ([post_text, bytes ''he'', bytes ''lloX''], [])) (request_span (replicate 100 0)) =
      Some (Inr (c', request_read (replicate 100 0) (bytes ''POST'') (bytes ''/p?a=1'') 0 post_fields (bytes ''hello''),
        Error_none)) \<and>
    content (cn_readBuffer c') = bytes ''X''"
proof -
  let ?c = "connection_new ([post_text, bytes ''he'', bytes ''lloX''], []) :: (byte list list \<times> byte list) connection"
  have h: "holds ?c READ_START [] 4096 (write_side ?c)" using idle_read [OF idle_new] .
  have len: "length post_text \<le> 4096" "post_text \<noteq> []"
    by (simp_all add: post_text_def request_text_def post_fields_def header_text_def)
  have d: "delivers list_socket (cn_socket ?c) ([post_text] @ [bytes ''he'', bytes ''lloX'']) ([], [])"
    by (simp add: connection_new_def list_socket_def)
  show ?thesis
    using request_read_from_segments [OF post_ok h d, of "bytes ''X''" 9] len
    by (auto simp: post_text_def holds_def)
qed

text \<open>
  C5. Writing a response: over a socket that takes a prefix of what it is offered,
  \<open>Connection::write\<close> of a response that has not been sent yet returns; what has reached
  the wire is a prefix of its header, with the default lines, and its body; it is all of
  it when the call returns no error, and an error is returned only if the socket failed.
\<close>

theorem response_written_to_socket:
  assumes "write_contract S wire" and "sb_inv (cn_writeBuffer c)" and "content (cn_writeBuffer c) = []"
    and "0 < length (sb_buffer (cn_writeBuffer c))" and "cn_writeState c = WRITE_START"
    and "rs_open r" and "rs_declared r \<le> max_size"
    and "length (rs_full_header r @ rs_full_body r) + length (sb_buffer (cn_writeBuffer c)) + 2 < fuel"
  shows "\<exists>c' r' e. connection_write fuel S Response_message c r = Some (Inr (c', r', e)) \<and>
    delivered S wire c (rs_full_header r @ rs_full_body r) c' e"
proof -
  have parts: "rs_hdr r = rs_full_header r" "rs_bod r = rs_full_body r" "rs_hready r"
    using assms(6,7) by (simp_all add: rs_hdr_def rs_bod_def rs_open_def rs_hready_def rs_bready_def)
  show ?thesis
    using response_producer.connection_write_ok [OF assms(1-5) parts(3), of fuel] assms(8)
    unfolding parts(1,2) by blast
qed

theorem response_written_to_socket_witness:
  "\<exists>c' r' e. connection_write 9000 list_socket Response_message
      (connection_new ([], [])) (setBody_string (rs_blank False []) (bytes ''hi'')) = Some (Inr (c', r', e)) \<and>
    delivered list_socket snd (connection_new ([], []))
      (bytes ''Content-Type: text/plain'' @ [13, 10] @ bytes ''Connection: keep-alive'' @ [13, 10] @
       bytes ''Content-Length: 2'' @ [13, 10, 13, 10] @ bytes ''hi'') c' e"
proof -
  let ?r = "setBody_string (rs_blank False []) (bytes ''hi'')"
  let ?c = "connection_new ([], []) :: (byte list list \<times> byte list) connection"
  have c: "sb_inv (cn_writeBuffer ?c)" "content (cn_writeBuffer ?c) = []"
      "0 < length (sb_buffer (cn_writeBuffer ?c))" "cn_writeState ?c = WRITE_START"
  proof -
    have "idle ?c" by (rule idle_new)
    then show "sb_inv (cn_writeBuffer ?c)" "content (cn_writeBuffer ?c) = []"
      "0 < length (sb_buffer (cn_writeBuffer ?c))" "cn_writeState ?c = WRITE_START"
      by (simp_all add: idle_def)
  qed
  have w: "write_contract list_socket snd" using peer_list_socket by (simp add: peer_def)
  have r: "rs_open ?r" "rs_declared ?r \<le> max_size"
    by (simp_all add: rs_open_def rs_inv_def setBody_string_def rs_blank_def rs_limit_def max_size_def
        rs_declared_def rs_payload_def)
  have t: "rs_full_header ?r @ rs_full_body ?r =
      bytes ''Content-Type: text/plain'' @ [13, 10] @ bytes ''Connection: keep-alive'' @ [13, 10] @
       bytes ''Content-Length: 2'' @ [13, 10, 13, 10] @ bytes ''hi''"
    by (simp add: rs_full_header_def rs_full_body_def rs_default_defs rs_payload_def rs_declared_def
        setBody_string_def rs_blank_def rs_text_def field_line_def rn_def to_chars.simps digit_byte_def
        resize_def)
  have f: "length (rs_full_header ?r @ rs_full_body ?r) + length (sb_buffer (cn_writeBuffer ?c)) + 2 < 9000"
    unfolding t by (simp add: connection_new_def static_buffer_new_def)
  show ?thesis
    using response_written_to_socket [OF w c r f] unfolding t .
qed


section \<open>The router\<close>

text \<open>
  C6. Precedence: when a table was built by adding routes to an empty router, the handler
  the router runs is that of the least alignment of any route with the path: literal
  before parameter before wildcard at the first segment where two routes differ, and the
  wildcard that takes fewest segments.
\<close>

theorem router_runs_least_route:
  assumes "router_add_all router_new routes = Inr r" and "find_node (root r) path = Some n"
  shows "\<exists>al f. router_handle r path args = Some (f args) \<and> least_candidate (root r) path al f"
proof -
  obtain f where f: "handler n = Some f" using find_node_handler [OF assms(2)] by blast
  then have s: "search_handler (root r) path = Some f" using assms(2) by (simp add: search_handler_def)
  from search_handler_least [OF s] s show ?thesis by (auto simp: router_handle_search)
qed

definition example_routes :: "(byte list \<times> (unit \<Rightarrow> nat)) list" where
  "example_routes =
     [(bytes ''/a/:x'', \<lambda>_. 1), (bytes ''/a/*'', \<lambda>_. 2), (bytes ''/a/b'', \<lambda>_. 3), (bytes ''/*/c'', \<lambda>_. 4)]"

definition example_router :: "(unit \<Rightarrow> nat) router" where
  "example_router = (case router_add_all router_new example_routes of Inr r \<Rightarrow> r | Inl _ \<Rightarrow> router_new)"

lemma example_segments:
  "route_segments (bytes ''/a/:x'') = Inr [bytes ''a'', bytes '':x'']"
  "route_segments (bytes ''/a/*'') = Inr [bytes ''a'', bytes ''*'']"
  "route_segments (bytes ''/a/b'') = Inr [bytes ''a'', bytes ''b'']"
  "route_segments (bytes ''/*/c'') = Inr [bytes ''*'', bytes ''c'']"
  by (simp_all add: route_segments_eq segments_of_def)

lemma example_router_ok: "router_add_all router_new example_routes = Inr example_router"
  by (simp add: example_routes_def example_router_def router_add_def example_segments del: bytes_Cons)

lemma example_root:
  "root example_router =
     insert_route (\<lambda>_. 4) [bytes ''*'', bytes ''c''] (insert_route (\<lambda>_. 3) [bytes ''a'', bytes ''b'']
       (insert_route (\<lambda>_. 2) [bytes ''a'', bytes ''*''] (insert_route (\<lambda>_. 1) [bytes ''a'', bytes '':x''] node_new)))"
  by (simp add: example_routes_def example_router_def router_add_def example_segments router_new_def
      del: bytes_Cons)

lemma example_router_finds:
  "\<exists>n. find_node (root example_router) [bytes ''a'', bytes ''b''] = Some n \<and> handler n = Some (\<lambda>_. 3)"
  by (simp add: example_root node_new_def)

theorem router_runs_least_route_witness:
  "\<exists>al. router_handle example_router [bytes ''a'', bytes ''b''] () = Some 3 \<and>
     (\<exists>f. f () = 3 \<and> least_candidate (root example_router) [bytes ''a'', bytes ''b''] al f)"
proof -
  obtain n where n: "find_node (root example_router) [bytes ''a'', bytes ''b''] = Some n" "handler n = Some (\<lambda>_. 3)"
    using example_router_finds by blast
  have "router_handle example_router [bytes ''a'', bytes ''b''] () = Some 3"
    using n by (simp add: router_handle_def)
  with router_runs_least_route [OF example_router_ok n(1), of "()"] show ?thesis by auto
qed

text \<open>
  C7. Completeness: the router falls back to its not-found handler exactly when no added
  route matches the path. Adding a route defines the handler of exactly its own pattern
  list: it replaces the handler of an equal route, whatever the parameters are called, and
  changes no other.
\<close>

theorem router_not_found_iff:
  assumes "router_add_all router_new routes = Inr r"
  shows "(find_node (root r) path = None \<longleftrightarrow>
      (\<forall>rt \<in> set routes. \<not> matches (map pattern_of (segments_of (fst rt))) path)) \<and>
    route_at (insert_route f segs n) ps = (if ps = map pattern_of segs then Some f else route_at n ps)"
proof
  have root: "root r = fold (\<lambda>(segs, f). insert_route f segs) (map (apfst segments_of) routes) node_new"
    using router_add_all_root [OF assms] by (simp add: router_new_def)
  have "find_node (root r) path = None \<longleftrightarrow> search_handler (root r) path = None"
    using find_node_handler [of "root r" path] by (auto simp: search_handler_def split: option.splits)
  also have "\<dots> \<longleftrightarrow> (\<forall>rt \<in> set (map (apfst segments_of) routes). \<not> matches (map pattern_of (fst rt)) path)"
    unfolding root by (rule rt.search_build)
  finally show "find_node (root r) path = None \<longleftrightarrow>
      (\<forall>rt \<in> set routes. \<not> matches (map pattern_of (segments_of (fst rt))) path)" by (simp add: comp_def)
  show "route_at (insert_route f segs n) ps = (if ps = map pattern_of segs then Some f else route_at n ps)"
    unfolding route_at_insert by simp
qed

theorem router_not_found_iff_witness:
  "find_node (root example_router) [bytes ''b'', bytes ''d''] = None"
proof -
  have two: "{Suc 0..Suc (Suc 0)} = {1, 2}" by auto
  show ?thesis
    using conjunct1 [OF router_not_found_iff [OF example_router_ok, of "[bytes ''b'', bytes ''d'']"]]
    by (simp add: example_routes_def segments_of_def pattern_of_def two)
qed

text \<open>
  C8. The segments of a path that is written as non-empty segments behind slashes are
  those segments, both for a route that is added and for the target of a request with a
  query behind it.
\<close>

theorem path_segments_roundtrip:
  assumes "segs \<noteq> []" and "\<forall>s \<in> set segs. s \<noteq> [] \<and> ch CHR ''/'' \<notin> set s \<and> ch CHR ''?'' \<notin> set s"
  shows "route_segments (concat (map (\<lambda>s. ch CHR ''/'' # s) segs)) = Inr segs \<and>
    deserialize_path (concat (map (\<lambda>s. ch CHR ''/'' # s) segs) @ ch CHR ''?'' # query) = Inr segs"
proof -
  let ?p = "concat (map (\<lambda>s. ch CHR ''/'' # s) segs)"
  have split: "filter (\<lambda>s. s \<noteq> []) (split_at_byte (ch CHR ''/'') ?p) = segs"
    using assms(2) by (intro split_segments_concat) auto
  have ne: "?p \<noteq> []" using assms(1) by (cases segs) auto
  have "?p = concat (map (\<lambda>s. ch CHR ''/'' # s) (butlast segs)) @ ch CHR ''/'' # last segs"
    using assms(1) by (cases segs rule: rev_cases) auto
  moreover have "last segs \<noteq> []" "ch CHR ''/'' \<notin> set (last segs)" using assms by auto
  ultimately have last: "last ?p \<noteq> ch CHR ''/''" by (metis last_append last_ConsR last_in_set list.distinct(1))
  have "\<And>c. c \<in> set ?p \<Longrightarrow> c \<noteq> ch CHR ''?''" using assms(2) by (auto split: if_splits)
  then have path: "target_path (?p @ ch CHR ''?'' # query) = ?p"
    unfolding target_path_def by (subst takeWhile_append2) auto
  have "segments_of ?p = segs" using split last ne by (simp add: segments_of_def)
  moreover have "path_of (?p @ ch CHR ''?'' # query) = segs"
    unfolding path_of_def path using split last by simp
  ultimately show ?thesis
    using ne path deserialize_path_eq [of "?p @ ch CHR ''?'' # query"] by (simp add: route_segments_eq)
qed

theorem path_segments_roundtrip_witness:
  "deserialize_path (bytes ''/ab/c?x=1'') = Inr [bytes ''ab'', bytes ''c'']"
  using path_segments_roundtrip [of "[bytes ''ab'', bytes ''c'']" "bytes ''x=1''"] by simp

section \<open>The request parser\<close>

text \<open>
  C9. Parsing the text of a request, with any bytes behind it, gives that request, and the
  count of bytes of the text. A proper prefix of it is reported as incomplete (-2), never
  as malformed: a request that is still arriving is not refused.
\<close>

theorem request_parse_roundtrip:
  assumes "is_name meth" and "is_target tgt" and "k < 10"
    and "list_all (\<lambda>(name, v). is_name name \<and> is_value v) hs" and "length hs \<le> m"
    and "length (request_text meth tgt k hs) < 2 ^ 31" and "n < length (request_text meth tgt k hs)"
  shows "phr_parse_request sse (request_text meth tgt k hs @ rest) m 0 =
      Inr (\<lparr>pr_method = meth, pr_path = tgt, pr_minor_version = int k,
            pr_headers = map parsed_header hs\<rparr>, int (length (request_text meth tgt k hs))) \<and>
    (\<exists>l. phr_parse_request sse' (take n (request_text meth tgt k hs)) m 0 = Inl (Partial, l))"
proof -
  have "request_text meth tgt k hs = take n (request_text meth tgt k hs) @ drop n (request_text meth tgt k hs)"
    "drop n (request_text meth tgt k hs) \<noteq> []" using assms(7) by simp_all
  from phr_parse_request_prefix [OF assms(1-5) this] phr_parse_request_text [OF assms(1-6)] show ?thesis
    by blast
qed

lemma post_parts:
  "is_name (bytes ''POST'')" "is_target (bytes ''/p?a=1'')"
  "list_all (\<lambda>(name, v). is_name name \<and> is_value v) post_fields" "length post_fields \<le> 32"
  "length post_text = 43"
  by (simp_all add: post_fields_def post_text_def is_name_def is_target_def is_value_def is_token_char_def
      token_char_map_def is_ctl_def is_blank_def request_text_def header_text_def)

theorem request_parse_roundtrip_witness:
  "phr_parse_request True (post_text @ [0, 255]) 32 0 =
     Inr (\<lparr>pr_method = bytes ''POST'', pr_path = bytes ''/p?a=1'', pr_minor_version = 0,
           pr_headers = [\<lparr>ph_name = Some (bytes ''content-length''), ph_value = bytes ''5''\<rparr>]\<rparr>, 43) \<and>
   (\<exists>l. phr_parse_request False (take 30 post_text) 32 0 = Inl (Partial, l))"
  using request_parse_roundtrip [OF post_parts(1,2) _ post_parts(3,4), of 0 30 True "[0, 255]" False] post_parts(5)
  by (simp add: post_text_def post_fields_def parsed_header_def)

text \<open>
  C10. A verdict stands: a request that parsed, or an input refused as malformed, is parsed
  the same, or refused, however much input follows.
\<close>

theorem request_verdict_stable:
  assumes "parse_request sse m xs = v" and "\<forall>n. v \<noteq> Inl (Partial, n)"
  shows "parse_request sse m (xs @ ys) =
    (case v of Inl e \<Rightarrow> Inl e | Inr (r, rest) \<Rightarrow> Inr (r, rest @ ys))"
proof (cases v)
  case (Inl e)
  with assms(2) have "\<not> waits_counted e" by (cases e) (auto simp: waits_counted_def)
  with request.parse_reject [of sse m xs e ys] assms(1) Inl show ?thesis by simp
next
  case (Inr b)
  then obtain r rest where "v = Inr (r, rest)" by (cases b) auto
  with request.parse_extend [of sse m xs r rest ys] assms(1) show ?thesis by simp
qed

theorem request_verdict_stable_witness:
  "parse_request False 32 (bytes ''GE(T'' @ bytes '' / HTTP/1.1'') = Inl (Malformed, 0)"
proof -
  have "parse_request False 32 (bytes ''GE(T'') = Inl (Malformed, 0)"
    by (simp add: parse_request_def request_line_def skip_empty_line_def parse_token_eq is_token_char_def
        token_char_map_def)
  from request_verdict_stable [OF this, of "bytes '' / HTTP/1.1''"] show ?thesis by simp
qed

text \<open>
  C11. The build with SSE4.2, which scans 16 bytes at a time, and the build without, which
  scans lines in strides of 8 bytes, return the same for every input.
\<close>

theorem request_parser_builds_agree:
  "phr_parse_request sse buf m last_len = phr_parse_request False buf m last_len"
  by (rule phr_parse_request_sse)

text \<open>
  C12. The parser never stores more headers than the caller's array holds, whether it
  succeeds or fails on the way.
\<close>

theorem request_headers_bounded:
  "case parse_headers sse m 0 buf of
     Inl (e, n) \<Rightarrow> n \<le> m
   | Inr (hs, rest) \<Rightarrow> length hs \<le> m \<and> length rest \<le> length buf"
proof (cases "parse_headers sse m 0 buf")
  case (Inl e)
  then show ?thesis using parse_headers_count_error [of sse m 0 buf] by (cases e) auto
next
  case (Inr b)
  then obtain hs rest where r: "parse_headers sse m 0 buf = Inr (hs, rest)" by (cases b) auto
  with parse_headers_suffix [OF r] parse_headers_count [OF r] show ?thesis by auto
qed


section \<open>The chunked decoder\<close>

text \<open>
  C13. On a well-formed chunked body followed by anything the decoder returns the number of
  bytes that follow, with the chunks' data at the front of the buffer, the bytes that
  follow behind them, and the reported size the length of the data.
\<close>

theorem chunked_body_decodes:
  assumes "between d" and "consume_trailer d" and "list_all is_chunk cks"
    and "is_size h 0" and "is_extension e" and "list_all is_trailer ls"
  shows "\<exists>d' buf'. phr_decode_chunked d (chunked_text cks h e ls @ rest) =
      Inr (d', buf', length (concat (map chunk_data cks)), int (length rest)) \<and>
    take (length (concat (map chunk_data cks)) + length rest) buf' = concat (map chunk_data cks) @ rest"
proof -
  let ?buf = "chunked_text cks h e ls @ rest"
  let ?fed = "d\<lparr>total_read := sz_add (total_read d) (length ?buf)\<rparr>"
  have "between ?fed" "consume_trailer ?fed" using assms(1,2) by (simp_all add: between_def)
  then have "dechunk ?fed ?buf =
      (Done, ?fed\<lparr>ck_state := CHUNKED_IN_TRAILERS_LINE_HEAD\<rparr>, concat (map chunk_data cks), rest)"
    by (rule dechunk_body) (use assms in simp_all)
  then show ?thesis by (rule phr_decode_chunked_spec) auto
qed

definition example_chunks :: "chunk list" where
  "example_chunks = [(bytes ''5'', bytes '';x=1'', bytes ''hello''), (bytes ''00A'', [], bytes ''0123456789'')]"

lemma example_chunks_ok:
  "list_all is_chunk example_chunks" "is_size (bytes ''0'') 0" "is_extension []"
  "list_all is_trailer [bytes ''t: 1'']" "between decoder_zero" "between (decoder_zero\<lparr>consume_trailer := True\<rparr>)"
  by (simp_all add: example_chunks_def is_chunk_def is_size_def is_extension_def is_trailer_def
      hex_value_def decode_hex_def between_def decoder_zero_def)

theorem chunked_body_decodes_witness:
  "\<exists>d' buf'. phr_decode_chunked (decoder_zero\<lparr>consume_trailer := True\<rparr>)
      (chunked_text example_chunks (bytes ''0'') [] [bytes ''t: 1''] @ bytes ''GET'') = Inr (d', buf', 15, 3) \<and>
    take 18 buf' = bytes ''hello0123456789GET''"
proof -
  let ?data = "concat (map chunk_data example_chunks)"
  have data: "length ?data = 15" "15 + length (bytes ''GET'') = 18"
      "?data @ bytes ''GET'' = bytes ''hello0123456789GET''" "int (length (bytes ''GET'')) = 3"
    by (simp_all add: example_chunks_def chunk_data_def)
  have "consume_trailer (decoder_zero\<lparr>consume_trailer := True\<rparr>)" by simp
  from chunked_body_decodes [OF example_chunks_ok(6) this example_chunks_ok(1-4), of "bytes ''GET''"]
  show ?thesis unfolding data .
qed

text \<open>
  C14. The decoder never reads or writes outside the buffer it is given, keeps the
  buffer's length, reports a size within it, and returns -2, -1 or a count of bytes that
  lie behind the decoded ones.
\<close>

theorem chunked_decoder_safe:
  "\<exists>d' buf' size ret. phr_decode_chunked d buf = Inr (d', buf', size, ret) \<and>
     length buf' = length buf \<and> size \<le> length buf \<and>
     (ret = -2 \<or> ret = -1 \<or> 0 \<le> ret \<and> size + nat ret \<le> length buf)"
proof -
  obtain x d' out rest where
    r: "dechunk (d\<lparr>total_read := sz_add (total_read d) (length buf)\<rparr>) buf = (x, d', out, rest)"
    by (cases "dechunk (d\<lparr>total_read := sz_add (total_read d) (length buf)\<rparr>) buf") auto
  show ?thesis
    by (rule phr_decode_chunked_spec [OF r], cases x) auto
qed

text \<open>
  C15. Streaming: the loop of the decoder on a buffer that holds two pieces ends as it does
  on the first piece, going on with the second one if the first was incomplete: the same
  verdict, the same state, the same data.
\<close>

theorem chunked_streaming:
  "\<exists>x d' buf src dst. chunk_loop (d, xs @ ys, 0, 0) = Inr (x, d', buf, src, dst) \<and>
     (x, d', take dst buf, drop src buf) =
       (case dechunk d xs of
          (Incomplete, e, out, _) \<Rightarrow>
            (case dechunk e ys of (y, e', out', rest) \<Rightarrow> (y, e', out @ out', rest))
        | (y, e, out, rest) \<Rightarrow> (y, e, out, rest @ ys))"
proof -
  obtain r where r: "chunk_loop (d, xs @ ys, 0, 0) = Inr r" "refines (xs @ ys) 0 r (dechunk d (xs @ ys))"
    using chunk_loop_refines [of 0 0 "xs @ ys" d] by auto
  obtain x d' buf src dst where s: "r = (x, d', buf, src, dst)" by (cases r)
  obtain y e out rest where t: "dechunk d xs = (y, e, out, rest)" by (cases "dechunk d xs")
  have "(x, d', take dst buf, drop src buf) = dechunk d (xs @ ys)"
    using r(2) s by (cases "dechunk d (xs @ ys)") (auto simp: refines_def)
  also have "\<dots> = resume (y, e, out, rest) ys" unfolding t [symmetric] by (rule dechunk_append)
  finally show ?thesis
    using r(1) s t by (cases y) (auto simp: resume_simps prepend_def split: prod.splits)
qed


section \<open>Requests\<close>

text \<open>
  C16. Collecting a header: a request takes the bytes of a well-formed header piece by
  piece. A piece that does not end the header is taken whole, with no error, and the next
  bytes are expected; the piece that ends it is taken whole and the header is parsed into
  the fields of the request.
\<close>

theorem header_collected_piecewise:
  assumes "expects_header hb meth tgt k hs body m (h1 @ h2)" and "h1 \<noteq> []"
  shows "\<exists>m'. rq_consumeHeaderSome m h1 = Inr ((Error_none, h2 = [], length h1), m') \<and>
    (if h2 = [] then expects_body hb meth tgt k hs body m' body
     else expects_header hb meth tgt k hs body m' h2)"
proof (cases "h2 = []")
  case True
  with assms http.header_last [of hb meth tgt k hs body m h1] show ?thesis by auto
next
  case False
  with assms http.header_part [of hb meth tgt k hs body m h1 h2] show ?thesis by auto
qed

theorem header_collected_piecewise_witness:
  "\<exists>m'. rq_consumeHeaderSome (request_span (replicate 100 0)) (take 21 post_text) =
      Inr ((Error_none, False, 21), m') \<and>
    expects_header (replicate 100 0) (bytes ''POST'') (bytes ''/p?a=1'') 0 post_fields (bytes ''hello'') m'
      (drop 21 post_text)"
proof -
  have "expects_header (replicate 100 0) (bytes ''POST'') (bytes ''/p?a=1'') 0 post_fields (bytes ''hello'')
      (request_span (replicate 100 0)) (take 21 post_text @ drop 21 post_text)"
    using post_ok by (auto simp: expects_header_def post_text_def intro!: exI [of _ "[]"])
  moreover have "take 21 post_text \<noteq> []" "drop 21 post_text \<noteq> []" using post_parts(5) by auto
  ultimately show ?thesis
    using header_collected_piecewise [of "replicate 100 0" "bytes ''POST''" "bytes ''/p?a=1''" 0 post_fields
        "bytes ''hello''" "request_span (replicate 100 0)" "take 21 post_text" "drop 21 post_text"]
      post_parts(5) by simp
qed

text \<open>
  C17. A header that does not end within the header buffer is refused with
  \<open>INVALID_MESSAGE\<close> by the call that would fill the buffer, and nothing is written
  outside the buffer.
\<close>

theorem header_overflow_refused:
  assumes "length hb < sz_modulus" and "quiet (0, 0) (take (length hb) (t @ ds))"
    and "length t < length hb" and "length hb \<le> length (t @ ds)"
  shows "\<exists>m'. rq_consumeHeaderSome (buffered (request_span hb) t) ds =
    Inr ((Error_of INVALID_MESSAGE, True, 0), m')"
proof -
  have "take (length hb) (t @ ds) = t @ take (length hb - length t) ds" using assms(3) by simp
  with assms(2) have q: "quiet (0, 0) t" "quiet (scan t) (take (length hb - length t) ds)"
    by (simp_all add: quiet_append scan_def)
  have "snd (scan t) \<noteq> 4" using quiet_last [OF q(1)] by (cases "t = []") (simp_all add: scan_def)
  from consume_header_overflow [OF blank_span [OF assms(1)], of t ds] q(2) assms(3,4) this
  show ?thesis by simp
qed

theorem header_overflow_refused_witness:
  "\<exists>m'. rq_consumeHeaderSome (request_span (replicate 8 0)) (bytes ''GET /index.html'') =
    Inr ((Error_of INVALID_MESSAGE, True, 0), m')"
  using header_overflow_refused [of "replicate 8 0" "[]" "bytes ''GET /index.html''"]
  by (simp add: sz_modulus_def)

text \<open>
  C18. What \<open>deserialize_\<close> does with a buffer that starts with a well-formed header: it
  fails exactly if the first Content-Length is not a number; a target without a path
  before its query makes it read the last byte of an empty view; otherwise it fills in the
  fields, the path and the parameters, and ignores the bytes behind the header. Of every
  target the query is split at the ampersands, a trailing empty piece dropped, and every
  piece at its first equals sign.
\<close>

theorem header_deserialized:
  assumes "well_formed meth tgt k hs" and "unparsed r"
    and "rq_headerBuffer r = request_text meth tgt k hs @ rest"
    and "length (request_text meth tgt k hs) < 2 ^ 31"
  shows "request_deserialize r =
      (if bad_length hs then Inr (False, parsed_lines r meth tgt k hs)
       else if target_path tgt = [] then Inl Undefined_behaviour
       else Inr (True, parsed r meth tgt k hs)) \<and>
    deserialize_params target = params_of target"
  using request_deserialize_text [OF assms] deserialize_params_eq by blast

theorem header_deserialized_witness:
  "\<exists>r. request_deserialize (request_span (post_text @ [1, 2])) = Inr (True, r) \<and>
     rq_path r = [bytes ''p''] \<and> rq_params r = [(bytes ''a'', bytes ''1'')] \<and> rq_contentLength r = Some 5"
proof -
  have ok: "well_formed (bytes ''POST'') (bytes ''/p?a=1'') 0 post_fields" "\<not> bad_length post_fields"
    "target_path (bytes ''/p?a=1'') \<noteq> []" "declared_length post_fields = Some 5"
    using post_ok by (simp_all add: request_ok_def)
  have u: "unparsed (request_span (post_text @ [1, 2]))" by (simp add: unparsed_def request_span_def)
  have "request_deserialize (request_span (post_text @ [1, 2])) =
      Inr (True, parsed (request_span (post_text @ [1, 2])) (bytes ''POST'') (bytes ''/p?a=1'') 0 post_fields)"
    using header_deserialized [OF ok(1) u, of "[1, 2]"] ok(2,3) post_parts(5) by (simp add: post_text_def)
  then show ?thesis
    using ok(4) by (simp add: parsed_def path_of_def params_of_def target_path_def drop_last_empty_def key_value_def)
qed

text \<open>
  C20. A body with a Content-Length: whatever is offered, the request takes as much as it
  still expects and not more, appends it, and is finished exactly when all of the declared
  bytes are there. A request that declares more than its limit of one megabyte is refused
  before any memory is reserved for its body.
\<close>

theorem length_body_collected:
  assumes "collecting r n b" and "rq_contentLength q = Some l" and "rq_maxBodySize q < l"
  shows "(\<exists>r'. rq_consumeBodySome r ds =
      Inr ((Error_none, n \<le> length b + length ds, min (length ds) (n - length b)), r') \<and>
    collecting r' n (b @ take (n - length b) ds) \<and>
    (n \<le> length b + length ds \<longrightarrow> rq_body r' = b @ take (n - length b) ds)) \<and>
    rq_consumeBodySome q ds = Inr ((Error_of INVALID_MESSAGE, True, 0), q)"
proof
  obtain mem where r: "rq_consumeBodySome r ds =
      Inr ((Error_none, n \<le> length b + length ds, min (length ds) (n - length b)),
           set_body r mem (length (b @ take (n - length b) ds)))"
    "collecting (set_body r mem (length (b @ take (n - length b) ds))) n (b @ take (n - length b) ds)"
    using consume_length_body_ok [OF assms(1), of ds] by blast
  have "length b \<le> n" using assms(1) by (simp add: collecting_def)
  with r collecting_done [OF r(2)] show "\<exists>r'. rq_consumeBodySome r ds =
      Inr ((Error_none, n \<le> length b + length ds, min (length ds) (n - length b)), r') \<and>
    collecting r' n (b @ take (n - length b) ds) \<and>
    (n \<le> length b + length ds \<longrightarrow> rq_body r' = b @ take (n - length b) ds)" by auto
  show "rq_consumeBodySome q ds = Inr ((Error_of INVALID_MESSAGE, True, 0), q)"
    using assms(2,3) consume_length_body_limit [of q l ds] by simp
qed

theorem length_body_collected_witness:
  "(\<exists>r'. rq_consumeBodySome ((request_span [])\<lparr>rq_contentLength := Some 3\<rparr>) (bytes ''abcd'') =
      Inr ((Error_none, True, 3), r') \<and> rq_body r' = bytes ''abc'') \<and>
   rq_consumeBodySome ((request_span [])\<lparr>rq_contentLength := Some 1048577\<rparr>) (bytes ''abcd'') =
      Inr ((Error_of INVALID_MESSAGE, True, 0), (request_span [])\<lparr>rq_contentLength := Some 1048577\<rparr>)"
proof -
  have c: "collecting ((request_span [])\<lparr>rq_contentLength := Some 3\<rparr>) 3 []"
    by (simp add: collecting_def request_span_def max_size_def)
  have "rq_contentLength ((request_span [])\<lparr>rq_contentLength := Some 1048577\<rparr>) = Some 1048577"
    "rq_maxBodySize ((request_span [])\<lparr>rq_contentLength := Some 1048577\<rparr>) < 1048577"
    by (simp_all add: request_span_def)
  from length_body_collected [OF c this, of "bytes ''abcd''"] show ?thesis by (auto simp: numeral_3_eq_3)
qed

text \<open>
  C21. A chunked body that comes whole in one piece of at most 2048 bytes (for longer ones
  see C22), with no more bytes behind it than it decodes to: when nothing follows, the
  request's body is the decoded data. When bytes follow, the body loses as many bytes at
  its end, and the count of bytes taken that is returned is that of the decoded bytes less
  the bytes that follow, not the count of bytes read.
\<close>

theorem chunked_body_collected:
  assumes "awaits_chunks r" and "list_all is_chunk cks" and "is_size h 0" and "is_extension e"
    and "list_all is_trailer ls" and "length (chunked_text cks h e ls @ rest) \<le> 2048"
    and "length rest \<le> length (concat (map chunk_data cks))"
  shows "\<exists>r'. rq_consumeBodySome r (chunked_text cks h e ls @ rest) =
      Inr ((Error_none, True, length (concat (map chunk_data cks)) - length rest), r') \<and>
    rq_body r' = take (length (concat (map chunk_data cks)) - length rest) (concat (map chunk_data cks))"
  by (rule consume_chunked_whole [OF assms(1-5) refl assms(6,7)])

lemma awaits_example: "awaits_chunks ((request_span [])\<lparr>rq_chunked := True\<rparr>)"
  by (simp add: awaits_chunks_def request_span_def between_def decoder_zero_def)

theorem chunked_body_collected_witness:
  "\<exists>r'. rq_consumeBodySome ((request_span [])\<lparr>rq_chunked := True\<rparr>)
      (chunked_text example_chunks (bytes ''0'') [] [bytes ''t: 1'']) = Inr ((Error_none, True, 15), r') \<and>
    rq_body r' = bytes ''hello0123456789''"
proof -
  let ?data = "concat (map chunk_data example_chunks)"
  have data: "length ?data = 15" "take (15 - length ([] :: byte list)) ?data = bytes ''hello0123456789''"
    by (simp_all add: example_chunks_def chunk_data_def)
  have len: "length (chunked_text example_chunks (bytes ''0'') [] [bytes ''t: 1''] @ []) \<le> 2048"
    by (simp add: example_chunks_def chunked_text_def chunk_text_def)
  from chunked_body_collected [OF awaits_example example_chunks_ok(1-4) len] show ?thesis
    unfolding data by simp
qed

text \<open>
  C22. The body of a chunked request is enlarged at most once per call, to 2048 bytes: a
  first piece that is longer, up to the limit of one megabyte, is copied past its end.
\<close>

theorem chunked_body_overflow:
  assumes "awaits_chunks r" and "2048 < length data" and "length data \<le> 1024 * 1024"
  shows "rq_consumeBodySome r data = Inl Undefined_behaviour"
  by (rule consume_chunked_overflow [OF assms])

theorem chunked_body_overflow_witness:
  "rq_consumeBodySome ((request_span [])\<lparr>rq_chunked := True\<rparr>) (replicate 2049 48) = Inl Undefined_behaviour"
  by (rule chunked_body_overflow [OF awaits_example]) simp_all


section \<open>Responses\<close>

text \<open>
  C23. Serialising a response: the header gets a Content-Type line if there is a body and
  none was set, a Connection line if none was set, a Content-Length line if the length on
  record is 0, and the empty line; no write leaves the buffer, which grows as needed, and
  the body is untouched. The length on record is 0 when none was set, but also when the
  application set 0, or a value that is no number: that line stays, and a second one
  follows it.
\<close>

theorem response_serialized:
  assumes "rs_open r"
  shows "\<exists>r'. serialize r = Inr r' \<and> rs_inv r' \<and> rs_text r' = rs_full_header r \<and>
    rs_contentLength r' = rs_declared r \<and> rs_payload r' = rs_payload r"
  using serialize_ok [OF assms] by (auto simp: rs_payload_def same_body_def)

theorem response_serialized_witness:
  "\<exists>r'. serialize (rs_blank False []) = Inr r' \<and>
     rs_text r' = bytes ''Connection: keep-alive'' @ [13, 10] @ bytes ''Content-Length: 0'' @ [13, 10, 13, 10]"
proof -
  have "rs_open (rs_blank False [])"
    by (simp add: rs_open_def rs_inv_def rs_blank_def rs_limit_def max_size_def)
  from response_serialized [OF this] show ?thesis
    by (auto simp: rs_full_header_def rs_default_defs rs_payload_def rs_blank_def rs_text_def field_line_def
        rn_def to_chars.simps digit_byte_def)
qed

text \<open>
  C24. Setting a field of a response appends exactly the line of the field to the header,
  whether or not the buffer had room for it, and records what the field says about the body.
\<close>

theorem response_field_set:
  assumes "rs_inv r" and "f \<noteq> Field_Count"
    and "rs_headerBufferIdx r + length (field_line (field_name f) v) < rs_limit"
  shows "\<exists>r'. set_field r f v = Inr r' \<and> rs_inv r' \<and>
    rs_text r' = rs_text r @ field_line (field_name f) v \<and>
    rs_contentLength r' =
      (if f = ContentLength then (case from_chars v of Some n \<Rightarrow> n | None \<Rightarrow> rs_contentLength r)
       else rs_contentLength r)"
  using set_field_ok [OF assms] appended_frame by fastforce

theorem response_field_set_witness:
  "\<exists>r'. set_field (rs_blank True []) Host (bytes ''h'') = Inr r' \<and>
     rs_text r' = bytes ''Host: h'' @ [13, 10]"
proof -
  have "rs_inv (rs_blank True [])" "Host \<noteq> Field_Count"
    "rs_headerBufferIdx (rs_blank True []) + length (field_line (field_name Host) (bytes ''h'')) < rs_limit"
    by (simp_all add: rs_inv_def rs_blank_def rs_limit_def field_line_def field_name_def fieldStrArr_def)
  from response_field_set [OF this] show ?thesis
    by (auto simp: field_line_def field_name_def fieldStrArr_def rn_def)
qed


section \<open>The parts below\<close>

text \<open>
  C25. The static buffer is a bounded first-in first-out queue: what is written within the
  room comes behind the content, what is consumed leaves its front, a write beyond the
  room is a fault, and a buffer that has been emptied has its whole capacity back.
\<close>

theorem buffer_is_queue:
  assumes "sb_inv b"
  shows "(if length ds \<le> room b
      then \<exists>b'. fill b ds = Inr b' \<and> sb_inv b' \<and> content b' = content b @ ds \<and> room b' = room b - length ds
      else fill b ds = Inl Undefined_behaviour) \<and>
    (n \<le> length (content b) \<longrightarrow> sb_inv (consume b n) \<and> content (consume b n) = drop n (content b)) \<and>
    room (consume b (length (content b))) = length (sb_buffer b)"
proof -
  have "sb_inv (consume b (length (content b)))" "content (consume b (length (content b))) = []"
    using sb.discard_inv [OF assms] sb.discard_contents [OF assms] by simp_all
  from sb.space_empty [OF this] have "room (consume b (length (content b))) = length (sb_buffer b)"
    using sb.discard_capacity [OF assms] by simp
  then show ?thesis
    using sb.put_ok [OF assms, of ds] sb.put_overflow [OF assms, of ds] sb.discard_inv [OF assms, of n]
      sb.discard_contents [OF assms, of n]
    by (cases "length ds \<le> room b") auto
qed

theorem buffer_is_queue_witness:
  "room (consume (static_buffer_new 4) 0) = 4 \<and> fill (static_buffer_new 4) [1, 2, 3, 4, 5] = Inl Undefined_behaviour"
proof -
  have "sb_inv (static_buffer_new 4)" by (rule sb_inv_new) (simp add: sz_modulus_def)
  from buffer_is_queue [OF this, of "[1, 2, 3, 4, 5]" 0] show ?thesis
    by (simp add: room_def static_buffer_new_def content_def)
qed

section \<open>Responses read back, and the states of the decoder\<close>

text \<open>
  C39. The text of a response (version, three digits of status, reason, fields) is parsed
  by \<open>phr_parse_response\<close> to that response and its length, whatever follows it, in both
  builds; every proper prefix of it is incomplete, never malformed. The pages of the server
  have this form.
\<close>

theorem response_parse_roundtrip:
  assumes "minor < 10" and "a < 10" and "b < 10" and "c < 10" and "is_value reason"
    and "list_all (\<lambda>(name, v). is_name name \<and> is_value v) hs" and "length hs \<le> m"
    and "length (response_text minor (a, b, c) reason hs) < 2 ^ 31"
    and "n < length (response_text minor (a, b, c) reason hs)"
  shows "phr_parse_response sse (response_text minor (a, b, c) reason hs @ body) m 0 =
      Inr (\<lparr>ps_minor_version = int minor, ps_status = int (100 * a + 10 * b + c), ps_msg = reason,
            ps_headers = map parsed_header hs\<rparr>, int (length (response_text minor (a, b, c) reason hs))) \<and>
    (\<exists>k. phr_parse_response sse (take n (response_text minor (a, b, c) reason hs)) m 0 = Inl (Partial, k))"
  using phr_parse_response_text [OF assms(1-8)] phr_parse_response_prefix [OF assms(1-7,9)] by blast

definition page_fields :: "(byte list \<times> byte list) list" where
  "page_fields = [(bytes ''Connection'', bytes ''keep-alive''), (bytes ''Content-Type'', bytes ''text/plain''),
     (bytes ''Content-Length'', bytes ''12'')]"

lemma page_fields_ok: "list_all (\<lambda>(name, v). is_name name \<and> is_value v) page_fields" "is_value (bytes ''OK'')"
  by (simp_all add: page_fields_def is_name_def is_value_def is_token_char_def token_char_map_def is_ctl_def is_blank_def)

lemma page_count: "length page_fields \<le> 32"
  by (simp add: page_fields_def)

lemma page_is_response_text:
  "page (bytes ''1.1'') (bytes ''Hello three!'') =
     response_text 1 (2, 0, 0) (bytes ''OK'') page_fields @ bytes ''Hello three!''"
  by (simp add: page_def status_line_def field_line_def rn_def to_chars.simps response_text_def digit_byte_def
      page_fields_def header_text_def)

theorem response_parse_roundtrip_witness:
  "phr_parse_response True (page (bytes ''1.1'') (bytes ''Hello three!'')) 32 0 =
    Inr (\<lparr>ps_minor_version = 1, ps_status = 200, ps_msg = bytes ''OK'',
          ps_headers = map parsed_header page_fields\<rparr>, 89)"
proof -
  have len: "length (response_text 1 (2, 0, 0) (bytes ''OK'') page_fields) = 89"
    by (simp add: response_text_def page_fields_def header_text_def)
  show ?thesis
    unfolding page_is_response_text
    using response_parse_roundtrip [OF _ _ _ _ page_fields_ok(2,1), of 1 2 0 0 32 50 True "bytes ''Hello three!''"]
      page_count
    by (simp add: len del: bytes_Cons One_nat_def)
qed

text \<open>
  C40. In every state that calls of \<open>phr_decode_chunked\<close> lead to from a zeroed decoder: at
  most 16 digits of a size are read, and reading another one does not wrap around; a
  decoder in the data of a chunk, and only that one among those behind the size line, waits
  for bytes, so \<open>phr_decode_chunked_is_in_data\<close> says that data are due; and as long as fewer
  than \<open>2 ^ 64\<close> bytes were given, they are counted exactly, the overhead never exceeds them,
  and the subtraction in the test for too much overhead does not wrap.
\<close>

theorem chunked_decoder_invariant:
  assumes "decoder_reachable n d"
  shows "bytes_left_in_chunk d < sz_modulus \<and> hex_count d \<le> 16 \<and>
    (ck_state d = CHUNKED_IN_CHUNK_SIZE \<and> hex_count d < 16 \<and> decode_hex c = Some v \<longrightarrow>
       sz_add (sz_mul (bytes_left_in_chunk d) 16) v = bytes_left_in_chunk d * 16 + v) \<and>
    (ck_state d \<notin> {CHUNKED_IN_CHUNK_SIZE, CHUNKED_IN_CHUNK_EXT, CHUNKED_IN_CHUNK_HEADER_EXPECT_LF} \<longrightarrow>
       (phr_decode_chunked_is_in_data d = 1) = (0 < bytes_left_in_chunk d)) \<and>
    (n < sz_modulus \<longrightarrow> total_read d = n \<and> total_overhead d \<le> n \<and>
       sz_sub (total_read d) (total_overhead d) = n - total_overhead d)"
  using chunk_inv_bounds [OF decoder_reachable_inv [OF assms]] chunk_inv_size [OF decoder_reachable_inv [OF assms]]
    decoder_reachable_counts [OF assms]
  by (auto simp: sz_simps dest: decode_hex_bound)

theorem chunked_decoder_invariant_witness:
  "\<exists>d. decoder_reachable 5 d \<and> phr_decode_chunked_is_in_data d = 1 \<and> bytes_left_in_chunk d = 7 \<and>
     total_read d = 5"
proof -
  let ?text = "bytes ''9'' @ [13, 10] @ bytes ''ab''"
  let ?d = "decoder_zero\<lparr>consume_trailer := True\<rparr>"
  have "dechunk (?d\<lparr>total_read := sz_add (total_read ?d) (length ?text)\<rparr>) ?text =
      (Incomplete, ?d\<lparr>total_read := 5, bytes_left_in_chunk := 7, ck_state := CHUNKED_IN_CHUNK_DATA\<rparr>, bytes ''ab'', [])"
    by (simp add: decoder_zero_def dechunk.simps [of _ "_ # _"] decode_hex_def after_size_def sz_add_def sz_mul_def
        sz_modulus_def)
  then obtain d buf' ret where call: "phr_decode_chunked ?d ?text = Inr (d, buf', 2, ret)"
    and d: "ck_state d = CHUNKED_IN_CHUNK_DATA" "bytes_left_in_chunk d = 7"
    by (rule phr_decode_chunked_spec) auto
  from decoder_reachable.call [OF decoder_reachable.fresh call] have r: "decoder_reachable 5 d" by (simp add: eval_nat_numeral)
  from chunked_decoder_invariant [OF this] d show ?thesis
    by (intro exI [of _ d] conjI r) (auto simp: sz_modulus_def)
qed

end
